(* ===== verification/Upf_Prelude.thy ===== *)
theory Upf_Prelude
  imports Main "HOL-Library.Word" "HOL-Library.Monad_Syntax"
begin

text \<open>
  Shared vocabulary of the development: the machine integer types of the C++ sources, the
  fact collections the component proofs draw on, and generic lemmas on lists and words.
  Code that ends in undefined behaviour, in a failed \<^verbatim>\<open>CHECK\<close> or in a loop that
  does not end has no result: such operations return \<open>option\<close>, with \<open>None\<close> for "no
  result", and the correctness theorems show that \<open>None\<close> does not occur.
\<close>

unbundle bit_operations_syntax

section \<open>Machine types\<close>

type_synonym u8 = "8 word"
type_synonym u16 = "16 word"
type_synonym u32 = "32 word"
type_synonym u64 = "64 word"

section \<open>Fact collections\<close>

named_theorems frame_simps \<open>fields an operation leaves alone\<close>
named_theorems step_defs \<open>definitions of the single steps of a component\<close>

section \<open>Lists\<close>

lemma nth_list_update_if:
  "i < length xs \<Longrightarrow> xs[i := v] ! j = (if i = j then v else xs ! j)"
  by (simp add: nth_list_update)

lemma find_upt_Some:
  assumes "find P [0..<n] = Some i"
  shows "i < n" "P i"
  using assms by (auto simp: find_Some_iff)

lemma find_upt_None: "find P [0..<n] = None \<longleftrightarrow> (\<forall>i<n. \<not> P i)"
  by (auto simp: find_None_iff)

section \<open>Words\<close>

lemma unat_and_le2: "unat (x AND y) \<le> unat (y :: 'a::len word)"
  using word_and_le1 [of x y] by (simp add: word_le_nat_alt)

lemma unat_pow2: "n < LENGTH('a) \<Longrightarrow> unat (2 ^ n :: 'a::len word) = 2 ^ n"
  using unat_of_nat [of "2 ^ n", where 'a = 'a] by (simp add: take_bit_nat_eq_self_iff)

lemma bit_word_iff_odd: "bit (x :: 'a::len word) n \<longleftrightarrow> odd (unat x div 2 ^ n)"
  using bit_iff_odd [of "unat x" n] by (simp only: bit_unsigned_iff) (auto dest: bit_imp_le_length)

lemma unat_of_nat_le: "unat (of_nat n :: 'a::len word) \<le> n"
  by (simp add: unat_of_nat)

lemma unat_ucast_up:
  "LENGTH('a) \<le> LENGTH('b) \<Longrightarrow> unat (ucast (w :: 'a::len word) :: 'b::len word) = unat w"
proof -
  assume "LENGTH('a) \<le> LENGTH('b)"
  then have "(2 :: nat) ^ LENGTH('a) \<le> 2 ^ LENGTH('b)" by simp
  with unsigned_less [of w] have "unat w < 2 ^ LENGTH('b)" by (rule less_le_trans)
  then show ?thesis by (simp add: unsigned_ucast_eq take_bit_nat_eq_self)
qed

lemma unat_drop_bit: "unat (drop_bit k w) = unat w div 2 ^ k" for w :: "'a::len word"
proof -
  have "take_bit LENGTH('a) (unat w) = unat w"
    by (rule take_bit_nat_eq_self) (rule unsigned_less)
  then show ?thesis by (simp only: unsigned_drop_bit_eq) (simp add: drop_bit_eq_div)
qed

lemma unat_take_bit: "unat (take_bit k w) = unat w mod 2 ^ k" for w :: "'a::len word"
  by (simp only: unsigned_take_bit_eq) (simp only: take_bit_eq_mod)

lemma unat_push_bit: "unat (push_bit k w) = unat w * 2 ^ k mod 2 ^ LENGTH('a)" for w :: "'a::len word"
  by (simp only: unsigned_push_bit_eq) (simp only: take_bit_eq_mod push_bit_eq_mult)

lemma and_not_mask: "w AND NOT (mask k) = push_bit k (drop_bit k w)" for w :: "'a::len word"
  by (rule bit_word_eqI) (auto simp: bit_simps)

lemma unat_and_not_mask: "unat (w AND NOT (mask k)) = unat w div 2 ^ k * 2 ^ k" for w :: "'a::len word"
proof -
  have "unat w div 2 ^ k * 2 ^ k \<le> unat w" by simp
  also have "unat w < 2 ^ LENGTH('a)" by (rule unsigned_less)
  finally show ?thesis by (simp add: and_not_mask unat_push_bit unat_drop_bit)
qed

lemma pow2_and_pred: "(2 ^ k :: 'a::len word) AND (2 ^ k - 1) = 0"
proof -
  have "(2 ^ k :: 'a word) AND (2 ^ k - 1) = take_bit k (2 ^ k)"
    by (simp add: take_bit_eq_mask mask_eq_exp_minus_1)
  also have "\<dots> = 0" by (rule bit_word_eqI) (simp add: bit_simps)
  finally show ?thesis .
qed

text \<open>Evaluation from the outside in, for runs of monadic code on concrete states.\<close>

lemma option_bind_weak_cong: "x = y \<Longrightarrow> Option.bind x f = Option.bind y f"
  by simp

lemma map_option_weak_cong: "x = y \<Longrightarrow> map_option f x = map_option f y"
  by simp

lemmas eval_cong = option_bind_weak_cong map_option_weak_cong
  prod.case_cong_weak option.case_cong_weak

end
