(* ===== verification/Common_Utils.thy ===== *)
theory Common_Utils
  imports Upf_Prelude "HOL-Library.Multiset"
begin

text \<open>
  Model of the generic helpers of \<^verbatim>\<open>bess/core/utils/common.h\<close>: rounding to an
  alignment, rounding up to a power of two by bit smearing, the insertion step that
  keeps a vector sorted, and the absolute difference. Alignments are not zero (the code
  divides by them).
\<close>

section \<open>Model\<close>

definition align_floor :: "u64 \<Rightarrow> u64 \<Rightarrow> u64" where
  "align_floor v align = v - (v mod align)"

definition align_ceil :: "u64 \<Rightarrow> u64 \<Rightarrow> u64" where
  "align_ceil v align = align_floor (v + align - 1) align"

definition align_ceil_pow2 :: "u64 \<Rightarrow> u64" where
  "align_ceil_pow2 v0 =
     (let v = v0 - 1;
          v = v OR drop_bit 1 v;
          v = v OR drop_bit 2 v;
          v = v OR drop_bit 4 v;
          v = v OR drop_bit 8 v;
          v = v OR drop_bit 16 v;
          v = v OR drop_bit 32 v
      in v + 1)"

definition absdiff :: "'a::{minus, ord} \<Rightarrow> 'a \<Rightarrow> 'a" where
  "absdiff lhs rhs = (if lhs > rhs then lhs - rhs else rhs - lhs)"

text \<open>
  \<open>insert_sorted_loop lt xs i\<close> is the loop of \<^verbatim>\<open>InsertSorted\<close> at index \<open>i\<close>: it swaps
  the elements at \<open>i - 1\<close> and \<open>i\<close> as long as the later one is smaller.
\<close>

fun insert_sorted_loop :: "('a \<Rightarrow> 'a \<Rightarrow> bool) \<Rightarrow> 'a list \<Rightarrow> nat \<Rightarrow> 'a list" where
  "insert_sorted_loop lt xs 0 = xs"
| "insert_sorted_loop lt xs (Suc i) =
     (let prev = xs ! i; cur = xs ! Suc i
      in if lt cur prev then insert_sorted_loop lt (xs[i := cur, Suc i := prev]) i
         else xs)"

definition InsertSorted :: "('a \<Rightarrow> 'a \<Rightarrow> bool) \<Rightarrow> 'a list \<Rightarrow> 'a \<Rightarrow> 'a list" where
  "InsertSorted lt container item =
     (let c = container @ [item] in insert_sorted_loop lt c (length c - 1))"

section \<open>Rounding up to a power of two\<close>

text \<open>
  After the shifts by 1, 2, \<dots>, \<open>k/2\<close> a bit of the accumulator is set iff one of the
  \<open>k\<close> bits of the argument from that position up is set.
\<close>

definition smeared :: "nat \<Rightarrow> u64 \<Rightarrow> u64 \<Rightarrow> bool" where
  "smeared k x y \<longleftrightarrow> (\<forall>i<64. bit y i = (\<exists>d<k. i + d < 64 \<and> bit x (i + d)))"

lemma smeared_1: "smeared 1 x x"
  by (simp add: smeared_def)

lemma smeared_double:
  assumes "smeared k x y"
  shows "smeared (2 * k) x (y OR drop_bit k y)"
  unfolding smeared_def
proof (intro allI impI)
  fix i :: nat assume i: "i < 64"
  have bit_y: "bit y n = (n < 64 \<and> (\<exists>d<k. n + d < 64 \<and> bit x (n + d)))" for n
    using assms bit_imp_le_length [of y n] by (auto simp: smeared_def)
  have "bit (y OR drop_bit k y) i = (bit y i \<or> bit y (i + k))"
    using i by (auto simp: bit_simps add.commute dest: bit_imp_le_length)
  also have "\<dots> = (\<exists>d<2 * k. i + d < 64 \<and> bit x (i + d))" (is "?L = ?R")
  proof
    assume ?L
    then consider d where "d < k" "i + d < 64" "bit x (i + d)"
      | d where "d < k" "i + k + d < 64" "bit x (i + k + d)"
      unfolding bit_y by blast
    then show ?R
    proof cases
      case 1 then show ?thesis by (intro exI [of _ d]) auto
    next
      case 2 then show ?thesis by (intro exI [of _ "k + d"]) (auto simp: ac_simps)
    qed
  next
    assume ?R
    then obtain d where d: "d < 2 * k" "i + d < 64" "bit x (i + d)" by blast
    show ?L
    proof (cases "d < k")
      case True
      with d i show ?thesis unfolding bit_y by blast
    next
      case False
      then obtain e where "d = k + e" using le_Suc_ex not_less by blast
      with d show ?thesis unfolding bit_y by (auto simp: ac_simps)
    qed
  qed
  finally show "bit (y OR drop_bit k y) i = (\<exists>d<2 * k. i + d < 64 \<and> bit x (i + d))" .
qed

lemma smeared_64_mask:
  fixes x :: u64
  assumes lo: "2 ^ n \<le> unat x" and hi: "unat x < 2 ^ Suc n" and y: "smeared 64 x y"
  shows "y = mask (Suc n)"
proof (rule bit_word_eqI)
  fix i assume "i < LENGTH(64)"
  then have i: "i < 64" by simp
  have "unat x div 2 ^ n = 1" using lo hi by (simp add: div_nat_eqI)
  then have top: "bit x n" by (simp add: bit_word_iff_odd)
  have above: "\<not> bit x j" if "Suc n \<le> j" for j
  proof -
    have "unat x < 2 ^ j" using hi that by (meson le_trans not_less power_increasing one_le_numeral)
    then show ?thesis by (simp add: bit_word_iff_odd)
  qed
  have n64: "n < 64" using bit_imp_le_length [OF top] by simp
  have "bit y i = (\<exists>d<64. i + d < 64 \<and> bit x (i + d))"
    using y i by (simp add: smeared_def)
  also have "\<dots> = (i < Suc n)"
  proof
    assume "\<exists>d<64. i + d < 64 \<and> bit x (i + d)"
    then show "i < Suc n" using above by (metis le_add1 le_trans not_le)
  next
    assume "i < Suc n"
    then show "\<exists>d<64. i + d < 64 \<and> bit x (i + d)"
      using top n64 by (intro exI [of _ "n - i"]) auto
  qed
  finally show "bit y i = bit (mask (Suc n) :: u64) i"
    using i by (simp add: bit_mask_iff)
qed

lemma align_ceil_pow2_smeared: "\<exists>y. smeared 64 (v - 1) y \<and> align_ceil_pow2 v = y + 1"
proof -
  note sm = smeared_double [OF smeared_1 [of "v - 1"]]
  note sm = smeared_double [OF sm]
  note sm = smeared_double [OF sm]
  note sm = smeared_double [OF sm]
  note sm = smeared_double [OF sm]
  note sm = smeared_double [OF sm]
  from sm show ?thesis
    unfolding align_ceil_pow2_def Let_def by (intro exI conjI) simp_all
qed

lemma align_ceil_pow2_between:
  assumes lo: "2 ^ n < unat v" and hi: "unat v \<le> 2 ^ Suc n"
  shows "align_ceil_pow2 v = 2 ^ Suc n"
proof -
  have v: "unat (v - 1) = unat v - 1"
    using lo by (metis gr_implies_not0 unat_0 unat_minus_one)
  obtain y where y: "smeared 64 (v - 1) y" "align_ceil_pow2 v = y + 1"
    using align_ceil_pow2_smeared by blast
  have "y = mask (Suc n)"
    using y(1) lo hi by (intro smeared_64_mask [of n "v - 1"]) (auto simp: v)
  with y(2) show ?thesis by (simp add: mask_eq_exp_minus_1)
qed

lemma align_ceil_pow2_1: "align_ceil_pow2 1 = 1"
  by (simp add: align_ceil_pow2_def)

lemma align_ceil_pow2_0: "align_ceil_pow2 0 = 0"
  by (simp add: align_ceil_pow2_def)

lemma align_ceil_pow2_power: "align_ceil_pow2 (2 ^ n) = 2 ^ n"
proof (cases "n < 64")
  case True
  have u: "unat (2 ^ n :: u64) = 2 ^ n"
    using True by (simp add: unat_pow2)
  show ?thesis
  proof (cases n)
    case 0 then show ?thesis by (simp add: align_ceil_pow2_1)
  next
    case (Suc m)
    have "align_ceil_pow2 (2 ^ n) = 2 ^ Suc m"
      using u Suc by (intro align_ceil_pow2_between) simp_all
    with Suc show ?thesis by simp
  qed
next
  case False
  then have "(2 ^ n :: u64) = 0" by (simp add: exp_eq_zero_iff)
  then show ?thesis by (simp only: align_ceil_pow2_0)
qed

lemma align_ceil_pow2_of_nat_power: "align_ceil_pow2 (of_nat (2 ^ n)) = of_nat (2 ^ n)"
  by (simp add: align_ceil_pow2_power)

section \<open>Sorted insertion\<close>

lemma insert_sorted_loop_snoc:
  "insert_sorted_loop lt (xs @ a # x # ys) (Suc (length xs)) =
     (if lt x a then insert_sorted_loop lt (xs @ x # a # ys) (length xs)
      else xs @ a # x # ys)"
  by (simp add: nth_append list_update_append)

lemma mset_insert_sorted_loop:
  "mset (insert_sorted_loop lt (xs @ x # ys) (length xs)) = mset (xs @ x # ys)"
proof (induction xs arbitrary: ys rule: rev_induct)
  case Nil
  then show ?case by simp
next
  case (snoc a xs)
  have "mset (insert_sorted_loop lt (xs @ a # x # ys) (Suc (length xs))) =
        mset (xs @ a # x # ys)"
    unfolding insert_sorted_loop_snoc using snoc.IH [of "a # ys"] by simp
  then show ?case by simp
qed

text \<open>
  The comparison of a vector's element type is a strict weak order: its complement
  \<open>le x y = (\<not> lt y x)\<close> is transitive, and \<open>lt\<close> is contained in it.
\<close>

lemma sorted_insert_sorted_loop:
  assumes tr: "\<And>a b c. \<not> lt b a \<Longrightarrow> \<not> lt c b \<Longrightarrow> \<not> lt c a"
    and asym: "\<And>a b. lt a b \<Longrightarrow> \<not> lt b a"
  shows "sorted_wrt (\<lambda>a b. \<not> lt b a) (xs @ ys) \<Longrightarrow> \<forall>y\<in>set ys. \<not> lt y x \<Longrightarrow>
    sorted_wrt (\<lambda>a b. \<not> lt b a) (insert_sorted_loop lt (xs @ x # ys) (length xs))"
proof (induction xs arbitrary: ys rule: rev_induct)
  case Nil
  then show ?case by simp
next
  case (snoc a xs)
  have "sorted_wrt (\<lambda>a b. \<not> lt b a)
          (insert_sorted_loop lt (xs @ a # x # ys) (Suc (length xs)))"
  proof (cases "lt x a")
    case True
    with snoc.prems snoc.IH [of "a # ys"] asym [of x a] show ?thesis
      unfolding insert_sorted_loop_snoc by (simp add: sorted_wrt_append)
  next
    case False
    then have le: "\<forall>b\<in>set xs. \<not> lt x b"
      using snoc.prems(1) tr [of a _ x] by (simp add: sorted_wrt_append)
    from False snoc.prems le show ?thesis
      unfolding insert_sorted_loop_snoc by (simp add: sorted_wrt_append)
  qed
  then show ?case by simp
qed

lemma InsertSorted_loop:
  "InsertSorted lt xs x = insert_sorted_loop lt (xs @ x # []) (length xs)"
  by (simp add: InsertSorted_def)

lemma mset_InsertSorted [simp]: "mset (InsertSorted lt xs x) = add_mset x (mset xs)"
  unfolding InsertSorted_loop mset_insert_sorted_loop by simp

lemma set_InsertSorted [simp]: "set (InsertSorted lt xs x) = insert x (set xs)"
  using mset_eq_setD [of "InsertSorted lt xs x" "x # xs"] by simp

lemma length_InsertSorted [simp]: "length (InsertSorted lt xs x) = Suc (length xs)"
  using mset_eq_length [of "InsertSorted lt xs x" "x # xs"] by simp

lemma sorted_InsertSorted:
  assumes "\<And>a b c. \<not> lt b a \<Longrightarrow> \<not> lt c b \<Longrightarrow> \<not> lt c a"
    and "\<And>a b. lt a b \<Longrightarrow> \<not> lt b a"
    and "sorted_wrt (\<lambda>a b. \<not> lt b a) xs"
  shows "sorted_wrt (\<lambda>a b. \<not> lt b a) (InsertSorted lt xs x)"
  unfolding InsertSorted_loop
  by (rule sorted_insert_sorted_loop [of lt, OF assms(1) assms(2)]) (simp_all add: assms(3))

section \<open>Properties\<close>

text \<open>
  The bit-smearing \<^verbatim>\<open>align_ceil_pow2\<close> returns the least power of two that is not below
  its argument, for every argument whose result fits 64 bits.
\<close>

lemma align_ceil_pow2_least:
  assumes "1 \<le> unat v" and "unat v \<le> 2 ^ 63"
  shows "\<exists>n. unat (align_ceil_pow2 v) = 2 ^ n \<and> unat v \<le> 2 ^ n \<and> (\<forall>k. unat v \<le> 2 ^ k \<longrightarrow> n \<le> k)"
proof (cases "unat v = 1")
  case True
  then have "v = 1" by (simp add: word_unat_eq_iff)
  then show ?thesis by (intro exI [of _ 0]) (simp add: align_ceil_pow2_1)
next
  case False
  define n where "n = (LEAST n. unat v \<le> 2 ^ n)"
  have n: "unat v \<le> 2 ^ n" unfolding n_def using assms(2) by (rule LeastI)
  have least: "n \<le> k" if "unat v \<le> 2 ^ k" for k unfolding n_def using that by (rule Least_le)
  obtain k where k: "n = Suc k" using n False assms(1) by (cases n) auto
  have "2 ^ k < unat v" using least [of k] k by (meson Suc_n_not_le_n not_le)
  then have "align_ceil_pow2 v = 2 ^ n"
    using align_ceil_pow2_between [of k v] n k by simp
  moreover have "n < 64" using least [OF assms(2)] by simp
  ultimately show ?thesis using n least by (intro exI [of _ n]) (simp add: unat_pow2)
qed

text \<open>
  Inserting into a sorted vector from the back keeps it sorted and adds exactly the
  new element, for any comparison that is a strict weak order.
\<close>

lemma InsertSorted_correct:
  assumes "\<And>a b c. \<not> lt b a \<Longrightarrow> \<not> lt c b \<Longrightarrow> \<not> lt c a"
    and "\<And>a b. lt a b \<Longrightarrow> \<not> lt b a"
    and "sorted_wrt (\<lambda>a b. \<not> lt b a) xs"
  shows "sorted_wrt (\<lambda>a b. \<not> lt b a) (InsertSorted lt xs x) \<and>
    mset (InsertSorted lt xs x) = add_mset x (mset xs)"
  using sorted_InsertSorted [of lt, OF assms(1) assms(2) assms(3)] by simp

end
