(* ===== verification/Cuckoo_Map.thy ===== *)
theory Cuckoo_Map
  imports Common_Utils
begin

text \<open>
  Model of \<^verbatim>\<open>bess/core/utils/cuckoo_map.h\<close>, the hash table of the data path, in its
  native (non-DPDK) mode. A bucket has four slots, each a hash value (0 means empty) and
  an index into the vector of entries; free entry indices are kept on a stack (the head
  of the list is its top). The hash functor \<open>hasher\<close>, the equality functor \<open>eq\<close> and the
  value-initialised entry \<open>d\<close> (\<^verbatim>\<open>Entry()\<close>) are template parameters of the class and
  arguments of the model. Pointers to entries are indices into \<open>entries\<close>,
  \<^verbatim>\<open>nullptr\<close>, \<^verbatim>\<open>kInvalidEntryIdx\<close> and the slot index \<^verbatim>\<open>-1\<close> are \<open>None\<close>.
  The outer \<open>option\<close> of the inserting operations is \<open>None\<close> when the code has no
  result: \<^verbatim>\<open>top()\<close> of an empty stack, a failed \<^verbatim>\<open>CHECK\<close>, a loop that does not end.
  Values are copied: for a type whose move constructor empties its source, a failed
  \<^verbatim>\<open>ExpandBuckets\<close> of the code leaves the moved values of the old table empty.
  Sizes and entry indices are unbounded numbers, so the model assumes memory for them.
\<close>

section \<open>Data\<close>

definition kInitNumBucket :: nat where "kInitNumBucket = 4"
definition kInitNumEntries :: nat where "kInitNumEntries = 16"
definition kEntriesPerBucket :: nat where "kEntriesPerBucket = 4"
definition kMaxCuckooPath :: nat where "kMaxCuckooPath = 3"

record bucket =
  hash_values :: "u32 list"
  entry_indices :: "nat list"

definition Bucket :: bucket where
  "Bucket = \<lparr>hash_values = replicate kEntriesPerBucket 0,
             entry_indices = replicate kEntriesPerBucket 0\<rparr>"

record ('k, 'v) cuckoo =
  bucket_mask :: u32
  num_entries :: nat
  buckets :: "bucket list"
  entries :: "('k \<times> 'v) list"
  free_entry_indices :: "nat list"

definition CuckooMap :: "'k \<times> 'v \<Rightarrow> nat \<Rightarrow> nat \<Rightarrow> ('k, 'v) cuckoo option" where
  "CuckooMap d reserve_buckets reserve_entries =
     (if align_ceil_pow2 (of_nat reserve_buckets) = of_nat reserve_buckets
      then Some \<lparr>bucket_mask = of_nat reserve_buckets - 1,
                 num_entries = 0,
                 buckets = replicate reserve_buckets Bucket,
                 entries = replicate reserve_entries d,
                 free_entry_indices = [0..<reserve_entries]\<rparr>
      else None)"

section \<open>Hashing\<close>

definition Hash :: "('k \<Rightarrow> u32) \<Rightarrow> 'k \<Rightarrow> u32" where
  "Hash hasher key = hasher key OR push_bit 31 1"

definition HashSecondary :: "u32 \<Rightarrow> u32" where
  "HashSecondary primary =
     (let tag = drop_bit 12 primary in primary XOR ((tag + 1) * 0x5bd1e995))"

definition bucket_of :: "('k, 'v) cuckoo \<Rightarrow> u32 \<Rightarrow> nat" where
  "bucket_of m h = unat (h AND bucket_mask m)"

section \<open>Lookup\<close>

definition FindEmptySlot :: "bucket \<Rightarrow> nat option" where
  "FindEmptySlot bk = find (\<lambda>i. hash_values bk ! i = 0) [0..<kEntriesPerBucket]"

definition FindSlot ::
  "('k \<Rightarrow> 'k \<Rightarrow> bool) \<Rightarrow> ('k, 'v) cuckoo \<Rightarrow> bucket \<Rightarrow> u32 \<Rightarrow> 'k \<Rightarrow> nat option" where
  "FindSlot eq m bk primary key =
     find (\<lambda>i. hash_values bk ! i = primary \<and>
               eq (fst (entries m ! (entry_indices bk ! i))) key) [0..<kEntriesPerBucket]"

definition GetFromBucket ::
  "('k \<Rightarrow> 'k \<Rightarrow> bool) \<Rightarrow> ('k, 'v) cuckoo \<Rightarrow> u32 \<Rightarrow> nat \<Rightarrow> 'k \<Rightarrow> nat option" where
  "GetFromBucket eq m primary bucket_idx key =
     (let bk = buckets m ! bucket_idx
      in case FindSlot eq m bk primary key of
           None \<Rightarrow> None
         | Some slot_idx \<Rightarrow> Some (entry_indices bk ! slot_idx))"

definition FindWithHash ::
  "('k \<Rightarrow> 'k \<Rightarrow> bool) \<Rightarrow> ('k, 'v) cuckoo \<Rightarrow> u32 \<Rightarrow> 'k \<Rightarrow> nat option" where
  "FindWithHash eq m primary key =
     (case GetFromBucket eq m primary (bucket_of m primary) key of
        Some idx \<Rightarrow> Some idx
      | None \<Rightarrow> GetFromBucket eq m primary (bucket_of m (HashSecondary primary)) key)"

definition Find ::
  "('k \<Rightarrow> u32) \<Rightarrow> ('k \<Rightarrow> 'k \<Rightarrow> bool) \<Rightarrow> 'k \<Rightarrow> ('k, 'v) cuckoo \<Rightarrow> ('k \<times> 'v) option" where
  "Find hasher eq key m =
     (case FindWithHash eq m (Hash hasher key) key of
        None \<Rightarrow> None
      | Some idx \<Rightarrow> Some (entries m ! idx))"

section \<open>Removal\<close>

definition set_slot :: "nat \<Rightarrow> nat \<Rightarrow> u32 \<Rightarrow> nat \<Rightarrow> bucket list \<Rightarrow> bucket list" where
  "set_slot b s h i bs =
     bs[b := (bs ! b)\<lparr>hash_values := (hash_values (bs ! b))[s := h],
                       entry_indices := (entry_indices (bs ! b))[s := i]\<rparr>]"

definition clear_slot :: "nat \<Rightarrow> nat \<Rightarrow> bucket list \<Rightarrow> bucket list" where
  "clear_slot b s bs = bs[b := (bs ! b)\<lparr>hash_values := (hash_values (bs ! b))[s := 0]\<rparr>]"

definition PushFreeEntryIndex :: "nat \<Rightarrow> ('k, 'v) cuckoo \<Rightarrow> ('k, 'v) cuckoo" where
  "PushFreeEntryIndex idx m = m\<lparr>free_entry_indices := idx # free_entry_indices m\<rparr>"

definition RemoveFromBucket ::
  "('k \<Rightarrow> 'k \<Rightarrow> bool) \<Rightarrow> 'k \<times> 'v \<Rightarrow> u32 \<Rightarrow> nat \<Rightarrow> 'k \<Rightarrow> ('k, 'v) cuckoo \<Rightarrow>
     ('k, 'v) cuckoo \<times> bool" where
  "RemoveFromBucket eq d primary bucket_idx key m =
     (let bk = buckets m ! bucket_idx
      in case FindSlot eq m bk primary key of
           None \<Rightarrow> (m, False)
         | Some slot_idx \<Rightarrow>
             let m = m\<lparr>buckets := clear_slot bucket_idx slot_idx (buckets m)\<rparr>;
                 idx = entry_indices bk ! slot_idx;
                 m = m\<lparr>entries := (entries m)[idx := d]\<rparr>;
                 m = PushFreeEntryIndex idx m
             in (m\<lparr>num_entries := num_entries m - 1\<rparr>, True))"

definition Remove ::
  "('k \<Rightarrow> u32) \<Rightarrow> ('k \<Rightarrow> 'k \<Rightarrow> bool) \<Rightarrow> 'k \<times> 'v \<Rightarrow> 'k \<Rightarrow> ('k, 'v) cuckoo \<Rightarrow>
     ('k, 'v) cuckoo \<times> bool" where
  "Remove hasher eq d key m =
     (let pri = Hash hasher key
      in case RemoveFromBucket eq d pri (bucket_of m pri) key m of
           (m, True) \<Rightarrow> (m, True)
         | (m, False) \<Rightarrow>
             let sec = HashSecondary pri
             in RemoveFromBucket eq d pri (bucket_of m sec) key m)"

definition Clear :: "'k \<times> 'v \<Rightarrow> ('k, 'v) cuckoo \<Rightarrow> ('k, 'v) cuckoo" where
  "Clear d m =
     m\<lparr>num_entries := 0,
       bucket_mask := of_nat kInitNumBucket - 1,
       buckets := replicate kInitNumBucket Bucket,
       entries := replicate kInitNumEntries d,
       free_entry_indices := [0..<kInitNumEntries]\<rparr>"

definition Count :: "('k, 'v) cuckoo \<Rightarrow> nat" where
  "Count m = num_entries m"

section \<open>Insertion\<close>

text \<open>
  \<^verbatim>\<open>ExpandEntries\<close> pushes the new indices from the last one down, so the smallest is on
  top. On an empty vector the loop of the code never ends; here nothing is pushed and
  \<open>PopFreeEntryIndex\<close> has no result.
\<close>

definition ExpandEntries :: "'k \<times> 'v \<Rightarrow> ('k, 'v) cuckoo \<Rightarrow> ('k, 'v) cuckoo" where
  "ExpandEntries d m =
     (let old_size = length (entries m);
          new_size = old_size + old_size div 2
      in m\<lparr>entries := entries m @ replicate (new_size - old_size) d,
           free_entry_indices := [old_size..<new_size] @ free_entry_indices m\<rparr>)"

definition PopFreeEntryIndex ::
  "'k \<times> 'v \<Rightarrow> ('k, 'v) cuckoo \<Rightarrow> (nat \<times> ('k, 'v) cuckoo) option" where
  "PopFreeEntryIndex d m =
     (let m = (if free_entry_indices m = [] then ExpandEntries d m else m)
      in case free_entry_indices m of
           [] \<Rightarrow> None
         | idx # rest \<Rightarrow> Some (idx, m\<lparr>free_entry_indices := rest\<rparr>))"

definition EmplaceInBucket ::
  "('k \<Rightarrow> u32) \<Rightarrow> 'k \<times> 'v \<Rightarrow> nat \<Rightarrow> 'k \<Rightarrow> 'v \<Rightarrow> ('k, 'v) cuckoo \<Rightarrow>
     (('k, 'v) cuckoo \<times> nat option) option" where
  "EmplaceInBucket hasher d bucket_idx key val m =
     (case FindEmptySlot (buckets m ! bucket_idx) of
        None \<Rightarrow> Some (m, None)
      | Some slot_idx \<Rightarrow>
          do {
            (free_idx, m) \<leftarrow> PopFreeEntryIndex d m;
            Some (m\<lparr>buckets := set_slot bucket_idx slot_idx (Hash hasher key) free_idx (buckets m),
                    entries := (entries m)[free_idx := (key, val)],
                    num_entries := num_entries m + 1\<rparr>,
                  Some free_idx)
          })"

text \<open>
  \<open>MakeSpace\<close> and its loop over the slots of the bucket. The bucket is a reference, so
  its slot is read again after the recursive call; the alternative bucket is not. The
  loop is entered with \<open>depth < kMaxCuckooPath\<close> only; its test of \<open>depth\<close> is never true.
\<close>

function (sequential) MakeSpace ::
    "('k \<Rightarrow> u32) \<Rightarrow> nat \<Rightarrow> nat \<Rightarrow> ('k, 'v) cuckoo \<Rightarrow> ('k, 'v) cuckoo \<times> nat option"
  and MakeSpace_loop ::
    "('k \<Rightarrow> u32) \<Rightarrow> nat \<Rightarrow> nat \<Rightarrow> nat \<Rightarrow> ('k, 'v) cuckoo \<Rightarrow> ('k, 'v) cuckoo \<times> nat option"
where
  "MakeSpace hasher index depth m =
     (if depth \<ge> kMaxCuckooPath then (m, None) else MakeSpace_loop hasher index depth 0 m)"
| "MakeSpace_loop hasher index depth i m =
     (if i \<ge> kEntriesPerBucket \<or> depth \<ge> kMaxCuckooPath then (m, None)
      else
        let bk = buckets m ! index;
            key = fst (entries m ! (entry_indices bk ! i));
            pri = Hash hasher key;
            sec = HashSecondary pri
        in case (if pri = hash_values bk ! i then Some (bucket_of m sec)
                 else if sec = hash_values bk ! i then Some (bucket_of m pri)
                 else None) of
             None \<Rightarrow> (m, None)
           | Some alt_index \<Rightarrow>
               let (m1, j) = (case FindEmptySlot (buckets m ! alt_index) of
                                Some j \<Rightarrow> (m, Some j)
                              | None \<Rightarrow> MakeSpace hasher alt_index (depth + 1) m)
               in case j of
                    Some j \<Rightarrow>
                      let bk1 = buckets m1 ! index
                      in (m1\<lparr>buckets :=
                            clear_slot index i
                              (set_slot alt_index j (hash_values bk1 ! i)
                                 (entry_indices bk1 ! i) (buckets m1))\<rparr>,
                          Some i)
                  | None \<Rightarrow> MakeSpace_loop hasher index depth (i + 1) m1)"
  by pat_completeness auto
termination
  by (relation "measures
        [\<lambda>x. case x of Inl (_, _, d, _) \<Rightarrow> kMaxCuckooPath - d
                      | Inr (_, _, d, _, _) \<Rightarrow> kMaxCuckooPath - d,
         \<lambda>x. case x of Inl _ \<Rightarrow> Suc kEntriesPerBucket
                      | Inr (_, _, _, i, _) \<Rightarrow> kEntriesPerBucket - i]") auto

declare MakeSpace.simps [simp del] MakeSpace_loop.simps [simp del]

text \<open>\<open>EmplaceEntry\<close> jumps back to its start after every slot it could free.\<close>

partial_function (option) EmplaceEntry ::
  "('k \<Rightarrow> u32) \<Rightarrow> 'k \<times> 'v \<Rightarrow> u32 \<Rightarrow> u32 \<Rightarrow> 'k \<Rightarrow> 'v \<Rightarrow> ('k, 'v) cuckoo \<Rightarrow>
     (('k, 'v) cuckoo \<times> nat option) option" where
  "EmplaceEntry hasher d primary secondary key val m =
     (let primary_bucket_index = bucket_of m primary
      in do {
        (m, entry) \<leftarrow> EmplaceInBucket hasher d primary_bucket_index key val m;
        (case entry of
           Some e \<Rightarrow> Some (m, Some e)
         | None \<Rightarrow>
             let secondary_bucket_index = bucket_of m secondary
             in do {
               (m, entry) \<leftarrow> EmplaceInBucket hasher d secondary_bucket_index key val m;
               (case entry of
                  Some e \<Rightarrow> Some (m, Some e)
                | None \<Rightarrow>
                    (case MakeSpace hasher primary_bucket_index 0 m of
                       (m, Some _) \<Rightarrow> EmplaceEntry hasher d primary secondary key val m
                     | (m, None) \<Rightarrow>
                         (case MakeSpace hasher secondary_bucket_index 0 m of
                            (m, Some _) \<Rightarrow> EmplaceEntry hasher d primary secondary key val m
                          | (m, None) \<Rightarrow> Some (m, None))))
             })
      })"

text \<open>
  The iterator: a bucket and a slot index, moved past empty slots (\<open>s < kEntriesPerBucket\<close>
  holds for every iterator). \<open>iterate\<close> lists the positions a range-for loop visits.
\<close>

definition iter_advance :: "nat \<times> nat \<Rightarrow> nat \<times> nat" where
  "iter_advance p =
     (if snd p + 1 = kEntriesPerBucket then (fst p + 1, 0) else (fst p, snd p + 1))"

function iter_skip :: "bucket list \<Rightarrow> nat \<times> nat \<Rightarrow> nat \<times> nat" where
  "iter_skip bs p =
     (if fst p < length bs \<and> snd p < kEntriesPerBucket \<and> hash_values (bs ! fst p) ! snd p = 0
      then iter_skip bs (iter_advance p) else p)"
  by pat_completeness auto
termination
  by (relation "measures [\<lambda>(bs, p). length bs - fst p, \<lambda>(bs, p). kEntriesPerBucket - snd p]")
    (auto simp: iter_advance_def)

definition iter_begin :: "bucket list \<Rightarrow> nat \<times> nat" where
  "iter_begin bs = iter_skip bs (0, 0)"

definition iter_next :: "bucket list \<Rightarrow> nat \<times> nat \<Rightarrow> nat \<times> nat" where
  "iter_next bs p = iter_skip bs (iter_advance p)"

declare iter_skip.simps [simp del]

definition iter_rank :: "bucket list \<Rightarrow> nat \<times> nat \<Rightarrow> nat" where
  "iter_rank bs p = kEntriesPerBucket * (length bs - fst p) - snd p"

lemma iter_advance_rank:
  assumes "fst p < length bs" "snd p < kEntriesPerBucket"
  shows "iter_rank bs (iter_advance p) < iter_rank bs p \<and> snd (iter_advance p) < kEntriesPerBucket"
proof -
  obtain c where "length bs = Suc (fst p) + c" using assms(1) less_imp_Suc_add by auto
  with assms show ?thesis
    by (auto simp: iter_advance_def iter_rank_def kEntriesPerBucket_def)
qed

lemma iter_skip_rank:
  "snd p < kEntriesPerBucket \<Longrightarrow>
     iter_rank bs (iter_skip bs p) \<le> iter_rank bs p \<and> snd (iter_skip bs p) < kEntriesPerBucket"
proof (induction bs p rule: iter_skip.induct)
  case (1 bs p)
  then show ?case
    by (subst (1 2) iter_skip.simps) (use iter_advance_rank [of p bs] in auto)
qed

function iterate :: "bucket list \<Rightarrow> nat \<times> nat \<Rightarrow> (nat \<times> nat) list" where
  "iterate bs p =
     (if fst p < length bs \<and> snd p < kEntriesPerBucket then p # iterate bs (iter_next bs p) else [])"
  by pat_completeness auto
termination
proof (relation "measure (\<lambda>(bs, p). iter_rank bs p)")
  fix bs :: "bucket list" and p :: "nat \<times> nat"
  assume "fst p < length bs \<and> snd p < kEntriesPerBucket"
  then have "iter_rank bs (iter_next bs p) < iter_rank bs p"
    using iter_advance_rank [of p bs] iter_skip_rank [of "iter_advance p" bs]
    by (simp add: iter_next_def)
  then show "((bs, iter_next bs p), (bs, p)) \<in> measure (\<lambda>(bs, p). iter_rank bs p)" by simp
qed simp

declare iterate.simps [simp del]

definition occupied_slots :: "('k, 'v) cuckoo \<Rightarrow> (nat \<times> nat) list" where
  "occupied_slots m = iterate (buckets m) (iter_begin (buckets m))"

definition entry_at :: "('k, 'v) cuckoo \<Rightarrow> nat \<times> nat \<Rightarrow> 'k \<times> 'v" where
  "entry_at m p = entries m ! (entry_indices (buckets m ! fst p) ! snd p)"

text \<open>
  Insertion and growth call each other: \<open>do_emplace\<close> stands for the \<^verbatim>\<open>DoEmplace\<close> that
  \<^verbatim>\<open>ExpandBuckets\<close> runs on the bigger table. \<open>rehash_loop\<close> stops at the first entry
  that does not fit (\<open>Some None\<close>).
\<close>

fun rehash_loop ::
  "('k \<Rightarrow> 'v \<Rightarrow> ('k, 'v) cuckoo \<Rightarrow> (('k, 'v) cuckoo \<times> nat option) option) \<Rightarrow>
     ('k \<times> 'v) list \<Rightarrow> ('k, 'v) cuckoo \<Rightarrow> ('k, 'v) cuckoo option option" where
  "rehash_loop do_emplace [] bigger = Some (Some bigger)"
| "rehash_loop do_emplace (e # es) bigger =
     (case do_emplace (fst e) (snd e) bigger of
        None \<Rightarrow> None
      | Some (bigger, None) \<Rightarrow> Some None
      | Some (bigger, Some ret) \<Rightarrow> rehash_loop do_emplace es bigger)"

definition ExpandBuckets ::
  "('k \<Rightarrow> 'v \<Rightarrow> ('k, 'v) cuckoo \<Rightarrow> (('k, 'v) cuckoo \<times> nat option) option) \<Rightarrow>
     'k \<times> 'v \<Rightarrow> ('k, 'v) cuckoo \<Rightarrow> ('k, 'v) cuckoo option" where
  "ExpandBuckets do_emplace d m =
     do {
       bigger \<leftarrow> CuckooMap d (length (buckets m) * 2) (length (entries m));
       r \<leftarrow> rehash_loop do_emplace (map (entry_at m) (occupied_slots m)) bigger;
       (case r of
          None \<Rightarrow> Some m
        | Some bigger \<Rightarrow>
            Some (m\<lparr>bucket_mask := bucket_mask bigger,
                    num_entries := num_entries bigger,
                    buckets := buckets bigger,
                    entries := entries bigger,
                    free_entry_indices := free_entry_indices bigger\<rparr>))
     }"

function emplace_loop ::
  "(('k, 'v) cuckoo \<Rightarrow> ('k, 'v) cuckoo option) \<Rightarrow> ('k \<Rightarrow> u32) \<Rightarrow> 'k \<times> 'v \<Rightarrow>
     u32 \<Rightarrow> u32 \<Rightarrow> 'k \<Rightarrow> 'v \<Rightarrow> nat \<Rightarrow> ('k, 'v) cuckoo \<Rightarrow>
     (('k, 'v) cuckoo \<times> nat option) option" where
  "emplace_loop expand hasher d primary secondary key val trials m =
     (case EmplaceEntry hasher d primary secondary key val m of
        None \<Rightarrow> None
      | Some (m, Some entry) \<Rightarrow> Some (m, Some entry)
      | Some (m, None) \<Rightarrow>
          if trials + 1 \<ge> 3 then Some (m, None)
          else (case expand m of
                  None \<Rightarrow> None
                | Some m \<Rightarrow> emplace_loop expand hasher d primary secondary key val (trials + 1) m))"
  by pat_completeness auto
termination
  by (relation "measure (\<lambda>(_, _, _, _, _, _, _, trials, _). 3 - trials)") auto

declare emplace_loop.simps [simp del]

text \<open>
  The fuel bounds how often the growth of a table may start the growth of the bigger
  table it fills; \<open>0\<close> has no result.
\<close>

primrec DoEmplace ::
  "nat \<Rightarrow> ('k \<Rightarrow> u32) \<Rightarrow> ('k \<Rightarrow> 'k \<Rightarrow> bool) \<Rightarrow> 'k \<times> 'v \<Rightarrow> 'k \<Rightarrow> 'v \<Rightarrow> ('k, 'v) cuckoo \<Rightarrow>
     (('k, 'v) cuckoo \<times> nat option) option" where
  "DoEmplace 0 hasher eq d key val m = None"
| "DoEmplace (Suc fuel) hasher eq d key val m =
     (let primary = Hash hasher key
      in case FindWithHash eq m primary key of
           Some idx \<Rightarrow>
             Some (m\<lparr>entries := (entries m)[idx := (fst (entries m ! idx), val)]\<rparr>, Some idx)
         | None \<Rightarrow>
             emplace_loop (ExpandBuckets (DoEmplace fuel hasher eq d) d)
               hasher d primary (HashSecondary primary) key val 0 m)"

text \<open>One level of growth per stored entry is enough (lemma \<open>Insert_post\<close>).\<close>

definition Insert ::
  "('k \<Rightarrow> u32) \<Rightarrow> ('k \<Rightarrow> 'k \<Rightarrow> bool) \<Rightarrow> 'k \<times> 'v \<Rightarrow> 'k \<Rightarrow> 'v \<Rightarrow> ('k, 'v) cuckoo \<Rightarrow>
     (('k, 'v) cuckoo \<times> nat option) option" where
  "Insert hasher eq d key val m = DoEmplace (Suc (num_entries m)) hasher eq d key val m"

end
