(* ===== verification/Cuckoo_Correct.thy ===== *)
theory Cuckoo_Correct
  imports Cuckoo_Map
begin

text \<open>
  Correctness of the cuckoo hash table. A table is seen through the partial map \<open>slot\<close>
  from slot positions to the hash value and entry index stored there, and through
  \<open>stored\<close>, the set of key/value pairs the occupied slots lead to. Displacing an entry
  (\<open>MakeSpace\<close>) permutes the slots and keeps \<open>stored\<close>.
\<close>

declare split_paired_All [simp del] split_paired_Ex [simp del]

section \<open>The slots of a table\<close>

definition slot :: "bucket list \<Rightarrow> nat \<times> nat \<Rightarrow> (u32 \<times> nat) option" where
  "slot bs p =
     (if fst p < length bs \<and> snd p < kEntriesPerBucket \<and> hash_values (bs ! fst p) ! snd p \<noteq> 0
      then Some (hash_values (bs ! fst p) ! snd p, entry_indices (bs ! fst p) ! snd p)
      else None)"

definition wf_shape :: "bucket list \<Rightarrow> bool" where
  "wf_shape bs \<longleftrightarrow> (\<forall>bk\<in>set bs. length (hash_values bk) = kEntriesPerBucket \<and>
                               length (entry_indices bk) = kEntriesPerBucket)"

lemma wf_shapeD:
  "wf_shape bs \<Longrightarrow> b < length bs \<Longrightarrow> length (hash_values (bs ! b)) = kEntriesPerBucket"
  "wf_shape bs \<Longrightarrow> b < length bs \<Longrightarrow> length (entry_indices (bs ! b)) = kEntriesPerBucket"
  by (auto simp: wf_shape_def)

lemma length_set_slot [simp]: "length (set_slot b s h i bs) = length bs"
  by (simp add: set_slot_def)

lemma length_clear_slot [simp]: "length (clear_slot b s bs) = length bs"
  by (simp add: clear_slot_def)

lemma wf_shape_update:
  assumes "wf_shape bs" and "length (hash_values bk) = kEntriesPerBucket"
    and "length (entry_indices bk) = kEntriesPerBucket"
  shows "wf_shape (bs[b := bk])"
  using assms set_update_subset_insert [of bs b bk] by (auto simp: wf_shape_def)

lemma wf_shape_set_slot: "wf_shape bs \<Longrightarrow> b < length bs \<Longrightarrow> wf_shape (set_slot b s h i bs)"
  unfolding set_slot_def by (rule wf_shape_update) (simp_all add: wf_shapeD)

lemma wf_shape_clear_slot: "wf_shape bs \<Longrightarrow> b < length bs \<Longrightarrow> wf_shape (clear_slot b s bs)"
  unfolding clear_slot_def by (rule wf_shape_update) (simp_all add: wf_shapeD)

lemma slot_set_slot:
  assumes "wf_shape bs" "b < length bs" "s < kEntriesPerBucket"
  shows "slot (set_slot b s h i bs) = (slot bs)((b, s) := (if h = 0 then None else Some (h, i)))"
proof (rule ext)
  fix p :: "nat \<times> nat"
  show "slot (set_slot b s h i bs) p = ((slot bs)((b, s) := (if h = 0 then None else Some (h, i)))) p"
    using assms wf_shapeD [OF assms(1,2)]
    by (cases p) (auto simp: slot_def set_slot_def nth_list_update split: if_splits)
qed

lemma slot_clear_slot:
  assumes "wf_shape bs" "b < length bs" "s < kEntriesPerBucket"
  shows "slot (clear_slot b s bs) = (slot bs)((b, s) := None)"
proof (rule ext)
  fix p :: "nat \<times> nat"
  show "slot (clear_slot b s bs) p = ((slot bs)((b, s) := None)) p"
    using assms wf_shapeD [OF assms(1,2)]
    by (cases p) (auto simp: slot_def clear_slot_def nth_list_update split: if_splits)
qed

lemma slot_range: "slot bs p = Some x \<Longrightarrow> fst p < length bs \<and> snd p < kEntriesPerBucket"
  by (auto simp: slot_def split: if_splits)

lemma slot_finite: "finite (dom (slot bs))"
proof (rule finite_subset)
  show "dom (slot bs) \<subseteq> {0..<length bs} \<times> {0..<kEntriesPerBucket}"
    using slot_range by fastforce
qed simp

lemma FindEmptySlot_Some:
  assumes "FindEmptySlot (bs ! b) = Some s"
  shows "s < kEntriesPerBucket" "slot bs (b, s) = None"
  using assms find_upt_Some [of _ kEntriesPerBucket s]
  by (auto simp: FindEmptySlot_def slot_def)

lemma FindEmptySlot_None:
  assumes "b < length bs"
  shows "FindEmptySlot (bs ! b) = None \<longleftrightarrow> (\<forall>s<kEntriesPerBucket. slot bs (b, s) \<noteq> None)"
  using assms by (auto simp: FindEmptySlot_def slot_def find_upt_None)

lemma Hash_nonzero: "Hash hasher k \<noteq> 0"
proof
  assume "Hash hasher k = 0"
  then have "bit (Hash hasher k) 31 = bit (0 :: u32) 31" by simp
  then show False by (simp add: Hash_def bit_or_iff bit_push_bit_iff)
qed

section \<open>Invariant\<close>

definition home :: "('k, 'v) cuckoo \<Rightarrow> u32 \<Rightarrow> nat set" where
  "home m h = {bucket_of m h, bucket_of m (HashSecondary h)}"

definition slots_ok :: "('k \<Rightarrow> u32) \<Rightarrow> ('k, 'v) cuckoo \<Rightarrow> bool" where
  "slots_ok hasher m \<longleftrightarrow>
     (\<forall>p h i. slot (buckets m) p = Some (h, i) \<longrightarrow>
        i < length (entries m) \<and> h = Hash hasher (fst (entries m ! i)) \<and> fst p \<in> home m h)"

definition keys_distinct :: "('k \<Rightarrow> 'k \<Rightarrow> bool) \<Rightarrow> ('k, 'v) cuckoo \<Rightarrow> bool" where
  "keys_distinct eq m \<longleftrightarrow>
     (\<forall>p q h h' i i'. slot (buckets m) p = Some (h, i) \<longrightarrow> slot (buckets m) q = Some (h', i') \<longrightarrow>
        p \<noteq> q \<longrightarrow> \<not> eq (fst (entries m ! i)) (fst (entries m ! i')))"

definition free_ok :: "('k, 'v) cuckoo \<Rightarrow> bool" where
  "free_ok m \<longleftrightarrow>
     distinct (free_entry_indices m) \<and>
     (\<forall>i\<in>set (free_entry_indices m).
        i < length (entries m) \<and> (\<forall>p h. slot (buckets m) p \<noteq> Some (h, i)))"

definition table_ok :: "('k, 'v) cuckoo \<Rightarrow> bool" where
  "table_ok m \<longleftrightarrow>
     wf_shape (buckets m) \<and> (\<exists>n. length (buckets m) = 2 ^ n) \<and>
     bucket_mask m = of_nat (length (buckets m)) - 1 \<and> 2 \<le> length (entries m)"

definition count_ok :: "('k, 'v) cuckoo \<Rightarrow> bool" where
  "count_ok m \<longleftrightarrow>
     num_entries m = card (dom (slot (buckets m))) \<and>
     num_entries m + length (free_entry_indices m) = length (entries m)"

definition cuckoo_inv :: "('k \<Rightarrow> u32) \<Rightarrow> ('k \<Rightarrow> 'k \<Rightarrow> bool) \<Rightarrow> ('k, 'v) cuckoo \<Rightarrow> bool" where
  "cuckoo_inv hasher eq m \<longleftrightarrow>
     table_ok m \<and> slots_ok hasher m \<and> keys_distinct eq m \<and> free_ok m \<and> count_ok m"

definition stored :: "('k, 'v) cuckoo \<Rightarrow> ('k \<times> 'v) set" where
  "stored m = {entries m ! i | p h i. slot (buckets m) p = Some (h, i)}"

lemma storedI: "slot (buckets m) p = Some (h, i) \<Longrightarrow> entries m ! i \<in> stored m"
  unfolding stored_def by blast

lemma table_ok_nonempty: "table_ok m \<Longrightarrow> 0 < length (buckets m)"
  by (auto simp: table_ok_def)

lemma bucket_of_less:
  assumes "table_ok m"
  shows "bucket_of m h < length (buckets m)"
proof -
  have pos: "0 < length (buckets m)" using assms by (rule table_ok_nonempty)
  then have "(of_nat (length (buckets m)) - 1 :: u32) = of_nat (length (buckets m) - 1)"
    by (metis of_nat_1 of_nat_diff Suc_leI One_nat_def)
  then have "unat (bucket_mask m) \<le> length (buckets m) - 1"
    using assms unat_of_nat_le [of "length (buckets m) - 1", where 'a = 32]
    by (simp add: table_ok_def)
  then show ?thesis
    using pos unat_and_le2 [of h "bucket_mask m"] unfolding bucket_of_def by linarith
qed

lemma home_less: "table_ok m \<Longrightarrow> b \<in> home m h \<Longrightarrow> b < length (buckets m)"
  by (auto simp: home_def bucket_of_less)

lemma cuckoo_invD:
  assumes "cuckoo_inv hasher eq m"
  shows "table_ok m" "slots_ok hasher m" "keys_distinct eq m" "free_ok m" "count_ok m"
  using assms by (auto simp: cuckoo_inv_def)

lemma slots_okD:
  assumes "slots_ok hasher m" "slot (buckets m) p = Some (h, i)"
  shows "i < length (entries m)" "h = Hash hasher (fst (entries m ! i))" "fst p \<in> home m h"
  using assms unfolding slots_ok_def by blast+

lemma keys_distinctD:
  assumes "keys_distinct eq m" "slot (buckets m) p = Some (h, i)"
    "slot (buckets m) q = Some (h', i')" "eq (fst (entries m ! i)) (fst (entries m ! i'))"
  shows "p = q"
  using assms unfolding keys_distinct_def by blast

section \<open>Keys\<close>

text \<open>
  What a table needs of its functors: \<open>eq\<close> is an equivalence and equal keys have equal
  hash values. \<open>hash_key\<close> is the interface between the table and its key type.
\<close>

definition hash_compat :: "('k \<Rightarrow> u32) \<Rightarrow> ('k \<Rightarrow> 'k \<Rightarrow> bool) \<Rightarrow> bool" where
  "hash_compat hasher eq \<longleftrightarrow> equivp eq \<and> (\<forall>a b. eq a b \<longrightarrow> hasher a = hasher b)"

lemma hash_compat_equal: "hash_compat hasher (=)"
  by (simp add: hash_compat_def identity_equivp)

locale hash_key =
  fixes hasher :: "'k \<Rightarrow> u32" and eq :: "'k \<Rightarrow> 'k \<Rightarrow> bool"
  assumes compat: "hash_compat hasher eq"
begin

lemma eq_refl: "eq a a"
  using compat by (simp add: hash_compat_def equivp_reflp)

lemma eq_sym: "eq a b \<Longrightarrow> eq b a"
  using compat by (auto simp: hash_compat_def elim: equivp_symp)

lemma eq_trans: "eq a b \<Longrightarrow> eq b c \<Longrightarrow> eq a c"
  using compat by (auto simp: hash_compat_def elim: equivp_transp)

lemma Hash_cong: "eq a b \<Longrightarrow> Hash hasher a = Hash hasher b"
  using compat by (simp add: hash_compat_def Hash_def)

lemma GetFromBucket_Some:
  assumes "GetFromBucket eq m h b k = Some i" "b < length (buckets m)" "h \<noteq> 0"
  shows "\<exists>s. slot (buckets m) (b, s) = Some (h, i) \<and> eq (fst (entries m ! i)) k"
proof -
  obtain s where s: "FindSlot eq m (buckets m ! b) h k = Some s"
    and i: "i = entry_indices (buckets m ! b) ! s"
    using assms(1) by (auto simp: GetFromBucket_def Let_def split: option.splits)
  then show ?thesis
    using find_upt_Some [OF s [unfolded FindSlot_def]] assms(2,3)
    by (intro exI [of _ s]) (auto simp: slot_def)
qed

lemma GetFromBucket_None:
  assumes "GetFromBucket eq m h b k = None" "slot (buckets m) (b, s) = Some (h, i)"
  shows "\<not> eq (fst (entries m ! i)) k"
  using assms slot_range [OF assms(2)]
  by (auto simp: GetFromBucket_def Let_def FindSlot_def find_upt_None slot_def
      split: option.splits if_splits)

lemma FindWithHash_Some:
  assumes inv: "cuckoo_inv hasher eq m" and f: "FindWithHash eq m (Hash hasher k) k = Some i"
  shows "\<exists>p. slot (buckets m) p = Some (Hash hasher k, i) \<and> eq (fst (entries m ! i)) k"
proof -
  note t = cuckoo_invD(1) [OF inv]
  from f obtain b where "GetFromBucket eq m (Hash hasher k) b k = Some i" "b < length (buckets m)"
    using bucket_of_less [OF t] by (auto simp: FindWithHash_def split: option.splits)
  from GetFromBucket_Some [OF this Hash_nonzero] show ?thesis by blast
qed

lemma FindWithHash_None:
  assumes inv: "cuckoo_inv hasher eq m" and f: "FindWithHash eq m (Hash hasher k) k = None"
    and s: "slot (buckets m) p = Some (h, i)"
  shows "\<not> eq (fst (entries m ! i)) k"
proof
  assume e: "eq (fst (entries m ! i)) k"
  note sl = slots_okD [OF cuckoo_invD(2) [OF inv] s]
  have h: "h = Hash hasher k" using sl(2) Hash_cong [OF e] by simp
  obtain b t where p: "p = (b, t)" by (cases p)
  from f have "GetFromBucket eq m h b k = None"
    using sl(3) unfolding p h by (auto simp: FindWithHash_def home_def split: option.splits)
  from GetFromBucket_None [OF this] s e show False unfolding p by blast
qed

lemma stored_unique:
  assumes inv: "cuckoo_inv hasher eq m" and "e \<in> stored m" "e' \<in> stored m" "eq (fst e) (fst e')"
  shows "e = e'"
proof -
  obtain p h i q h' i' where "slot (buckets m) p = Some (h, i)" "e = entries m ! i"
    "slot (buckets m) q = Some (h', i')" "e' = entries m ! i'"
    using assms(2,3) by (auto simp: stored_def)
  with keys_distinctD [OF cuckoo_invD(3) [OF inv], of p h i q h' i'] assms(4)
  show ?thesis by auto
qed

lemma Find_iff:
  assumes inv: "cuckoo_inv hasher eq m"
  shows "Find hasher eq k m = Some e \<longleftrightarrow> e \<in> stored m \<and> eq (fst e) k"
proof (cases "FindWithHash eq m (Hash hasher k) k")
  case None
  then show ?thesis
    using FindWithHash_None [OF inv None] by (auto simp: Find_def stored_def)
next
  case (Some i)
  from FindWithHash_Some [OF inv Some] obtain p where
    p: "slot (buckets m) p = Some (Hash hasher k, i)" "eq (fst (entries m ! i)) k" by blast
  then have i: "entries m ! i \<in> stored m" by (blast intro: storedI)
  have "e = entries m ! i" if "e \<in> stored m" "eq (fst e) k"
    using stored_unique [OF inv that(1) i] eq_trans [OF that(2) eq_sym [OF p(2)]] by simp
  with Some i p(2) show ?thesis by (auto simp: Find_def)
qed

lemma Find_None_iff:
  assumes "cuckoo_inv hasher eq m"
  shows "Find hasher eq k m = None \<longleftrightarrow> (\<forall>e\<in>stored m. \<not> eq (fst e) k)"
  using Find_iff [OF assms, of k] by (metis not_None_eq)

end

section \<open>Moving an entry to a free slot\<close>

definition same_entries :: "('k, 'v) cuckoo \<Rightarrow> ('k, 'v) cuckoo \<Rightarrow> bool" where
  "same_entries m m' \<longleftrightarrow>
     bucket_mask m' = bucket_mask m \<and> num_entries m' = num_entries m \<and>
     entries m' = entries m \<and> free_entry_indices m' = free_entry_indices m \<and>
     length (buckets m') = length (buckets m)"

lemma same_entries_home: "same_entries m m' \<Longrightarrow> home m' h = home m h"
  by (simp add: same_entries_def home_def bucket_of_def)

lemma ran_move:
  assumes "sl q = None" "sl' = sl(q := sl p, p := None)"
  shows "ran sl' = ran sl"
proof (cases "p = q")
  case True
  with assms have "sl' = sl" by auto
  then show ?thesis by simp
next
  case False
  with assms show ?thesis
    by (auto simp: ran_def split: if_splits) (metis option.distinct(1))+
qed

lemma dom_move_card:
  assumes "sl q = None" "sl' = sl(q := sl p, p := None)" "finite (dom sl)"
  shows "card (dom sl') = card (dom sl)"
proof (cases "sl p = None")
  case True
  then have "dom sl' = dom sl" using assms by (auto simp: dom_def)
  then show ?thesis by simp
next
  case False
  then have d: "dom sl' = insert q (dom sl - {p})" "q \<notin> dom sl - {p}" "p \<in> dom sl"
    using assms by (auto simp: dom_def)
  have "card (dom sl') = Suc (card (dom sl - {p}))"
    unfolding d(1) using assms(3) d(2) by (simp del: card_Diff_insert)
  with card_Suc_Diff1 [OF assms(3) d(3)] show ?thesis by simp
qed

lemma move_inv:
  assumes inv: "cuckoo_inv hasher eq m" and se: "same_entries m m'"
    and wf: "wf_shape (buckets m')"
    and q: "slot (buckets m) q = None"
    and sl: "slot (buckets m') = (slot (buckets m))(q := slot (buckets m) p, p := None)"
    and hm: "\<And>h i. slot (buckets m) p = Some (h, i) \<Longrightarrow> fst q \<in> home m h"
  shows "cuckoo_inv hasher eq m'"
proof -
  note I = cuckoo_invD [OF inv]
  note R = ran_move [OF q sl]
  have src: "\<exists>r'. slot (buckets m) r' = Some (h, i) \<and> (r' = r \<or> r' = p \<and> r = q)"
    if "slot (buckets m') r = Some (h, i)" for r h i
    using that sl by (auto split: if_splits)
  have "table_ok m'" using I(1) se wf by (auto simp: table_ok_def same_entries_def)
  moreover have "slots_ok hasher m'"
    unfolding slots_ok_def
  proof (intro allI impI)
    fix r h i assume r: "slot (buckets m') r = Some (h, i)"
    from src [OF this] obtain r' where
      r': "slot (buckets m) r' = Some (h, i)" "r' = r \<or> r' = p \<and> r = q" by blast
    have "fst r \<in> home m h" using r' hm [of h i] slots_okD(3) [OF I(2) r'(1)] by auto
    then show "i < length (entries m') \<and> h = Hash hasher (fst (entries m' ! i)) \<and> fst r \<in> home m' h"
      using slots_okD(1,2) [OF I(2) r'(1)] se same_entries_home [OF se, of h]
      by (simp add: same_entries_def)
  qed
  moreover have "keys_distinct eq m'"
    unfolding keys_distinct_def
  proof (intro allI impI notI)
    fix r t h h' i i'
    assume a: "slot (buckets m') r = Some (h, i)" "slot (buckets m') t = Some (h', i')" "r \<noteq> t"
      "eq (fst (entries m' ! i)) (fst (entries m' ! i'))"
    obtain r' t' where
      r': "slot (buckets m) r' = Some (h, i)" "r' = r \<or> r' = p \<and> r = q" and
      t': "slot (buckets m) t' = Some (h', i')" "t' = t \<or> t' = p \<and> t = q"
      using src [OF a(1)] src [OF a(2)] by blast
    have pn: "p = q \<or> slot (buckets m') p = None" using sl by auto
    have "r' = t'" using keys_distinctD [OF I(3) r'(1) t'(1)] a(4) se by (simp add: same_entries_def)
    with r' t' a(1-3) q pn show False by auto
  qed
  moreover have "free_ok m'"
    unfolding free_ok_def
  proof (intro conjI ballI allI notI)
    show "distinct (free_entry_indices m')" using I(4) se by (simp add: free_ok_def same_entries_def)
  next
    fix i assume "i \<in> set (free_entry_indices m')"
    then show "i < length (entries m')" using I(4) se by (simp add: free_ok_def same_entries_def)
  next
    fix i r h assume "i \<in> set (free_entry_indices m')" "slot (buckets m') r = Some (h, i)"
    then show False using I(4) se src [of r h i] by (auto simp: free_ok_def same_entries_def)
  qed
  moreover have "count_ok m'"
    using I(5) se dom_move_card [OF q sl slot_finite] by (simp add: count_ok_def same_entries_def)
  ultimately show ?thesis by (simp add: cuckoo_inv_def)
qed

lemma stored_ran: "stored m = (\<lambda>(h, i). entries m ! i) ` ran (slot (buckets m))"
  by (force simp: stored_def ran_def)

end
