(* ===== verification/Cuckoo_Insert.thy ===== *)
theory Cuckoo_Insert
  imports Cuckoo_Correct
begin

text \<open>
  The operations that change a cuckoo table: displacement (\<open>MakeSpace\<close>), insertion with
  growth (\<open>EmplaceEntry\<close>, \<open>ExpandBuckets\<close>, \<open>DoEmplace\<close>), removal and \<open>Clear\<close>.
\<close>

section \<open>Displacement\<close>

text \<open>
  What a successful \<open>MakeSpace\<close> at bucket \<open>b\<close> guarantees. A slot that was occupied stays
  occupied (but for the one that is freed). At depth 2 its content is unchanged; at depth
  1 it is unchanged or now an entry that may also live in \<open>b\<close>. Both facts are what the
  caller, one level up, needs: it moves the slot it has chosen before the recursive call,
  whatever that slot holds after it.
\<close>

definition kept :: "nat \<Rightarrow> ('k, 'v) cuckoo \<Rightarrow> nat \<Rightarrow> ('k, 'v) cuckoo \<Rightarrow> nat \<times> nat \<Rightarrow> bool" where
  "kept depth m b m' p \<longleftrightarrow>
     slot (buckets m') p \<noteq> None \<and>
     (depth = 2 \<longrightarrow> slot (buckets m') p = slot (buckets m) p) \<and>
     (depth = 1 \<longrightarrow> slot (buckets m') p = slot (buckets m) p \<or>
                   (\<exists>h i. slot (buckets m') p = Some (h, i) \<and> b \<in> home m h))"

definition freed ::
  "('k \<Rightarrow> u32) \<Rightarrow> ('k \<Rightarrow> 'k \<Rightarrow> bool) \<Rightarrow> nat \<Rightarrow> ('k, 'v) cuckoo \<Rightarrow> nat \<Rightarrow> ('k, 'v) cuckoo \<Rightarrow>
     nat \<Rightarrow> bool" where
  "freed hasher eq depth m b m' j \<longleftrightarrow>
     cuckoo_inv hasher eq m' \<and> same_entries m m' \<and> j < kEntriesPerBucket \<and>
     slot (buckets m') (b, j) = None \<and>
     ran (slot (buckets m')) = ran (slot (buckets m)) \<and>
     (\<forall>p. p \<noteq> (b, j) \<longrightarrow> slot (buckets m) p \<noteq> None \<longrightarrow> kept depth m b m' p)"

definition make_space_post ::
  "('k \<Rightarrow> u32) \<Rightarrow> ('k \<Rightarrow> 'k \<Rightarrow> bool) \<Rightarrow> nat \<Rightarrow> ('k, 'v) cuckoo \<Rightarrow> nat \<Rightarrow>
     ('k, 'v) cuckoo \<times> nat option \<Rightarrow> bool" where
  "make_space_post hasher eq depth m b r \<longleftrightarrow>
     (case snd r of None \<Rightarrow> fst r = m | Some j \<Rightarrow> freed hasher eq depth m b (fst r) j)"

definition full_bucket :: "('k, 'v) cuckoo \<Rightarrow> nat \<Rightarrow> bool" where
  "full_bucket m b \<longleftrightarrow> b < length (buckets m) \<and> (\<forall>s<kEntriesPerBucket. slot (buckets m) (b, s) \<noteq> None)"

definition displace :: "nat \<Rightarrow> nat \<Rightarrow> nat \<Rightarrow> nat \<Rightarrow> ('k, 'v) cuckoo \<Rightarrow> ('k, 'v) cuckoo" where
  "displace index i alt j m =
     m\<lparr>buckets := clear_slot index i
        (set_slot alt j (hash_values (buckets m ! index) ! i)
           (entry_indices (buckets m ! index) ! i) (buckets m))\<rparr>"

lemma displace_same: "same_entries m (displace index i alt j m)"
  by (simp add: displace_def same_entries_def)

lemma slot_displace:
  assumes wf: "wf_shape (buckets m)" and "index < length (buckets m)" "alt < length (buckets m)"
    "i < kEntriesPerBucket" "j < kEntriesPerBucket"
  shows "slot (buckets (displace index i alt j m)) =
     (slot (buckets m))((alt, j) := slot (buckets m) (index, i), (index, i) := None)"
    and "wf_shape (buckets (displace index i alt j m))"
  using assms
  by (simp_all add: displace_def slot_clear_slot slot_set_slot wf_shape_set_slot
      wf_shape_clear_slot) (auto simp: slot_def)

lemma displace_freed:
  assumes inv: "cuckoo_inv hasher eq m" and inv1: "cuckoo_inv hasher eq m1"
    and se: "same_entries m m1" and ran: "ran (slot (buckets m1)) = ran (slot (buckets m))"
    and idx: "index < length (buckets m)" "i < kEntriesPerBucket" "alt < length (buckets m)"
      "j < kEntriesPerBucket"
    and free: "slot (buckets m1) (alt, j) = None"
    and hm: "\<And>h x. slot (buckets m1) (index, i) = Some (h, x) \<Longrightarrow> alt \<in> home m1 h"
    and occ: "\<And>p. p \<noteq> (index, i) \<Longrightarrow> p \<noteq> (alt, j) \<Longrightarrow> slot (buckets m) p \<noteq> None \<Longrightarrow>
        slot (buckets m1) p \<noteq> None \<and> (depth \<noteq> 0 \<longrightarrow> slot (buckets m1) p = slot (buckets m) p)"
    and src: "(alt, j) \<noteq> (index, i) \<Longrightarrow> slot (buckets m) (alt, j) \<noteq> None \<Longrightarrow>
        depth < 2 \<and> slot (buckets m1) (index, i) \<noteq> None"
  shows "freed hasher eq depth m index (displace index i alt j m1) i"
proof -
  let ?m = "displace index i alt j m1"
  have len: "length (buckets m1) = length (buckets m)" using se by (simp add: same_entries_def)
  have wf1: "wf_shape (buckets m1)" using cuckoo_invD(1) [OF inv1] by (simp add: table_ok_def)
  note sl = slot_displace [OF wf1, of index alt i j, unfolded len, OF idx(1,3,2,4)]
  have se': "same_entries m ?m"
    using se displace_same [of m1 index i alt j] by (simp add: same_entries_def)
  have "cuckoo_inv hasher eq ?m"
    using hm by (intro move_inv [OF inv1 displace_same sl(2) free sl(1)]) simp
  moreover have "ran (slot (buckets ?m)) = ran (slot (buckets m))"
    using ran_move [OF free sl(1)] ran by simp
  moreover have "slot (buckets ?m) (index, i) = None" using sl(1) by simp
  moreover have "kept depth m index ?m p"
    if p: "p \<noteq> (index, i)" "slot (buckets m) p \<noteq> None" for p
  proof (cases "p = (alt, j)")
    case False
    then show ?thesis using p occ [OF p(1) False p(2)] sl(1) by (auto simp: kept_def)
  next
    case True
    then have ne: "(alt, j) \<noteq> (index, i)" and s: "slot (buckets m) (alt, j) \<noteq> None" using p by auto
    from src [OF ne s] obtain h x where d: "depth < 2" and
      hx: "slot (buckets m1) (index, i) = Some (h, x)" by auto
    have "index \<in> home m h"
      using slots_okD(3) [OF cuckoo_invD(2) [OF inv1] hx] same_entries_home [OF se] by simp
    moreover have "slot (buckets ?m) p = Some (h, x)" using sl(1) hx True ne by simp
    ultimately show ?thesis using d by (simp add: kept_def)
  qed
  ultimately show ?thesis using se' idx by (simp add: freed_def)
qed

lemma MakeSpace_loop_step:
  assumes inv: "cuckoo_inv hasher eq m" and s: "slot (buckets m) (b, i) = Some (h, x)"
    and d: "depth < kMaxCuckooPath"
  shows "MakeSpace_loop hasher b depth i m =
    (let alt = bucket_of m (HashSecondary h);
         (m1, j) = (case FindEmptySlot (buckets m ! alt) of
                      Some j \<Rightarrow> (m, Some j)
                    | None \<Rightarrow> MakeSpace hasher alt (depth + 1) m)
     in case j of
          Some j \<Rightarrow> (displace b i alt j m1, Some i)
        | None \<Rightarrow> MakeSpace_loop hasher b depth (i + 1) m1)"
proof -
  have h: "h = hash_values (buckets m ! b) ! i" "x = entry_indices (buckets m ! b) ! i"
    using s by (auto simp: slot_def split: if_splits)
  have "Hash hasher (fst (entries m ! x)) = h"
    using slots_okD(2) [OF cuckoo_invD(2) [OF inv] s] by simp
  with h d slot_range [OF s] show ?thesis
    by (subst MakeSpace_loop.simps)
      (simp add: displace_def Let_def cong: if_cong option.case_cong)
qed

lemma full_bucketI:
  "b < length (buckets m) \<Longrightarrow> FindEmptySlot (buckets m ! b) = None \<Longrightarrow> full_bucket m b"
  by (simp add: full_bucket_def FindEmptySlot_None)

lemma MakeSpace_loop_direct:
  assumes inv: "cuckoo_inv hasher eq m" and s: "slot (buckets m) (b, i) = Some (h, x)"
    and e: "FindEmptySlot (buckets m ! bucket_of m (HashSecondary h)) = Some j"
  shows "freed hasher eq depth m b (displace b i (bucket_of m (HashSecondary h)) j m) i"
proof (rule displace_freed [OF inv inv])
  show "same_entries m m" by (simp add: same_entries_def)
qed (use FindEmptySlot_Some [OF e] slot_range [OF s] s bucket_of_less [OF cuckoo_invD(1) [OF inv]]
    in \<open>auto simp: home_def\<close>)

lemma MakeSpace_loop_deep:
  assumes inv: "cuckoo_inv hasher eq m" and s: "slot (buckets m) (b, i) = Some (h, x)"
    and d: "Suc depth < kMaxCuckooPath"
    and f: "freed hasher eq (Suc depth) m alt m1 j" and alt: "alt = bucket_of m (HashSecondary h)"
  shows "freed hasher eq depth m b (displace b i alt j m1) i"
proof (rule displace_freed [OF inv])
  have kp: "kept (Suc depth) m alt m1 p" if "p \<noteq> (alt, j)" "slot (buckets m) p \<noteq> None" for p
    using f that unfolding freed_def by blast
  show "alt < length (buckets m)" unfolding alt by (rule bucket_of_less [OF cuckoo_invD(1) [OF inv]])
  show "alt \<in> home m1 h'" if h': "slot (buckets m1) (b, i) = Some (h', x')" for h' x'
  proof -
    have "(b, i) \<noteq> (alt, j)" using f h' by (auto simp: freed_def)
    from kp [OF this] s h' d have "h' = h \<or> alt \<in> home m h'"
      by (auto simp: kept_def kMaxCuckooPath_def less_Suc_eq numeral_3_eq_3 numeral_2_eq_2)
    moreover have "alt \<in> home m h" by (simp add: home_def alt)
    ultimately show ?thesis using f same_entries_home [of m m1] by (auto simp: freed_def)
  qed
  show "slot (buckets m1) p \<noteq> None \<and> (depth \<noteq> 0 \<longrightarrow> slot (buckets m1) p = slot (buckets m) p)"
    if "p \<noteq> (b, i)" "p \<noteq> (alt, j)" "slot (buckets m) p \<noteq> None" for p
    using kp [OF that(2,3)] d by (auto simp: kept_def kMaxCuckooPath_def)
  show "depth < 2 \<and> slot (buckets m1) (b, i) \<noteq> None" if "(alt, j) \<noteq> (b, i)"
    using kp [of "(b, i)"] that s d by (auto simp: kept_def kMaxCuckooPath_def)
qed (use f slot_range [OF s] in \<open>auto simp: freed_def\<close>)

lemma MakeSpace_loop_post:
  fixes m :: "('k, 'v) cuckoo"
  assumes IH: "\<And>b (m :: ('k, 'v) cuckoo). cuckoo_inv hasher eq m \<Longrightarrow> full_bucket m b \<Longrightarrow>
      make_space_post hasher eq (Suc depth) m b (MakeSpace hasher b (Suc depth) m)"
    and d: "depth < kMaxCuckooPath" and inv: "cuckoo_inv hasher eq m" and full: "full_bucket m b"
  shows "make_space_post hasher eq depth m b (MakeSpace_loop hasher b depth i m)"
proof (induction "kEntriesPerBucket - i" arbitrary: i rule: less_induct)
  case less
  show ?case
  proof (cases "i < kEntriesPerBucket")
    case False
    then show ?thesis by (subst MakeSpace_loop.simps) (auto simp: make_space_post_def)
  next
    case True
    then obtain h x where s: "slot (buckets m) (b, i) = Some (h, x)"
      using full by (auto simp: full_bucket_def)
    let ?alt = "bucket_of m (HashSecondary h)"
    note step = MakeSpace_loop_step [OF inv s d]
    show ?thesis
    proof (cases "FindEmptySlot (buckets m ! ?alt)")
      case (Some j)
      with MakeSpace_loop_direct [OF inv s Some] show ?thesis
        by (simp add: step make_space_post_def)
    next
      case None
      then have full': "full_bucket m ?alt"
        using bucket_of_less [OF cuckoo_invD(1) [OF inv]] by (intro full_bucketI)
      obtain m1 j where r: "MakeSpace hasher ?alt (Suc depth) m = (m1, j)" by fastforce
      note post = IH [OF inv full', unfolded r make_space_post_def]
      show ?thesis
      proof (cases j)
        case None
        with post have "m1 = m" by simp
        moreover have "make_space_post hasher eq depth m b (MakeSpace_loop hasher b depth (i + 1) m)"
          using True by (intro less) simp
        ultimately show ?thesis
          using \<open>FindEmptySlot _ = None\<close> None r by (simp add: step)
      next
        case (Some j')
        have "Suc depth < kMaxCuckooPath"
          using r Some by (subst (asm) MakeSpace.simps) (auto split: if_splits)
        from MakeSpace_loop_deep [OF inv s this, of ?alt m1 j'] post Some
        have "freed hasher eq depth m b (displace b i ?alt j' m1) i" by simp
        then show ?thesis
          using \<open>FindEmptySlot _ = None\<close> Some r by (simp add: step make_space_post_def)
      qed
    qed
  qed
qed

lemma MakeSpace_post:
  fixes m :: "('k, 'v) cuckoo"
  shows "cuckoo_inv hasher eq m \<Longrightarrow> full_bucket m b \<Longrightarrow>
     make_space_post hasher eq depth m b (MakeSpace hasher b depth m)"
proof (induction "kMaxCuckooPath - depth" arbitrary: depth m b rule: less_induct)
  case less
  show ?case
  proof (cases "depth < kMaxCuckooPath")
    case False
    then show ?thesis by (subst MakeSpace.simps) (auto simp: make_space_post_def)
  next
    case True
    then have "make_space_post hasher eq depth m b (MakeSpace_loop hasher b depth 0 m)"
      using less by (intro MakeSpace_loop_post) auto
    with True show ?thesis by (subst MakeSpace.simps) simp
  qed
qed

section \<open>Placing an entry\<close>

definition absent :: "('k \<Rightarrow> 'k \<Rightarrow> bool) \<Rightarrow> 'k \<Rightarrow> ('k, 'v) cuckoo \<Rightarrow> bool" where
  "absent eq key m \<longleftrightarrow> (\<forall>e\<in>stored m. \<not> eq (fst e) key)"

definition emplaced ::
  "('k \<Rightarrow> u32) \<Rightarrow> ('k \<Rightarrow> 'k \<Rightarrow> bool) \<Rightarrow> 'k \<Rightarrow> 'v \<Rightarrow> ('k, 'v) cuckoo \<Rightarrow> ('k, 'v) cuckoo \<Rightarrow>
     nat \<Rightarrow> bool" where
  "emplaced hasher eq key val m m' i \<longleftrightarrow>
     cuckoo_inv hasher eq m' \<and> stored m' = insert (key, val) (stored m) \<and>
     i < length (entries m') \<and> entries m' ! i = (key, val) \<and>
     num_entries m' = Suc (num_entries m)"

definition popped :: "('k, 'v) cuckoo \<Rightarrow> nat \<Rightarrow> ('k, 'v) cuckoo \<Rightarrow> bool" where
  "popped m i m1 \<longleftrightarrow>
     buckets m1 = buckets m \<and> bucket_mask m1 = bucket_mask m \<and> num_entries m1 = num_entries m \<and>
     length (entries m) \<le> length (entries m1) \<and>
     (\<forall>x<length (entries m). entries m1 ! x = entries m ! x) \<and>
     distinct (i # free_entry_indices m1) \<and>
     (\<forall>x\<in>set (i # free_entry_indices m1).
        x < length (entries m1) \<and> (\<forall>p h. slot (buckets m) p \<noteq> Some (h, x))) \<and>
     num_entries m + Suc (length (free_entry_indices m1)) = length (entries m1)"

lemma PopFreeEntryIndex_popped:
  assumes inv: "cuckoo_inv hasher eq m"
  shows "\<exists>i m1. PopFreeEntryIndex d m = Some (i, m1) \<and> popped m i m1"
proof (cases "free_entry_indices m")
  case (Cons i rest)
  then show ?thesis
    using cuckoo_invD(4,5) [OF inv]
    by (auto simp: PopFreeEntryIndex_def popped_def free_ok_def count_ok_def)
next
  case Nil
  let ?n = "length (entries m)"
  have n: "2 \<le> ?n" using cuckoo_invD(1) [OF inv] by (simp add: table_ok_def)
  then have upt: "[?n..<?n + ?n div 2] = ?n # [Suc ?n..<?n + ?n div 2]"
    by (intro upt_conv_Cons) simp
  have used: "slot (buckets m) p \<noteq> Some (h, x)" if "?n \<le> x" for p h x
    using slots_okD(1) [OF cuckoo_invD(2) [OF inv], of p h x] that by auto
  have "num_entries m = ?n" using Nil cuckoo_invD(5) [OF inv] by (simp add: count_ok_def)
  with Nil n show ?thesis
    by (auto simp: PopFreeEntryIndex_def ExpandEntries_def Let_def upt popped_def nth_append used)
qed

lemma poppedD:
  assumes "popped m i m1"
  shows "buckets m1 = buckets m" "bucket_mask m1 = bucket_mask m" "num_entries m1 = num_entries m"
    "length (entries m) \<le> length (entries m1)"
    "\<And>x. x < length (entries m) \<Longrightarrow> entries m1 ! x = entries m ! x"
    "i < length (entries m1)" "\<And>p h. slot (buckets m) p \<noteq> Some (h, i)"
    "distinct (free_entry_indices m1)" "i \<notin> set (free_entry_indices m1)"
    "\<And>x. x \<in> set (free_entry_indices m1) \<Longrightarrow>
       x < length (entries m1) \<and> (\<forall>p h. slot (buckets m) p \<noteq> Some (h, x))"
    "num_entries m + Suc (length (free_entry_indices m1)) = length (entries m1)"
  using assms unfolding popped_def by (simp_all only: distinct.simps list.set) blast+

context hash_key
begin

lemma place_inv:
  assumes inv: "cuckoo_inv hasher eq m" and pop: "popped m i m1"
    and abs: "absent eq key m"
    and b: "b \<in> home m (Hash hasher key)" and s: "s < kEntriesPerBucket"
    and free: "slot (buckets m) (b, s) = None"
    and m': "m' = m1\<lparr>buckets := set_slot b s (Hash hasher key) i (buckets m1),
                     entries := (entries m1)[i := (key, val)],
                     num_entries := num_entries m1 + 1\<rparr>"
  shows "emplaced hasher eq key val m m' i"
proof -
  note I = cuckoo_invD [OF inv]
  note P = poppedD [OF pop]
  have bl: "b < length (buckets m)" by (rule home_less [OF I(1) b])
  have wf: "wf_shape (buckets m)" using I(1) by (simp add: table_ok_def)
  have fields: "bucket_mask m' = bucket_mask m" "length (entries m') = length (entries m1)"
    "free_entry_indices m' = free_entry_indices m1" "num_entries m' = Suc (num_entries m)"
    "buckets m' = set_slot b s (Hash hasher key) i (buckets m)"
    "entries m' = (entries m1)[i := (key, val)]"
    by (simp_all add: m' P)
  have sl: "slot (buckets m') = (slot (buckets m))((b, s) \<mapsto> (Hash hasher key, i))"
    using bl s wf Hash_nonzero [of hasher key] by (simp add: fields slot_set_slot)
  have hm: "home m' h = home m h" for h
    by (simp add: fields home_def bucket_of_def)
  have old: "x < length (entries m)" "x \<noteq> i" "entries m' ! x = entries m ! x"
    "entries m ! x \<in> stored m" if a: "slot (buckets m) p = Some (h, x)" for p h x
  proof -
    show lt: "x < length (entries m)" by (rule slots_okD(1) [OF I(2) a])
    show ne: "x \<noteq> i" using a P(7) by blast
    show "entries m' ! x = entries m ! x" using ne P(5) [OF lt] by (simp add: fields)
    show "entries m ! x \<in> stored m" by (rule storedI [OF a])
  qed
  have new: "entries m' ! i = (key, val)" "i < length (entries m')" using P(6) by (simp_all add: fields)
  have "table_ok m'"
    using I(1) P(4) wf_shape_set_slot [OF wf bl] by (simp add: fields table_ok_def)
  moreover have "slots_ok hasher m'"
    unfolding slots_ok_def
  proof (intro allI impI)
    fix p h x assume a: "slot (buckets m') p = Some (h, x)"
    show "x < length (entries m') \<and> h = Hash hasher (fst (entries m' ! x)) \<and> fst p \<in> home m' h"
    proof (cases "p = (b, s)")
      case True
      with a new b show ?thesis by (simp add: sl hm)
    next
      case False
      with a have a: "slot (buckets m) p = Some (h, x)" by (simp add: sl)
      from old [OF a] slots_okD [OF I(2) a] P(4) show ?thesis by (simp add: hm fields(2))
    qed
  qed
  moreover have "keys_distinct eq m'"
    unfolding keys_distinct_def sl
  proof (intro allI impI notI)
    fix p q h h' x x'
    assume a: "((slot (buckets m))((b, s) \<mapsto> (Hash hasher key, i))) p = Some (h, x)"
      "((slot (buckets m))((b, s) \<mapsto> (Hash hasher key, i))) q = Some (h', x')" "p \<noteq> q"
      "eq (fst (entries m' ! x)) (fst (entries m' ! x'))"
    from a(1-3) consider
        "p = (b, s)" "x = i" "slot (buckets m) q = Some (h', x')"
      | "q = (b, s)" "x' = i" "slot (buckets m) p = Some (h, x)"
      | "slot (buckets m) p = Some (h, x)" "slot (buckets m) q = Some (h', x')"
      by (auto split: if_splits)
    then show False
    proof cases
      case 1
      with a(4) new old(3,4) [OF 1(3)] abs eq_sym [of key "fst (entries m ! x')"]
      show ?thesis by (simp add: absent_def)
    next
      case 2
      with a(4) new old(3,4) [OF 2(3)] abs show ?thesis by (simp add: absent_def)
    next
      case 3
      with a(3,4) old(3) keys_distinctD [OF I(3) 3] show ?thesis by auto
    qed
  qed
  moreover have "free_ok m'"
    unfolding free_ok_def
  proof (intro conjI ballI allI)
    fix x p h assume x: "x \<in> set (free_entry_indices m')"
    show "slot (buckets m') p \<noteq> Some (h, x)"
      using P(9) P(10) [of x] x by (auto simp: sl fields(3))
  qed (use P(8,10) in \<open>simp_all add: fields\<close>)
  moreover have "count_ok m'"
    using I(5) P(11) free slot_finite [of "buckets m"]
    by (simp add: count_ok_def sl fields(2,3,4) card_insert_if domIff)
  moreover have "stored m' = insert (key, val) (stored m)"
  proof -
    have "ran (slot (buckets m')) = insert (Hash hasher key, i) (ran (slot (buckets m)))"
      unfolding sl using free by (rule ran_map_upd)
    moreover have "(\<lambda>(h, x). entries m' ! x) ` ran (slot (buckets m)) =
        (\<lambda>(h, x). entries m ! x) ` ran (slot (buckets m))"
      using old(3) by (intro image_cong refl) (auto simp: ran_def)
    ultimately show ?thesis using new by (simp add: stored_ran)
  qed
  ultimately show ?thesis
    using new by (simp add: emplaced_def cuckoo_inv_def fields(4))
qed

lemma EmplaceInBucket_post:
  assumes inv: "cuckoo_inv hasher eq m" and abs: "absent eq key m"
    and b: "b \<in> home m (Hash hasher key)"
  shows "EmplaceInBucket hasher d b key val m = Some (m, None) \<and> full_bucket m b \<or>
    (\<exists>m' i. EmplaceInBucket hasher d b key val m = Some (m', Some i) \<and>
            emplaced hasher eq key val m m' i)"
proof (cases "FindEmptySlot (buckets m ! b)")
  case None
  then show ?thesis
    using full_bucketI [OF home_less [OF cuckoo_invD(1) [OF inv] b] None]
    by (simp add: EmplaceInBucket_def)
next
  case (Some s)
  obtain i m1 where p: "PopFreeEntryIndex d m = Some (i, m1)" "popped m i m1"
    using PopFreeEntryIndex_popped [OF inv] by blast
  from place_inv [OF inv p(2) abs b FindEmptySlot_Some [OF Some] refl] show ?thesis
    by (simp add: EmplaceInBucket_def Some p(1))
qed

lemma bucket_of_home:
  "bucket_of m (Hash hasher key) \<in> home m (Hash hasher key)"
  "bucket_of m (HashSecondary (Hash hasher key)) \<in> home m (Hash hasher key)"
  by (simp_all add: home_def)

lemma EmplaceEntry_direct:
  assumes inv: "cuckoo_inv hasher eq m" and abs: "absent eq key m"
    and nf: "\<not> full_bucket m (bucket_of m (Hash hasher key)) \<or>
             \<not> full_bucket m (bucket_of m (HashSecondary (Hash hasher key)))"
  shows "\<exists>m' i. EmplaceEntry hasher d (Hash hasher key) (HashSecondary (Hash hasher key)) key val m =
      Some (m', Some i) \<and> emplaced hasher eq key val m m' i"
  using EmplaceInBucket_post [OF inv abs bucket_of_home(1), of d val]
    EmplaceInBucket_post [OF inv abs bucket_of_home(2), of d val] nf
  by (subst EmplaceEntry.simps) (auto simp: Let_def)

lemma freed_stored:
  assumes "freed hasher eq depth m b m' j"
  shows "stored m' = stored m" "num_entries m' = num_entries m" "absent eq key m' = absent eq key m"
    "cuckoo_inv hasher eq m'" "\<not> full_bucket m' b" "bucket_of m' = bucket_of m"
proof -
  show st: "stored m' = stored m"
    using assms by (simp add: freed_def stored_ran same_entries_def)
  then show "absent eq key m' = absent eq key m" by (simp add: absent_def)
qed (use assms in \<open>auto simp: freed_def same_entries_def full_bucket_def bucket_of_def fun_eq_iff\<close>)

lemma EmplaceEntry_post:
  assumes inv: "cuckoo_inv hasher eq m" and abs: "absent eq key m"
  shows "EmplaceEntry hasher d (Hash hasher key) (HashSecondary (Hash hasher key)) key val m =
      Some (m, None) \<or>
    (\<exists>m' i. EmplaceEntry hasher d (Hash hasher key) (HashSecondary (Hash hasher key)) key val m =
      Some (m', Some i) \<and> emplaced hasher eq key val m m' i)"
proof (cases "full_bucket m (bucket_of m (Hash hasher key)) \<and>
              full_bucket m (bucket_of m (HashSecondary (Hash hasher key)))")
  case False
  then show ?thesis using EmplaceEntry_direct [OF inv abs] by blast
next
  case True
  let ?E = "EmplaceEntry hasher d (Hash hasher key) (HashSecondary (Hash hasher key)) key val"
  let ?b = "bucket_of m (Hash hasher key)"
  let ?c = "bucket_of m (HashSecondary (Hash hasher key))"
  have none: "EmplaceInBucket hasher d b key val m = Some (m, None)" if "full_bucket m b" for b
    using that FindEmptySlot_None [of b "buckets m"] by (simp add: EmplaceInBucket_def full_bucket_def)
  have E: "?E m = (case MakeSpace hasher ?b 0 m of (m, Some _) \<Rightarrow> ?E m
      | (m1, None) \<Rightarrow> (case MakeSpace hasher ?c 0 m1 of (m, Some _) \<Rightarrow> ?E m
                       | (m, None) \<Rightarrow> Some (m, None)))"
    by (subst EmplaceEntry.simps) (simp add: Let_def none True)
  have retry: "\<exists>m' i. ?E m1 = Some (m', Some i) \<and> emplaced hasher eq key val m m' i"
    if f: "freed hasher eq 0 m b m1 j" and b: "b = ?b \<or> b = ?c" for b m1 j
  proof -
    note F = freed_stored [OF f]
    have "\<exists>m' i. ?E m1 = Some (m', Some i) \<and> emplaced hasher eq key val m1 m' i"
      using F(3) [of key] F(4-6) b abs by (intro EmplaceEntry_direct) auto
    then show ?thesis using F(1,2) by (auto simp: emplaced_def)
  qed
  obtain m1 j where r: "MakeSpace hasher ?b 0 m = (m1, j)" by fastforce
  note post = MakeSpace_post [OF inv conjunct1 [OF True], of 0, unfolded r make_space_post_def]
  show ?thesis
  proof (cases j)
    case (Some j')
    with post have "freed hasher eq 0 m ?b m1 j'" by simp
    moreover have "?E m = ?E m1" unfolding E by (simp add: r Some)
    ultimately show ?thesis using retry [of ?b m1 j'] by simp
  next
    case None
    with post have m1: "m1 = m" by simp
    obtain m2 k where r2: "MakeSpace hasher ?c 0 m = (m2, k)" by fastforce
    note post2 = MakeSpace_post [OF inv conjunct2 [OF True], of 0, unfolded r2 make_space_post_def]
    show ?thesis
    proof (cases k)
      case None
      with post2 have "?E m = Some (m, None)"
        unfolding E by (simp add: r r2 m1 \<open>j = None\<close>)
      then show ?thesis by blast
    next
      case (Some k')
      with post2 have "freed hasher eq 0 m ?c m2 k'" by simp
      moreover have "?E m = ?E m2" unfolding E by (simp add: r r2 m1 \<open>j = None\<close> Some)
      ultimately show ?thesis using retry [of ?c m2 k'] by simp
    qed
  qed
qed

end

section \<open>The iterator\<close>

definition pos_code :: "nat \<times> nat \<Rightarrow> nat" where
  "pos_code p = kEntriesPerBucket * fst p + snd p"

lemma pos_code_advance: "snd p < kEntriesPerBucket \<Longrightarrow> pos_code (iter_advance p) = Suc (pos_code p)"
  by (auto simp: pos_code_def iter_advance_def kEntriesPerBucket_def)

lemma pos_code_inject:
  "snd p < kEntriesPerBucket \<Longrightarrow> snd q < kEntriesPerBucket \<Longrightarrow> pos_code p = pos_code q \<Longrightarrow> p = q"
  by (cases p; cases q) (simp add: pos_code_def kEntriesPerBucket_def, presburger)

lemma iterate_skip:
  "snd p < kEntriesPerBucket \<Longrightarrow>
     set (iterate bs (iter_skip bs p)) = {q. slot bs q \<noteq> None \<and> pos_code p \<le> pos_code q} \<and>
     distinct (iterate bs (iter_skip bs p))"
proof (induction "iter_rank bs p" arbitrary: p rule: less_induct)
  case less
  let ?S = "\<lambda>p. {q. slot bs q \<noteq> None \<and> pos_code p \<le> pos_code q}"
  show ?case
  proof (cases "fst p < length bs")
    case False
    have "?S p = {}"
    proof -
      have "pos_code q < pos_code p" if "slot bs q = Some x" for q x
        using slot_range [OF that] False by (auto simp: pos_code_def kEntriesPerBucket_def)
      then show ?thesis by (metis (mono_tags, lifting) Collect_empty_eq not_less option.exhaust)
    qed
    with False show ?thesis by (subst (1 2) iter_skip.simps, simp, subst (1 2) iterate.simps) simp
  next
    case True
    note adv = iter_advance_rank [OF True less.prems]
    note IH = less.hyps [of "iter_advance p", OF conjunct1 [OF adv] conjunct2 [OF adv]]
    have cut: "?S (iter_advance p) = ?S p - {p}"
    proof -
      have "pos_code (iter_advance p) \<le> pos_code q \<longleftrightarrow> pos_code p \<le> pos_code q \<and> q \<noteq> p"
        if "slot bs q = Some x" for q x
        using slot_range [OF that] pos_code_inject [of p q] less.prems
        by (auto simp: pos_code_advance [OF less.prems] Suc_le_eq order_less_le)
      then show ?thesis by auto
    qed
    show ?thesis
    proof (cases "slot bs p = None")
      case none: True
      then have "iter_skip bs p = iter_skip bs (iter_advance p)"
        using True less.prems by (subst iter_skip.simps) (simp add: slot_def split: if_splits)
      with IH cut none show ?thesis by auto
    next
      case False
      then have "iter_skip bs p = p"
        using True less.prems by (subst iter_skip.simps) (auto simp: slot_def split: if_splits)
      moreover have "iterate bs p = p # iterate bs (iter_skip bs (iter_advance p))"
        using True less.prems by (subst iterate.simps) (simp add: iter_next_def)
      ultimately show ?thesis using IH cut False by auto
    qed
  qed
qed

lemma occupied_slots_set: "set (occupied_slots m) = dom (slot (buckets m))"
  using iterate_skip [of "(0, 0)" "buckets m"]
  by (auto simp: occupied_slots_def iter_begin_def pos_code_def kEntriesPerBucket_def)

lemma occupied_slots_distinct: "distinct (occupied_slots m)"
  using iterate_skip [of "(0, 0)" "buckets m"]
  by (simp add: occupied_slots_def iter_begin_def kEntriesPerBucket_def)

lemma occupied_slots_length:
  "cuckoo_inv hasher eq m \<Longrightarrow> length (occupied_slots m) = num_entries m"
  using distinct_card [OF occupied_slots_distinct [of m]] cuckoo_invD(5) [of hasher eq m]
  by (simp add: occupied_slots_set count_ok_def)

lemma entry_at_slot: "slot (buckets m) p = Some (h, i) \<Longrightarrow> entry_at m p = entries m ! i"
  by (auto simp: entry_at_def slot_def split: if_splits)

lemma iterated_stored: "set (map (entry_at m) (occupied_slots m)) = stored m"
proof -
  have "entry_at m ` dom (slot (buckets m)) = stored m"
    by (force simp: stored_def entry_at_slot dest: entry_at_slot)
  then show ?thesis by (simp add: occupied_slots_set)
qed

lemma iterated_distinct:
  assumes "cuckoo_inv hasher eq m"
  shows "sorted_wrt (\<lambda>e e'. \<not> eq (fst e) (fst e')) (map (entry_at m) (occupied_slots m))"
proof -
  have "\<not> eq (fst (entry_at m p)) (fst (entry_at m q))"
    if "p \<in> set (occupied_slots m)" "q \<in> set (occupied_slots m)" "p \<noteq> q" for p q
  proof -
    from that(1,2) obtain h i h' i' where
      "slot (buckets m) p = Some (h, i)" "slot (buckets m) q = Some (h', i')"
      by (auto simp: occupied_slots_set)
    with keys_distinctD [OF cuckoo_invD(3) [OF assms] this] that(3) show ?thesis
      by (auto simp: entry_at_slot)
  qed
  moreover have "sorted_wrt (\<noteq>) (occupied_slots m)"
    using occupied_slots_distinct [of m]
    by (auto simp: sorted_wrt_iff_nth_less distinct_conv_nth)
  ultimately show ?thesis
    unfolding sorted_wrt_map by (rule sorted_wrt_mono_rel)
qed

section \<open>Growth\<close>

definition inserted ::
  "('k \<Rightarrow> u32) \<Rightarrow> ('k \<Rightarrow> 'k \<Rightarrow> bool) \<Rightarrow> 'k \<Rightarrow> 'v \<Rightarrow> ('k, 'v) cuckoo \<Rightarrow> ('k, 'v) cuckoo \<Rightarrow>
     nat \<Rightarrow> bool" where
  "inserted hasher eq key val m m' i \<longleftrightarrow>
     cuckoo_inv hasher eq m' \<and> i < length (entries m') \<and> eq (fst (entries m' ! i)) key \<and>
     snd (entries m' ! i) = val \<and> (absent eq key m \<longrightarrow> fst (entries m' ! i) = key) \<and>
     stored m' = insert (entries m' ! i) {e \<in> stored m. \<not> eq (fst e) key} \<and>
     num_entries m' = (if absent eq key m then Suc (num_entries m) else num_entries m)"

definition unchanged :: "('k \<Rightarrow> u32) \<Rightarrow> ('k \<Rightarrow> 'k \<Rightarrow> bool) \<Rightarrow> ('k, 'v) cuckoo \<Rightarrow> ('k, 'v) cuckoo \<Rightarrow> bool" where
  "unchanged hasher eq m m' \<longleftrightarrow>
     cuckoo_inv hasher eq m' \<and> stored m' = stored m \<and> num_entries m' = num_entries m"

definition emplace_post ::
  "('k \<Rightarrow> u32) \<Rightarrow> ('k \<Rightarrow> 'k \<Rightarrow> bool) \<Rightarrow> 'k \<Rightarrow> 'v \<Rightarrow> ('k, 'v) cuckoo \<Rightarrow>
     (('k, 'v) cuckoo \<times> nat option) option \<Rightarrow> bool" where
  "emplace_post hasher eq key val m r \<longleftrightarrow>
     (\<exists>m'. r = Some (m', None) \<and> absent eq key m \<and> unchanged hasher eq m m') \<or>
     (\<exists>m' i. r = Some (m', Some i) \<and> inserted hasher eq key val m m' i)"

lemma slot_replicate: "slot (replicate n Bucket) = (\<lambda>_. None)"
  by (auto simp: slot_def Bucket_def fun_eq_iff)

lemma CuckooMap_inv:
  assumes "2 \<le> re"
  shows "\<exists>m. CuckooMap d (2 ^ n) re = Some m \<and> cuckoo_inv hasher eq m \<and> stored m = {} \<and>
    num_entries m = 0 \<and> length (buckets m) = 2 ^ n \<and> length (entries m) = re"
proof -
  have al: "align_ceil_pow2 (2 ^ n) = (2 ^ n :: u64)" by (rule align_ceil_pow2_power)
  have "wf_shape (replicate k Bucket)" for k by (simp add: wf_shape_def Bucket_def)
  with assms al show ?thesis
    by (auto simp: CuckooMap_def cuckoo_inv_def table_ok_def slots_ok_def keys_distinct_def
        free_ok_def count_ok_def stored_def slot_replicate)
qed

context hash_key
begin

lemma emplaced_inserted:
  assumes "emplaced hasher eq key val m m' i" "absent eq key m"
  shows "inserted hasher eq key val m m' i"
  using assms by (auto simp: emplaced_def inserted_def absent_def eq_refl)

lemma rehash_loop_post:
  assumes de: "\<And>k v b. cuckoo_inv hasher eq b \<Longrightarrow> num_entries b < n \<Longrightarrow>
      emplace_post hasher eq k v b (do_emplace k v b)"
  shows "cuckoo_inv hasher eq b \<Longrightarrow> num_entries b + length es \<le> n \<Longrightarrow>
    sorted_wrt (\<lambda>e e'. \<not> eq (fst e) (fst e')) es \<Longrightarrow> \<forall>e\<in>set es. absent eq (fst e) b \<Longrightarrow>
    rehash_loop do_emplace es b = Some None \<or>
    (\<exists>b'. rehash_loop do_emplace es b = Some (Some b') \<and> cuckoo_inv hasher eq b' \<and>
          stored b' = stored b \<union> set es \<and> num_entries b' = num_entries b + length es)"
proof (induction es arbitrary: b)
  case Nil
  then show ?case by simp
next
  case (Cons e es)
  from Cons.prems have ab: "absent eq (fst e) b" and n: "num_entries b < n" by simp_all
  from de [OF Cons.prems(1) n, of "fst e" "snd e"] consider
      b1 where "do_emplace (fst e) (snd e) b = Some (b1, None)"
    | b1 i where "do_emplace (fst e) (snd e) b = Some (b1, Some i)"
        "inserted hasher eq (fst e) (snd e) b b1 i"
    unfolding emplace_post_def by blast
  then show ?case
  proof cases
    case 1
    then show ?thesis by simp
  next
    case 2
    then have b1: "cuckoo_inv hasher eq b1" "stored b1 = insert e (stored b)"
      "num_entries b1 = Suc (num_entries b)"
      using ab by (cases e; auto simp: inserted_def absent_def prod_eq_iff)+
    have "\<forall>e'\<in>set es. absent eq (fst e') b1"
      using Cons.prems(3,4) b1(2) by (auto simp: absent_def)
    with Cons.IH [OF b1(1)] Cons.prems(2,3) b1(2,3) 2(1) show ?thesis by auto
  qed
qed

lemma ExpandBuckets_post:
  assumes inv: "cuckoo_inv hasher eq m"
    and de: "\<And>k v b. cuckoo_inv hasher eq b \<Longrightarrow> num_entries b < num_entries m \<Longrightarrow>
      emplace_post hasher eq k v b (do_emplace k v b)"
  shows "\<exists>m'. ExpandBuckets do_emplace d m = Some m' \<and> unchanged hasher eq m m'"
proof -
  note I = cuckoo_invD [OF inv]
  let ?es = "map (entry_at m) (occupied_slots m)"
  obtain n where n: "length (buckets m) = 2 ^ n" using I(1) by (auto simp: table_ok_def)
  have "2 \<le> length (entries m)" using I(1) by (simp add: table_ok_def)
  from CuckooMap_inv [OF this, of d "Suc n" hasher eq] obtain b where
    b: "CuckooMap d (length (buckets m) * 2) (length (entries m)) = Some b"
    "cuckoo_inv hasher eq b" "stored b = {}" "num_entries b = 0"
    by (auto simp: n mult.commute)
  have "rehash_loop do_emplace ?es b = Some None \<or>
    (\<exists>b'. rehash_loop do_emplace ?es b = Some (Some b') \<and> cuckoo_inv hasher eq b' \<and>
          stored b' = stored b \<union> set ?es \<and> num_entries b' = num_entries b + length ?es)"
    using b occupied_slots_length [OF inv] iterated_distinct [OF inv]
    by (intro rehash_loop_post [where n = "num_entries m"] de) (auto simp: absent_def)
  then consider "rehash_loop do_emplace ?es b = Some None"
    | b' where "rehash_loop do_emplace ?es b = Some (Some b')" "cuckoo_inv hasher eq b'"
        "stored b' = stored m" "num_entries b' = num_entries m"
    using b(3,4) occupied_slots_length [OF inv] iterated_stored [of m] by auto
  then show ?thesis
  proof cases
    case 1
    then show ?thesis using b(1) inv by (simp add: ExpandBuckets_def unchanged_def)
  next
    case 2
    then have "ExpandBuckets do_emplace d m = Some b'"
      using b(1) by (simp add: ExpandBuckets_def)
    with 2 show ?thesis by (simp add: unchanged_def)
  qed
qed

lemma emplace_loop_post:
  assumes ex: "\<And>m1. unchanged hasher eq m m1 \<Longrightarrow>
      \<exists>m2. expand m1 = Some m2 \<and> unchanged hasher eq m m2"
    and abs: "absent eq key m"
  shows "unchanged hasher eq m m1 \<Longrightarrow>
    emplace_post hasher eq key val m
      (emplace_loop expand hasher d (Hash hasher key) (HashSecondary (Hash hasher key)) key val trials m1)"
proof (induction "3 - trials" arbitrary: trials m1 rule: less_induct)
  case less
  let ?E = "EmplaceEntry hasher d (Hash hasher key) (HashSecondary (Hash hasher key)) key val m1"
  have abs1: "absent eq key m1" and inv1: "cuckoo_inv hasher eq m1"
    using abs less.prems by (auto simp: absent_def unchanged_def)
  from EmplaceEntry_post [OF inv1 abs1] consider "?E = Some (m1, None)"
    | m' i where "?E = Some (m', Some i)" "emplaced hasher eq key val m1 m' i" by blast
  then show ?case
  proof cases
    case 2
    then have "emplaced hasher eq key val m m' i"
      using less.prems by (auto simp: emplaced_def unchanged_def)
    from emplaced_inserted [OF this abs] 2(1) show ?thesis
      by (subst emplace_loop.simps) (simp add: emplace_post_def)
  next
    case 1
    obtain m2 where m2: "expand m1 = Some m2" "unchanged hasher eq m m2"
      using ex [OF less.prems] by blast
    show ?thesis
    proof (cases "trials + 1 \<ge> 3")
      case True
      then show ?thesis using 1 abs less.prems
        by (subst emplace_loop.simps) (simp add: emplace_post_def)
    next
      case False
      then have "3 - (trials + 1) < 3 - trials" by simp
      from less.hyps [OF this m2(2)] False show ?thesis
        by (subst emplace_loop.simps) (simp add: 1 m2(1))
    qed
  qed
qed

lemma update_inserted:
  assumes inv: "cuckoo_inv hasher eq m" and f: "FindWithHash eq m (Hash hasher key) key = Some i"
    and m': "m' = m\<lparr>entries := (entries m)[i := (fst (entries m ! i), val)]\<rparr>"
  shows "inserted hasher eq key val m m' i"
proof -
  note I = cuckoo_invD [OF inv]
  obtain p h where p: "slot (buckets m) p = Some (h, i)" "eq (fst (entries m ! i)) key"
    using FindWithHash_Some [OF inv f] by blast
  note i = slots_okD(1) [OF I(2) p(1)]
  have keys: "fst (entries m' ! x) = fst (entries m ! x)" if "x < length (entries m)" for x
    using that i by (cases "x = i") (simp_all add: m')
  have fields: "buckets m' = buckets m" "length (entries m') = length (entries m)"
    "num_entries m' = num_entries m" "free_entry_indices m' = free_entry_indices m"
    "home m' = home m" "bucket_mask m' = bucket_mask m"
    by (auto simp: m' home_def bucket_of_def fun_eq_iff)
  have "slots_ok hasher m'"
    using I(2) keys unfolding slots_ok_def fields by auto
  moreover have "keys_distinct eq m'"
    using I(3) keys slots_okD(1) [OF I(2)] unfolding keys_distinct_def fields by metis
  ultimately have inv': "cuckoo_inv hasher eq m'"
    using I(1,4,5) by (simp add: cuckoo_inv_def table_ok_def free_ok_def count_ok_def fields)
  have other: "x = i" if "slot (buckets m) q = Some (h', x)" "eq (fst (entries m ! x)) key" for q h' x
    using keys_distinctD [OF I(3) that(1) p(1) eq_trans [OF that(2) eq_sym [OF p(2)]]] that(1) p(1)
    by simp
  have "stored m' = insert (entries m' ! i) {e \<in> stored m. \<not> eq (fst e) key}" (is "_ = ?R")
  proof (intro set_eqI iffI)
    fix e assume "e \<in> stored m'"
    then obtain q h' x where q: "slot (buckets m) q = Some (h', x)" "e = entries m' ! x"
      by (auto simp: stored_def fields)
    then show "e \<in> ?R"
      using storedI [OF q(1)] other [OF q(1)] by (cases "x = i") (auto simp: m')
  next
    fix e assume "e \<in> ?R"
    then consider "e = entries m' ! i" | q h' x where "slot (buckets m) q = Some (h', x)"
        "e = entries m ! x" "\<not> eq (fst e) key"
      by (auto simp: stored_def)
    then show "e \<in> stored m'"
    proof cases
      case 1
      then show ?thesis using storedI [of m' p h i] p(1) by (simp add: fields)
    next
      case 2
      then have "x \<noteq> i" using p(2) by auto
      then have "e = entries m' ! x" using 2 by (simp add: m')
      then show ?thesis using storedI [of m' q h' x] 2 by (simp add: fields)
    qed
  qed
  moreover have "\<not> absent eq key m" using storedI [OF p(1)] p(2) by (auto simp: absent_def)
  ultimately show ?thesis
    using inv' i p(2) by (simp add: inserted_def fields keys [OF i]) (simp add: m')
qed

lemma DoEmplace_post:
  "cuckoo_inv hasher eq m \<Longrightarrow> num_entries m < fuel \<Longrightarrow>
     emplace_post hasher eq key val m (DoEmplace fuel hasher eq d key val m)"
proof (induction fuel arbitrary: m key val)
  case 0
  then show ?case by simp
next
  case (Suc fuel)
  show ?case
  proof (cases "FindWithHash eq m (Hash hasher key) key")
    case (Some i)
    with update_inserted [OF Suc.prems(1) Some refl] show ?thesis
      by (simp add: emplace_post_def)
  next
    case None
    have abs: "absent eq key m"
      using FindWithHash_None [OF Suc.prems(1) None] by (auto simp: absent_def stored_def)
    have self: "unchanged hasher eq m m" using Suc.prems(1) by (simp add: unchanged_def)
    have ex: "\<exists>m2. ExpandBuckets (DoEmplace fuel hasher eq d) d m1 = Some m2 \<and> unchanged hasher eq m m2"
      if "unchanged hasher eq m m1" for m1
    proof -
      have "\<exists>m2. ExpandBuckets (DoEmplace fuel hasher eq d) d m1 = Some m2 \<and> unchanged hasher eq m1 m2"
        using that Suc.prems(2) by (intro ExpandBuckets_post Suc.IH) (auto simp: unchanged_def)
      with that show ?thesis by (auto simp: unchanged_def)
    qed
    show ?thesis
      using emplace_loop_post [where expand = "ExpandBuckets (DoEmplace fuel hasher eq d) d",
        OF ex abs self] None
      by (simp add: Let_def)
  qed
qed

lemma Insert_post:
  "cuckoo_inv hasher eq m \<Longrightarrow> emplace_post hasher eq key val m (Insert hasher eq d key val m)"
  unfolding Insert_def by (rule DoEmplace_post) simp_all

end

end
