(* ===== verification/Cuckoo_Remove.thy ===== *)
theory Cuckoo_Remove
  imports Cuckoo_Insert
begin

text \<open>
  Removal from the cuckoo table and Clear: what they keep of the invariant and
  what they do to the set of stored pairs.
\<close>

section \<open>Removal\<close>

definition removed ::
  "('k \<Rightarrow> u32) \<Rightarrow> ('k \<Rightarrow> 'k \<Rightarrow> bool) \<Rightarrow> 'k \<Rightarrow> ('k, 'v) cuckoo \<Rightarrow> ('k, 'v) cuckoo \<Rightarrow> bool" where
  "removed hasher eq key m m' \<longleftrightarrow>
     cuckoo_inv hasher eq m' \<and> stored m' = {e \<in> stored m. \<not> eq (fst e) key} \<and>
     \<not> absent eq key m \<and> Suc (num_entries m') = num_entries m"

context hash_key
begin

lemma index_unique:
  assumes inv: "cuckoo_inv hasher eq m" and "slot (buckets m) p = Some (h, i)"
    "slot (buckets m) q = Some (h', i)"
  shows "p = q"
  using keys_distinctD [OF cuckoo_invD(3) [OF inv] assms(2,3) eq_refl] .

lemma clear_removed:
  assumes inv: "cuckoo_inv hasher eq m" and p: "slot (buckets m) (b, s) = Some (h, i)"
    and e: "eq (fst (entries m ! i)) key"
    and m': "m' = m\<lparr>buckets := clear_slot b s (buckets m), entries := (entries m)[i := d],
                    free_entry_indices := i # free_entry_indices m, num_entries := num_entries m - 1\<rparr>"
  shows "removed hasher eq key m m'"
proof -
  note I = cuckoo_invD [OF inv]
  note r = slot_range [OF p, simplified]
  have wf: "wf_shape (buckets m)" using I(1) by (simp add: table_ok_def)
  have fields: "bucket_mask m' = bucket_mask m" "length (entries m') = length (entries m)"
    "free_entry_indices m' = i # free_entry_indices m" "num_entries m' = num_entries m - 1"
    "home m' = home m" "length (buckets m') = length (buckets m)"
    by (auto simp: m' home_def bucket_of_def fun_eq_iff)
  have sl: "slot (buckets m') = (slot (buckets m))((b, s) := None)"
    using slot_clear_slot [OF wf] r by (simp add: m')
  have i: "i < length (entries m)" by (rule slots_okD(1) [OF I(2) p])
  have rest: "slot (buckets m) q = Some (h', x)" "x \<noteq> i" "entries m' ! x = entries m ! x"
    "q \<noteq> (b, s)" if "slot (buckets m') q = Some (h', x)" for q h' x
  proof -
    from that show q: "slot (buckets m) q = Some (h', x)" and ne: "q \<noteq> (b, s)"
      by (simp_all add: sl split: if_splits)
    show xi: "x \<noteq> i" using index_unique [OF inv p] q ne by blast
    show "entries m' ! x = entries m ! x" using xi by (simp add: m')
  qed
  have "table_ok m'"
    using I(1) wf_shape_clear_slot [OF wf] r unfolding table_ok_def fields by (simp add: m')
  moreover have "slots_ok hasher m'"
    unfolding slots_ok_def fields
  proof (intro allI impI)
    fix q h' x assume "slot (buckets m') q = Some (h', x)"
    note R = rest [OF this]
    show "x < length (entries m) \<and> h' = Hash hasher (fst (entries m' ! x)) \<and> fst q \<in> home m h'"
      using slots_okD [OF I(2) R(1)] R(3) by simp
  qed
  moreover have "keys_distinct eq m'"
    unfolding keys_distinct_def
  proof (intro allI impI notI)
    fix q q' h1 h2 x x' assume a: "slot (buckets m') q = Some (h1, x)"
      "slot (buckets m') q' = Some (h2, x')" "q \<noteq> q'"
      "eq (fst (entries m' ! x)) (fst (entries m' ! x'))"
    show False
      using keys_distinctD [OF I(3) rest(1) [OF a(1)] rest(1) [OF a(2)]] a(3,4)
        rest(3) [OF a(1)] rest(3) [OF a(2)] by simp
  qed
  moreover have "free_ok m'"
  proof -
    have "slot (buckets m') q \<noteq> Some (h', x)" if "x = i \<or> x \<in> set (free_entry_indices m)" for q h' x
      using that rest(1,2) [of q h' x] I(4) by (auto simp: free_ok_def)
    moreover have "i \<notin> set (free_entry_indices m)" using I(4) p by (auto simp: free_ok_def)
    ultimately show ?thesis using I(4) i unfolding free_ok_def fields by simp
  qed
  moreover have "count_ok m'"
  proof -
    have "(b, s) \<in> dom (slot (buckets m))" using p by blast
    then have "Suc (card (dom (slot (buckets m'))) ) = card (dom (slot (buckets m)))"
      using card_Suc_Diff1 [OF slot_finite [of "buckets m"]] by (simp add: sl del: card_Diff_insert)
    then show ?thesis using I(5) by (auto simp: count_ok_def fields)
  qed
  moreover have "stored m' = {e \<in> stored m. \<not> eq (fst e) key}"
  proof (intro set_eqI iffI)
    fix x assume "x \<in> stored m'"
    then obtain q h' y where q: "slot (buckets m') q = Some (h', y)" "x = entries m' ! y"
      by (auto simp: stored_def)
    note R = rest [OF q(1)]
    have "\<not> eq (fst (entries m ! y)) key"
      using keys_distinctD [OF I(3) R(1) p] R(4) eq_trans eq_sym e by blast
    then show "x \<in> {e \<in> stored m. \<not> eq (fst e) key}" using storedI [OF R(1)] R(3) q(2) by simp
  next
    fix x assume x: "x \<in> {e \<in> stored m. \<not> eq (fst e) key}"
    then obtain q h' y where q: "slot (buckets m) q = Some (h', y)" "x = entries m ! y"
      by (auto simp: stored_def)
    have "y \<noteq> i" using x q(2) e by auto
    moreover have "q \<noteq> (b, s)" using q(1) p \<open>y \<noteq> i\<close> by auto
    ultimately have "slot (buckets m') q = Some (h', y)" "entries m' ! y = x"
      using q \<open>y \<noteq> i\<close> by (simp_all add: sl, simp add: m')
    then show "x \<in> stored m'" using storedI [of m' q h' y] by simp
  qed
  moreover have "\<not> absent eq key m" using storedI [OF p] e by (auto simp: absent_def)
  moreover have "0 < num_entries m"
    using I(5) p slot_finite [of "buckets m"] by (auto simp: count_ok_def card_gt_0_iff)
  ultimately show ?thesis by (simp add: removed_def cuckoo_inv_def fields)
qed

lemma RemoveFromBucket_post:
  assumes inv: "cuckoo_inv hasher eq m" and b: "b < length (buckets m)"
  shows "RemoveFromBucket eq d (Hash hasher key) b key m = (m, False) \<and>
      GetFromBucket eq m (Hash hasher key) b key = None \<or>
    (\<exists>m'. RemoveFromBucket eq d (Hash hasher key) b key m = (m', True) \<and>
          removed hasher eq key m m')"
proof (cases "FindSlot eq m (buckets m ! b) (Hash hasher key) key")
  case None
  then show ?thesis by (simp add: RemoveFromBucket_def GetFromBucket_def Let_def)
next
  case (Some s)
  let ?i = "entry_indices (buckets m ! b) ! s"
  from find_upt_Some [OF Some [unfolded FindSlot_def]] b
  have "slot (buckets m) (b, s) = Some (Hash hasher key, ?i)" "eq (fst (entries m ! ?i)) key"
    using Hash_nonzero [of hasher key] by (auto simp: slot_def)
  from clear_removed [OF inv this refl, of d] show ?thesis
    by (simp add: RemoveFromBucket_def Let_def Some PushFreeEntryIndex_def)
qed

lemma Remove_post:
  assumes inv: "cuckoo_inv hasher eq m"
  shows "Remove hasher eq d key m = (m, False) \<and> absent eq key m \<or>
    (\<exists>m'. Remove hasher eq d key m = (m', True) \<and> removed hasher eq key m m')"
proof -
  note less = bucket_of_less [OF cuckoo_invD(1) [OF inv]]
  let ?h = "Hash hasher key"
  show ?thesis
  proof (cases "FindWithHash eq m ?h key")
    case None
    then have "absent eq key m"
      using FindWithHash_None [OF inv None] by (auto simp: absent_def stored_def)
    then show ?thesis
      using RemoveFromBucket_post [OF inv less, of d key ?h]
        RemoveFromBucket_post [OF inv less, of d key "HashSecondary ?h"]
      by (auto simp: Remove_def Let_def removed_def)
  next
    case (Some i)
    then show ?thesis
      using RemoveFromBucket_post [OF inv less, of d key ?h]
        RemoveFromBucket_post [OF inv less, of d key "HashSecondary ?h"]
      by (auto simp: Remove_def Let_def FindWithHash_def)
  qed
qed

end

lemma Clear_inv: "cuckoo_inv hasher eq (Clear d m) \<and> stored (Clear d m) = {}"
proof -
  have "\<exists>n. (4 :: nat) = 2 ^ n" by (rule exI [of _ 2]) simp
  moreover have "wf_shape (replicate 4 Bucket)" by (simp add: wf_shape_def Bucket_def)
  ultimately show ?thesis
    using slot_replicate [of 4]
    by (auto simp: Clear_def cuckoo_inv_def table_ok_def slots_ok_def keys_distinct_def
        free_ok_def count_ok_def stored_def kInitNumBucket_def kInitNumEntries_def)
qed

end
