(* ===== verification/Table_Interface.thy ===== *)
theory Table_Interface
  imports Upf_Prelude
begin

text \<open>
  The contract of a lookup table as the packet modules use one: a partial function from
  keys to values, changed by insertions that may be refused, removals and resets. A table
  is given by one step function; the locale says that a step refines the same step of the
  partial function, and its lemmas lift that to runs of operations.
\<close>

datatype ('k, 'v) table_op = InsertOp 'k 'v | RemoveOp 'k | ClearOp

text \<open>The partial function after an operation that answered \<open>ok\<close>.\<close>

fun spec_step ::
  "('k \<Rightarrow> 'k \<Rightarrow> bool) \<Rightarrow> ('k, 'v) table_op \<Rightarrow> bool \<Rightarrow> ('k \<Rightarrow> 'v option) \<Rightarrow> 'k \<Rightarrow> 'v option" where
  "spec_step eq (InsertOp k v) ok f = (if ok then (\<lambda>x. if eq k x then Some v else f x) else f)"
| "spec_step eq (RemoveOp k) ok f = (\<lambda>x. if eq k x then None else f x)"
| "spec_step eq ClearOp ok f = (\<lambda>_. None)"

text \<open>The answers allowed: only the insertion of a new key may be refused.\<close>

fun spec_answer :: "('k, 'v) table_op \<Rightarrow> ('k \<Rightarrow> 'v option) \<Rightarrow> bool \<Rightarrow> bool" where
  "spec_answer (InsertOp k v) f ok \<longleftrightarrow> ok \<or> f k = None"
| "spec_answer (RemoveOp k) f ok \<longleftrightarrow> (ok \<longleftrightarrow> f k \<noteq> None)"
| "spec_answer ClearOp f ok \<longleftrightarrow> ok"

fun spec_run ::
  "('k \<Rightarrow> 'k \<Rightarrow> bool) \<Rightarrow> ('k, 'v) table_op list \<Rightarrow> bool list \<Rightarrow> ('k \<Rightarrow> 'v option) \<Rightarrow> 'k \<Rightarrow> 'v option"
where
  "spec_run eq (op # ops) (ok # oks) f = spec_run eq ops oks (spec_step eq op ok f)"
| "spec_run eq _ _ f = f"

fun spec_answers ::
  "('k \<Rightarrow> 'k \<Rightarrow> bool) \<Rightarrow> ('k, 'v) table_op list \<Rightarrow> bool list \<Rightarrow> ('k \<Rightarrow> 'v option) \<Rightarrow> bool" where
  "spec_answers eq [] [] f \<longleftrightarrow> True"
| "spec_answers eq (op # ops) (ok # oks) f \<longleftrightarrow>
     spec_answer op f ok \<and> spec_answers eq ops oks (spec_step eq op ok f)"
| "spec_answers eq _ _ f \<longleftrightarrow> False"

primrec run_ops ::
  "('op \<Rightarrow> 't \<Rightarrow> ('t \<times> bool) option) \<Rightarrow> 'op list \<Rightarrow> 't \<Rightarrow> ('t \<times> bool list) option" where
  "run_ops step [] t = Some (t, [])"
| "run_ops step (op # ops) t =
     do {
       (t, ok) \<leftarrow> step op t;
       (t, oks) \<leftarrow> run_ops step ops t;
       Some (t, ok # oks)
     }"

locale lookup_table =
  fixes eq :: "'k \<Rightarrow> 'k \<Rightarrow> bool"
    and step :: "('k, 'v) table_op \<Rightarrow> 't \<Rightarrow> ('t \<times> bool) option"
    and look :: "'t \<Rightarrow> 'k \<Rightarrow> 'v option"
    and inv :: "'t \<Rightarrow> bool"
  assumes step_refines:
    "inv t \<Longrightarrow> \<exists>t' ok. step op t = Some (t', ok) \<and> inv t' \<and>
       look t' = spec_step eq op ok (look t) \<and> spec_answer op (look t) ok"
begin

lemma run_refines:
  "inv t \<Longrightarrow> \<exists>t' oks. run_ops step ops t = Some (t', oks) \<and> inv t' \<and>
     look t' = spec_run eq ops oks (look t) \<and> spec_answers eq ops oks (look t)"
proof (induction ops arbitrary: t)
  case (Cons op ops)
  from step_refines [OF Cons.prems, of op] obtain t1 ok where
    1: "step op t = Some (t1, ok)" "inv t1" "look t1 = spec_step eq op ok (look t)"
      "spec_answer op (look t) ok" by blast
  from Cons.IH [OF 1(2)] obtain t2 oks where
    2: "run_ops step ops t1 = Some (t2, oks)" "inv t2" "look t2 = spec_run eq ops oks (look t1)"
      "spec_answers eq ops oks (look t1)" by blast
  show ?case using 1 2 by (intro exI [of _ t2] exI [of _ "ok # oks"]) simp
qed simp

text \<open>A key that no operation of a run mentions keeps its value, unless the table is reset.\<close>

lemma run_frame:
  assumes "inv t" "run_ops step ops t = Some (t', oks)"
    and "\<And>op. op \<in> set ops \<Longrightarrow> case op of InsertOp k _ \<Rightarrow> \<not> eq k x | RemoveOp k \<Rightarrow> \<not> eq k x | ClearOp \<Rightarrow> False"
  shows "look t' x = look t x"
proof -
  have "spec_run eq ops oks f x = f x" for f
    using assms(3)
  proof (induction eq ops oks f rule: spec_run.induct)
    case (1 eq op ops ok oks f)
    have "spec_step eq op ok f x = f x"
      using "1.prems" [of op] by (cases op) auto
    then show ?case using "1.IH" "1.prems" by auto
  qed auto
  then show ?thesis using run_refines [OF assms(1), of ops] assms(2) by auto
qed

end

end
