(* ===== verification/Cuckoo_Properties.thy ===== *)
theory Cuckoo_Properties
  imports Cuckoo_Remove Table_Interface
begin

text \<open>
  The cuckoo table as a lookup table: its operations as steps of the interface, the
  interpretation of the interface on them, and the properties of the table.
\<close>

declare split_paired_All [simp del] split_paired_Ex [simp del]

fun cuckoo_step ::
  "('k \<Rightarrow> u32) \<Rightarrow> ('k \<Rightarrow> 'k \<Rightarrow> bool) \<Rightarrow> 'k \<times> 'v \<Rightarrow> ('k, 'v) table_op \<Rightarrow> ('k, 'v) cuckoo \<Rightarrow>
     (('k, 'v) cuckoo \<times> bool) option" where
  "cuckoo_step hasher eq d (InsertOp k v) m =
     map_option (\<lambda>(m, r). (m, r \<noteq> None)) (Insert hasher eq d k v m)"
| "cuckoo_step hasher eq d (RemoveOp k) m = Some (Remove hasher eq d k m)"
| "cuckoo_step hasher eq d ClearOp m = Some (Clear d m, True)"

definition cuckoo_look ::
  "('k \<Rightarrow> u32) \<Rightarrow> ('k \<Rightarrow> 'k \<Rightarrow> bool) \<Rightarrow> ('k, 'v) cuckoo \<Rightarrow> 'k \<Rightarrow> 'v option" where
  "cuckoo_look hasher eq m k = map_option snd (Find hasher eq k m)"

context hash_key
begin

lemma Find_absent:
  "cuckoo_inv hasher eq m \<Longrightarrow> absent eq k m \<longleftrightarrow> Find hasher eq k m = None"
  by (simp add: Find_None_iff absent_def)

lemma Find_eqI:
  assumes "cuckoo_inv hasher eq m" "cuckoo_inv hasher eq m'"
    and "\<And>e. eq (fst e) k \<Longrightarrow> e \<in> stored m' \<longleftrightarrow> e \<in> stored m"
  shows "Find hasher eq k m' = Find hasher eq k m"
proof -
  have "Find hasher eq k m' = Some e \<longleftrightarrow> Find hasher eq k m = Some e" for e
    using Find_iff [OF assms(1), of k e] Find_iff [OF assms(2), of k e] assms(3) [of e] by blast
  then show ?thesis by (metis not_None_eq)
qed

lemma Find_cong:
  "cuckoo_inv hasher eq m \<Longrightarrow> cuckoo_inv hasher eq m' \<Longrightarrow> stored m' = stored m \<Longrightarrow>
     Find hasher eq k m' = Find hasher eq k m"
  by (rule Find_eqI) simp_all

lemma eq_class: "eq a k \<Longrightarrow> eq a x \<Longrightarrow> eq k x"
  using eq_trans eq_sym by blast

lemma Find_inserted:
  fixes m :: "('k, 'v) cuckoo"
  assumes "cuckoo_inv hasher eq m" and ins: "inserted hasher eq key val m m' i"
  shows "Find hasher eq key m' = Some (entries m' ! i)"
    and "\<forall>k. \<not> eq key k \<longrightarrow> Find hasher eq k m' = Find hasher eq k m"
proof -
  from ins have inv': "cuckoo_inv hasher eq m'" and e: "eq (fst (entries m' ! i)) key"
    and st: "stored m' = insert (entries m' ! i) {e \<in> stored m. \<not> eq (fst e) key}"
    by (simp_all add: inserted_def)
  show "Find hasher eq key m' = Some (entries m' ! i)" using Find_iff [OF inv'] e st by simp
  show "\<forall>k. \<not> eq key k \<longrightarrow> Find hasher eq k m' = Find hasher eq k m"
  proof (intro allI impI Find_eqI [OF assms(1) inv'])
    fix k :: 'k and x :: "'k \<times> 'v" assume "\<not> eq key k" "eq (fst x) k"
    then show "x \<in> stored m' \<longleftrightarrow> x \<in> stored m"
      using st eq_class [OF e, of k] eq_class [of "fst x" key k] by auto
  qed
qed

lemma Find_removed:
  fixes m :: "('k, 'v) cuckoo"
  assumes "cuckoo_inv hasher eq m" and rem: "removed hasher eq key m m'"
  shows "Find hasher eq key m' = None"
    and "\<forall>k. \<not> eq key k \<longrightarrow> Find hasher eq k m' = Find hasher eq k m"
proof -
  from rem have inv': "cuckoo_inv hasher eq m'"
    and st: "stored m' = {e \<in> stored m. \<not> eq (fst e) key}" by (simp_all add: removed_def)
  show "Find hasher eq key m' = None" using Find_None_iff [OF inv'] st by simp
  show "\<forall>k. \<not> eq key k \<longrightarrow> Find hasher eq k m' = Find hasher eq k m"
  proof (intro allI impI Find_eqI [OF assms(1) inv'])
    fix k :: 'k and x :: "'k \<times> 'v" assume "\<not> eq key k" "eq (fst x) k"
    then show "x \<in> stored m' \<longleftrightarrow> x \<in> stored m"
      using st eq_class [of "fst x" key k] by auto
  qed
qed

lemma look_iff:
  assumes "cuckoo_inv hasher eq m"
  shows "cuckoo_look hasher eq m k = Some v \<longleftrightarrow> (\<exists>k'. (k', v) \<in> stored m \<and> eq k' k)"
  using Find_iff [OF assms, of k] by (force simp: cuckoo_look_def)

lemma look_None_iff:
  assumes "cuckoo_inv hasher eq m"
  shows "cuckoo_look hasher eq m k = None \<longleftrightarrow> absent eq k m"
  using Find_None_iff [OF assms] by (simp add: cuckoo_look_def absent_def)

lemma look_cong:
  assumes inv: "cuckoo_inv hasher eq m" "cuckoo_inv hasher eq m'" and st: "stored m' = stored m"
  shows "cuckoo_look hasher eq m' = cuckoo_look hasher eq m"
proof
  fix x show "cuckoo_look hasher eq m' x = cuckoo_look hasher eq m x"
    using look_iff [OF inv(1), of x] look_iff [OF inv(2), of x] st by (metis not_None_eq)
qed

lemma look_inserted:
  assumes inv: "cuckoo_inv hasher eq m" and ins: "inserted hasher eq k v m m' i"
  shows "cuckoo_look hasher eq m' = (\<lambda>x. if eq k x then Some v else cuckoo_look hasher eq m x)"
proof
  fix x
  let ?e = "entries m' ! i"
  from ins have inv': "cuckoo_inv hasher eq m'" and e: "eq (fst ?e) k" "snd ?e = v"
    and st: "stored m' = insert ?e {e \<in> stored m. \<not> eq (fst e) k}"
    by (simp_all add: inserted_def)
  show "cuckoo_look hasher eq m' x = (if eq k x then Some v else cuckoo_look hasher eq m x)"
  proof (cases "eq k x")
    case True
    then have "eq (fst ?e) x" using eq_trans e(1) by blast
    then show ?thesis using look_iff [OF inv', of x v] True e(2) st
      by (metis insertI1 prod.collapse)
  next
    case False
    have "(k', w) \<in> stored m' \<and> eq k' x \<longleftrightarrow> (k', w) \<in> stored m \<and> eq k' x" for k' w
      using False e(1) st eq_trans [of "fst ?e" k x] eq_trans [of k k' x] eq_trans [of k "fst ?e" x]
        eq_sym [of k' k] eq_sym [of "fst ?e" k] by (cases ?e) auto
    then have "cuckoo_look hasher eq m' x = Some w \<longleftrightarrow> cuckoo_look hasher eq m x = Some w" for w
      using look_iff [OF inv, of x w] look_iff [OF inv', of x w] by simp
    then show ?thesis using False by (metis not_None_eq)
  qed
qed

lemma look_removed:
  assumes inv: "cuckoo_inv hasher eq m" and rem: "removed hasher eq k m m'"
  shows "cuckoo_look hasher eq m' = (\<lambda>x. if eq k x then None else cuckoo_look hasher eq m x)"
proof
  fix x
  from rem have inv': "cuckoo_inv hasher eq m'"
    and st: "stored m' = {e \<in> stored m. \<not> eq (fst e) k}" by (simp_all add: removed_def)
  show "cuckoo_look hasher eq m' x = (if eq k x then None else cuckoo_look hasher eq m x)"
  proof (cases "eq k x")
    case True
    have "absent eq x m'"
      using st eq_trans [OF _ eq_sym [OF True]] by (auto simp: absent_def)
    then show ?thesis using look_None_iff [OF inv'] True by simp
  next
    case False
    have "(k', w) \<in> stored m' \<and> eq k' x \<longleftrightarrow> (k', w) \<in> stored m \<and> eq k' x" for k' w
      using False st eq_trans [of k k' x] eq_sym [of k' k] by auto
    then have "cuckoo_look hasher eq m' x = Some w \<longleftrightarrow> cuckoo_look hasher eq m x = Some w" for w
      using look_iff [OF inv, of x w] look_iff [OF inv', of x w] by simp
    then show ?thesis using False by (metis not_None_eq)
  qed
qed

lemma look_absent:
  assumes inv: "cuckoo_inv hasher eq m" and "absent eq k m" and "eq k x"
  shows "cuckoo_look hasher eq m x = None"
  using look_None_iff [OF inv, of x] assms(2,3) eq_trans [OF _ eq_sym [OF assms(3)]]
  by (auto simp: absent_def)

lemma cuckoo_step_refines:
  assumes inv: "cuckoo_inv hasher eq m"
  shows "\<exists>m' ok. cuckoo_step hasher eq d op m = Some (m', ok) \<and> cuckoo_inv hasher eq m' \<and>
    cuckoo_look hasher eq m' = spec_step eq op ok (cuckoo_look hasher eq m) \<and>
    spec_answer op (cuckoo_look hasher eq m) ok"
proof (cases op)
  case (InsertOp k v)
  from Insert_post [OF inv, of k v d, unfolded emplace_post_def] show ?thesis
  proof (elim disjE exE conjE)
    fix m' assume "Insert hasher eq d k v m = Some (m', None)" "absent eq k m" "unchanged hasher eq m m'"
    then show ?thesis
      using look_cong [OF inv] look_None_iff [OF inv, of k] InsertOp by (auto simp: unchanged_def)
  next
    fix m' i assume "Insert hasher eq d k v m = Some (m', Some i)" "inserted hasher eq k v m m' i"
    then show ?thesis
      using look_inserted [OF inv, of k v m' i] InsertOp by (auto simp: inserted_def)
  qed
next
  case (RemoveOp k)
  from Remove_post [OF inv, of d k] show ?thesis
  proof (elim disjE exE conjE)
    assume "Remove hasher eq d k m = (m, False)" "absent eq k m"
    then show ?thesis
      using look_absent [OF inv] look_None_iff [OF inv, of k] inv RemoveOp by (auto simp: fun_eq_iff)
  next
    fix m' assume "Remove hasher eq d k m = (m', True)" "removed hasher eq k m m'"
    then show ?thesis
      using look_removed [OF inv] look_None_iff [OF inv, of k] RemoveOp by (auto simp: removed_def)
  qed
next
  case ClearOp
  have "absent eq x (Clear d m)" for x
    using Clear_inv [of hasher eq d m] by (simp add: absent_def)
  then show ?thesis
    using Clear_inv [of hasher eq d m] look_None_iff [of "Clear d m"] ClearOp by (auto simp: fun_eq_iff)
qed

end

context hash_key
begin

lemma lookup_table_cuckoo:
  "lookup_table eq (cuckoo_step hasher eq d) (cuckoo_look hasher eq) (cuckoo_inv hasher eq)"
  by unfold_locales (rule cuckoo_step_refines)

end

sublocale hash_key \<subseteq> as_table:
  lookup_table eq "cuckoo_step hasher eq d" "cuckoo_look hasher eq" "cuckoo_inv hasher eq" for d
  by (rule lookup_table_cuckoo)

text \<open>The default functors \<^verbatim>\<open>std::hash\<close> and \<^verbatim>\<open>std::equal_to\<close>: any hash with equality.\<close>

interpretation std_key: hash_key hasher "(=)" for hasher :: "'k \<Rightarrow> u32"
  by unfold_locales (rule hash_compat_equal)

lemma slot_None_hash:
  "b < length bs \<Longrightarrow> j < kEntriesPerBucket \<Longrightarrow> slot bs (b, j) = None \<longleftrightarrow> hash_values (bs ! b) ! j = 0"
  by (simp add: slot_def)

section \<open>A table to evaluate\<close>

definition example_table :: "(nat, nat) cuckoo" where
  "example_table = Clear (0, 0) \<lparr>bucket_mask = 0, num_entries = 0, buckets = [], entries = [],
                                  free_entry_indices = []\<rparr>"

definition example_hash :: "nat \<Rightarrow> u32" where
  "example_hash k = (if k = 1 then 1 else 6)"

lemma example_table_inv: "cuckoo_inv hasher eq example_table"
  unfolding example_table_def by (rule conjunct1 [OF Clear_inv])

lemma upt_small: "[0..<4] = [0, 1, 2, 3 :: nat]"
    "[0..<16] = [0, 1, 2, 3, 4, 5, 6, 7, 8, 9, 10, 11, 12, 13, 14, 15 :: nat]"
  by (simp_all add: upt_rec)

lemma replicate_small: "replicate 2 x = [x, x]" "replicate 4 x = [x, x, x, x]"
    "replicate 16 x = [x, x, x, x, x, x, x, x, x, x, x, x, x, x, x, x]"
  by (simp_all add: numeral_eq_Suc)

lemmas cuckoo_eval = Clear_def kInitNumBucket_def kInitNumEntries_def kEntriesPerBucket_def
  upt_small replicate_small Bucket_def Insert_def Let_def FindWithHash_def GetFromBucket_def
  FindSlot_def bucket_of_def Hash_def HashSecondary_def emplace_loop.simps EmplaceEntry.simps
  EmplaceInBucket_def FindEmptySlot_def PopFreeEntryIndex_def set_slot_def Remove_def
  RemoveFromBucket_def clear_slot_def PushFreeEntryIndex_def example_table_def example_hash_def

text \<open>A table of two buckets, the first of them full.\<close>

definition example_full :: "(nat, nat) cuckoo" where
  "example_full =
     \<lparr>bucket_mask = 1, num_entries = 4,
      buckets = [\<lparr>hash_values = replicate 4 0x80000000, entry_indices = [0, 1, 2, 3]\<rparr>,
                 \<lparr>hash_values = replicate 4 0, entry_indices = replicate 4 0\<rparr>],
      entries = [(1, 10), (2, 20), (3, 30), (4, 40)], free_entry_indices = []\<rparr>"

lemma example_full_inv: "cuckoo_inv (\<lambda>_. 0) (=) example_full"
proof -
  obtain m :: "(nat, nat) cuckoo" where m: "CuckooMap (0, 0) (2 ^ 1) 4 = Some m" "cuckoo_inv (\<lambda>_. 0) (=) m"
    using CuckooMap_inv [of 4 "(0, 0)" 1 "\<lambda>_. 0" "(=)"] by auto
  let ?ops = "[InsertOp 1 10, InsertOp 2 20, InsertOp 3 30, InsertOp (4 :: nat) (40 :: nat)]"
  have al: "align_ceil_pow2 2 = 2" using align_ceil_pow2_power [of 1] by simp
  have "m = \<lparr>bucket_mask = 1, num_entries = 0, buckets = [Bucket, Bucket],
             entries = [(0, 0), (0, 0), (0, 0), (0, 0)], free_entry_indices = [0, 1, 2, 3]\<rparr>"
    using m(1) al by (simp add: CuckooMap_def upt_small replicate_small)
  then have "map_option fst (run_ops (cuckoo_step (\<lambda>_. 0) (=) (0, 0)) ?ops m) = Some example_full"
    by (simp add: cuckoo_eval example_full_def cong: eval_cong)
  then show ?thesis
    using std_key.as_table.run_refines [OF m(2), of "(0, 0)" ?ops] by auto
qed

section \<open>Properties\<close>

text \<open>
  C1. The table implements a partial function. From a table that satisfies the invariant,
  every sequence of insertions, removals and resets has a result (no operation diverges or
  fails a check), keeps the invariant, answers as the partial function would (an
  insertion may be refused only for a key that is not stored, a removal succeeds exactly
  when the key is stored), and leaves a table whose lookups are those of the partial function.
\<close>

theorem cuckoo_run_refines:
  assumes "hash_compat hasher eq" and "cuckoo_inv hasher eq m"
  shows "\<exists>m' oks. run_ops (cuckoo_step hasher eq d) ops m = Some (m', oks) \<and>
    cuckoo_inv hasher eq m' \<and>
    cuckoo_look hasher eq m' = spec_run eq ops oks (cuckoo_look hasher eq m) \<and>
    spec_answers eq ops oks (cuckoo_look hasher eq m)"
  by (rule lookup_table.run_refines [OF hash_key.lookup_table_cuckoo [OF hash_key.intro [OF assms(1)]] assms(2)])

theorem cuckoo_run_refines_witness:
  "(\<exists>m' oks. run_ops (cuckoo_step example_hash (=) (0, 0))
       [InsertOp 1 10, InsertOp 2 20, RemoveOp 1, RemoveOp 3] example_table = Some (m', oks) \<and>
     cuckoo_look example_hash (=) m' =
       spec_run (=) [InsertOp 1 10, InsertOp 2 20, RemoveOp 1, RemoveOp 3] oks
         (cuckoo_look example_hash (=) example_table)) \<and>
   map_option snd (run_ops (cuckoo_step example_hash (=) (0, 0))
       [InsertOp 1 10, InsertOp 2 20, RemoveOp 1, RemoveOp 3] example_table) =
     Some [True, True, True, False]"
proof
  show "map_option snd (run_ops (cuckoo_step example_hash (=) (0, 0))
       [InsertOp 1 10, InsertOp 2 20, RemoveOp 1, RemoveOp 3] example_table) =
     Some [True, True, True, False]"
    by (simp add: cuckoo_eval cong: eval_cong)
qed (use cuckoo_run_refines [OF hash_compat_equal example_table_inv] in blast)

text \<open>
  Insertion on every branch: it always returns; a null result leaves the stored pairs
  alone and happens only for a key that was not stored; otherwise the returned entry is the
  one a lookup of the key finds, it carries the new value, no other key changes, and the
  count grows by one exactly when the key is new.
\<close>

lemma Insert_correct:
  assumes "hash_compat hasher eq" and "cuckoo_inv hasher eq m"
  shows "case Insert hasher eq d key val m of
      None \<Rightarrow> False
    | Some (m', None) \<Rightarrow>
        Find hasher eq key m = None \<and> cuckoo_inv hasher eq m' \<and> Count m' = Count m \<and>
        (\<forall>k. Find hasher eq k m' = Find hasher eq k m)
    | Some (m', Some i) \<Rightarrow>
        cuckoo_inv hasher eq m' \<and> i < length (entries m') \<and>
        Find hasher eq key m' = Some (entries m' ! i) \<and> snd (entries m' ! i) = val \<and>
        Count m' = (if Find hasher eq key m = None then Count m + 1 else Count m) \<and>
        (\<forall>k. \<not> eq key k \<longrightarrow> Find hasher eq k m' = Find hasher eq k m)"
proof -
  note H = hash_key.intro [OF assms(1)]
  from hash_key.Insert_post [OF H assms(2), of key val d, unfolded emplace_post_def]
  show ?thesis
  proof (elim disjE exE conjE)
    fix m' assume "Insert hasher eq d key val m = Some (m', None)" "absent eq key m"
      "unchanged hasher eq m m'"
    then show ?thesis
      using hash_key.Find_cong [OF H assms(2), of m'] hash_key.Find_absent [OF H assms(2), of key]
      by (simp add: unchanged_def Count_def)
  next
    fix m' i assume "Insert hasher eq d key val m = Some (m', Some i)"
      "inserted hasher eq key val m m' i"
    then show ?thesis
      using hash_key.Find_inserted [OF H assms(2), of key val m' i]
        hash_key.Find_absent [OF H assms(2), of key]
      by (simp add: inserted_def Count_def)
  qed
qed

text \<open>
  Removal answers whether the key was stored; afterwards the key is not found, every
  other key is found as before, and the count has dropped by one if it was stored.
\<close>

lemma Remove_correct:
  assumes "hash_compat hasher eq" and "cuckoo_inv hasher eq m"
    and "Remove hasher eq d key m = (m', ok)"
  shows "ok = (Find hasher eq key m \<noteq> None) \<and> cuckoo_inv hasher eq m' \<and>
    Find hasher eq key m' = None \<and> Count m' = (if ok then Count m - 1 else Count m) \<and>
    (\<forall>k. \<not> eq key k \<longrightarrow> Find hasher eq k m' = Find hasher eq k m)"
proof -
  note H = hash_key.intro [OF assms(1)]
  from hash_key.Remove_post [OF H assms(2), of d key] show ?thesis
  proof (elim disjE exE conjE)
    assume "Remove hasher eq d key m = (m, False)" "absent eq key m"
    then show ?thesis using assms(2,3) hash_key.Find_absent [OF H assms(2), of key] by simp
  next
    fix m1 assume "Remove hasher eq d key m = (m1, True)" "removed hasher eq key m m1"
    then show ?thesis
      using assms(3) hash_key.Find_removed [OF H assms(2), of key m']
        hash_key.Find_absent [OF H assms(2), of key]
      by (auto simp: removed_def Count_def)
  qed
qed

text \<open>
  C24. Making space in a full bucket at any depth of the search: when it fails the table is
  untouched, and when it reports a slot, that slot of the bucket is empty, the table
  still satisfies its invariant (every entry in one of its two buckets, none lost, none
  doubled) and the entries themselves and the stored pairs are unchanged.
\<close>

theorem MakeSpace_correct:
  assumes "cuckoo_inv hasher eq m"
    and "b < length (buckets m)" and "FindEmptySlot (buckets m ! b) = None"
    and "MakeSpace hasher b depth m = (m', r)"
  shows "case r of
      None \<Rightarrow> m' = m
    | Some j \<Rightarrow> j < kEntriesPerBucket \<and> hash_values (buckets m' ! b) ! j = 0 \<and>
        cuckoo_inv hasher eq m' \<and> stored m' = stored m \<and> entries m' = entries m \<and>
        Count m' = Count m"
proof (cases r)
  case (Some j)
  with MakeSpace_post [OF assms(1) full_bucketI [OF assms(2,3)], of depth] assms(4)
  have f: "freed hasher eq depth m b m' j" by (simp add: make_space_post_def)
  then have "same_entries m m'" by (simp add: freed_def)
  with f Some assms(2) show ?thesis
    using slot_None_hash [of b "buckets m'" j]
    by (simp add: freed_def same_entries_def stored_ran Count_def)
qed (use MakeSpace_post [OF assms(1) full_bucketI [OF assms(2,3)], of depth] assms(4)
    in \<open>simp add: make_space_post_def\<close>)

theorem MakeSpace_correct_witness:
  "FindEmptySlot (buckets example_full ! 0) = None \<and>
   (\<exists>m'. MakeSpace (\<lambda>_. 0) 0 0 example_full = (m', Some 0) \<and> stored m' = stored example_full)"
proof
  have b: "0 < length (buckets example_full)" by (simp add: example_full_def)
  show e: "FindEmptySlot (buckets example_full ! 0) = None"
    by (simp add: example_full_def FindEmptySlot_def kEntriesPerBucket_def upt_small)
  obtain m' r where mr: "MakeSpace (\<lambda>_. 0) 0 0 example_full = (m', r)" by fastforce
  have "r = Some 0"
    using mr by (simp add: example_full_def cuckoo_eval kMaxCuckooPath_def MakeSpace.simps
        MakeSpace_loop.simps split: option.splits cong: eval_cong if_weak_cong)
  with mr MakeSpace_correct [OF example_full_inv b e mr]
  show "\<exists>m'. MakeSpace (\<lambda>_. 0) 0 0 example_full = (m', Some 0) \<and> stored m' = stored example_full"
    by simp
qed

text \<open>
  A range-for loop over the table visits every stored pair exactly once: the visited
  pairs are the stored ones, no two of them have equal keys, and there are as many as
  the table counts.
\<close>

lemma iterator_correct:
  assumes "cuckoo_inv hasher eq m"
  shows "set (map (entry_at m) (occupied_slots m)) = stored m \<and>
    sorted_wrt (\<lambda>e e'. \<not> eq (fst e) (fst e')) (map (entry_at m) (occupied_slots m)) \<and>
    length (occupied_slots m) = Count m"
  using iterated_stored [of m] iterated_distinct [OF assms] occupied_slots_length [OF assms]
  by (simp add: Count_def)

end
