(* ===== verification/Llring.thy ===== *)
theory Llring
  imports Upf_Prelude
begin

text \<open>
  Model of \<^verbatim>\<open>bess/core/kmod/llring.h\<close>, the ring buffer between producers and consumers of
  packets. Indices are 32-bit words that wrap; they are masked when the ring is accessed.
  The functions are modelled as one thread runs them alone: the compare-and-set of the
  multi-producer and multi-consumer versions then succeeds at once, and their wait for
  earlier operations ends at once or never (\<open>None\<close>). The statistics are compiled out in the
  code (\<^verbatim>\<open>LLRING_ENABLE_DEBUG\<close> is 0). Objects (\<^verbatim>\<open>llring_addr_t\<close>) are a type parameter.
\<close>

section \<open>Data\<close>

definition LLRING_ERR_NOBUF :: int where "LLRING_ERR_NOBUF = 1"
definition LLRING_ERR_QUOT :: int where "LLRING_ERR_QUOT = 2"
definition LLRING_ERR_NOENT :: int where "LLRING_ERR_NOENT = 3"
definition LLRING_ERR_NOPOW2 :: int where "LLRING_ERR_NOPOW2 = 4"
definition LLRING_ERR_INVAL :: int where "LLRING_ERR_INVAL = 5"

definition RING_QUOT_EXCEED :: u32 where "RING_QUOT_EXCEED = push_bit 31 1"

datatype llring_queue_behavior = LLRING_QUEUE_FIXED | LLRING_QUEUE_VARIABLE

record 'a llring =
  ring_slots :: u32
  ring_mask :: u32
  sp_enqueue :: bool
  sc_dequeue :: bool
  watermark :: u32
  prod_head :: u32
  prod_tail :: u32
  cons_head :: u32
  cons_tail :: u32
  ring :: "'a list"

text \<open>
  The size of a ring in bytes: the structure has four cache lines (status, producer, consumer,
  padding) before its slots of eight bytes. It is computed as a \<^verbatim>\<open>size_t\<close> and returned as an \<^verbatim>\<open>int\<close>.
\<close>

definition sizeof_llring :: int where "sizeof_llring = 256"

definition llring_bytes_with_slots :: "u32 \<Rightarrow> int" where
  "llring_bytes_with_slots slots = signed_take_bit 31 (sizeof_llring + 8 * uint slots)"

text \<open>
  \<open>mem\<close> is what the memory behind the structure holds, one object for eight bytes, and \<open>z\<close> the null
  object of zeroed bytes. An argument that is not a power of two is refused before the memory is
  touched; otherwise as many bytes are zeroed as the computed size says.
\<close>

definition llring_init :: "'a \<Rightarrow> 'a list \<Rightarrow> u32 \<Rightarrow> bool \<Rightarrow> bool \<Rightarrow> int + 'a llring" where
  "llring_init z mem slots sp sc =
     (if slots AND (slots - 1) \<noteq> 0 then Inl (- LLRING_ERR_NOPOW2)
      else Inr \<lparr>ring_slots = slots, ring_mask = slots - 1, sp_enqueue = sp, sc_dequeue = sc,
                watermark = slots, prod_head = 0, prod_tail = 0, cons_head = 0, cons_tail = 0,
                ring = map (\<lambda>i. if sizeof_llring + 8 * int (Suc i) \<le> llring_bytes_with_slots slots then z else mem ! i)
                  [0..<length mem]\<rparr>)"

definition llring_set_water_mark :: "u32 \<Rightarrow> 'a llring \<Rightarrow> 'a llring \<times> int" where
  "llring_set_water_mark count r =
     (if count \<ge> ring_slots r then (r, - LLRING_ERR_INVAL)
      else let count = (if count = 0 then ring_slots r else count)
           in (r\<lparr>watermark := count\<rparr>, 0))"

section \<open>Copying objects\<close>

text \<open>
  One assignment \<^verbatim>\<open>dst[d++] = src[s++]\<close>. The loops of the macros copy four objects at a
  time and the rest by a \<^verbatim>\<open>switch\<close> that falls through, or, when the objects wrap around,
  first to the end of the ring and then from its start.
\<close>

definition copy_one :: "'a list \<Rightarrow> 'a list \<times> nat \<times> nat \<Rightarrow> 'a list \<times> nat \<times> nat" where
  "copy_one src st = (case st of (dst, d, s) \<Rightarrow> (dst[d := src ! s], d + 1, s + 1))"

definition copy_four :: "'a list \<Rightarrow> 'a list \<times> nat \<times> nat \<Rightarrow> 'a list \<times> nat \<times> nat" where
  "copy_four src st = (case st of (dst, d, s) \<Rightarrow>
     (dst[d := src ! s, d + 1 := src ! (s + 1), d + 2 := src ! (s + 2), d + 3 := src ! (s + 3)],
      d + 4, s + 4))"

function enqueue_quads :: "'a list \<Rightarrow> nat \<Rightarrow> 'a list \<times> nat \<times> nat \<Rightarrow> 'a list \<times> nat \<times> nat" where
  "enqueue_quads obj lim (mem, idx, i) =
     (if i < lim then enqueue_quads obj lim (copy_four obj (mem, idx, i)) else (mem, idx, i))"
  by pat_completeness auto
termination
  by (relation "measure (\<lambda>(_, lim, _, _, i). lim - i)") (auto simp: copy_four_def)

function dequeue_quads :: "'a list \<Rightarrow> nat \<Rightarrow> 'a list \<times> nat \<times> nat \<Rightarrow> 'a list \<times> nat \<times> nat" where
  "dequeue_quads mem lim (obj, i, idx) =
     (if i < lim then dequeue_quads mem lim (copy_four mem (obj, i, idx)) else (obj, i, idx))"
  by pat_completeness auto
termination
  by (relation "measure (\<lambda>(_, lim, _, i, _). lim - i)") (auto simp: copy_four_def)

definition copy_switch :: "nat \<Rightarrow> 'a list \<Rightarrow> 'a list \<times> nat \<times> nat \<Rightarrow> 'a list \<times> nat \<times> nat" where
  "copy_switch c src st =
     (let st = (if c = 3 then copy_one src st else st);
          st = (if c = 3 \<or> c = 2 then copy_one src st else st)
      in if c = 3 \<or> c = 2 \<or> c = 1 then copy_one src st else st)"

function enqueue_to_end :: "'a list \<Rightarrow> nat \<Rightarrow> 'a list \<times> nat \<times> nat \<Rightarrow> 'a list \<times> nat \<times> nat" where
  "enqueue_to_end obj slots (mem, idx, i) =
     (if idx < slots then enqueue_to_end obj slots (copy_one obj (mem, idx, i)) else (mem, idx, i))"
  by pat_completeness auto
termination
  by (relation "measure (\<lambda>(_, slots, _, idx, _). slots - idx)") (auto simp: copy_one_def)

function enqueue_remaining :: "'a list \<Rightarrow> nat \<Rightarrow> 'a list \<times> nat \<times> nat \<Rightarrow> 'a list \<times> nat \<times> nat" where
  "enqueue_remaining obj n (mem, idx, i) =
     (if i < n then enqueue_remaining obj n (copy_one obj (mem, idx, i)) else (mem, idx, i))"
  by pat_completeness auto
termination
  by (relation "measure (\<lambda>(_, n, _, _, i). n - i)") (auto simp: copy_one_def)

function dequeue_to_end :: "'a list \<Rightarrow> nat \<Rightarrow> 'a list \<times> nat \<times> nat \<Rightarrow> 'a list \<times> nat \<times> nat" where
  "dequeue_to_end mem slots (obj, i, idx) =
     (if idx < slots then dequeue_to_end mem slots (copy_one mem (obj, i, idx)) else (obj, i, idx))"
  by pat_completeness auto
termination
  by (relation "measure (\<lambda>(_, slots, _, _, idx). slots - idx)") (auto simp: copy_one_def)

function dequeue_remaining :: "'a list \<Rightarrow> nat \<Rightarrow> 'a list \<times> nat \<times> nat \<Rightarrow> 'a list \<times> nat \<times> nat" where
  "dequeue_remaining mem n (obj, i, idx) =
     (if i < n then dequeue_remaining mem n (copy_one mem (obj, i, idx)) else (obj, i, idx))"
  by pat_completeness auto
termination
  by (relation "measure (\<lambda>(_, n, _, i, _). n - i)") (auto simp: copy_one_def)

declare enqueue_quads.simps [simp del] dequeue_quads.simps [simp del]
  enqueue_to_end.simps [simp del] enqueue_remaining.simps [simp del]
  dequeue_to_end.simps [simp del] dequeue_remaining.simps [simp del]

definition LLRING_ENQUEUE_PTRS :: "u32 \<Rightarrow> u32 \<Rightarrow> 'a list \<Rightarrow> 'a llring \<Rightarrow> 'a llring" where
  "LLRING_ENQUEUE_PTRS head n obj_table r =
     (let slots = ring_slots r;
          idx = head AND ring_mask r
      in if idx + n < slots
         then let st = enqueue_quads obj_table (unat (n AND NOT 3)) (ring r, unat idx, 0);
                  st = copy_switch (unat (n AND 3)) obj_table st
              in r\<lparr>ring := fst st\<rparr>
         else let (mem, _, i) = enqueue_to_end obj_table (unat slots) (ring r, unat idx, 0);
                  st = enqueue_remaining obj_table (unat n) (mem, 0, i)
              in r\<lparr>ring := fst st\<rparr>)"

definition LLRING_DEQUEUE_PTRS :: "u32 \<Rightarrow> u32 \<Rightarrow> 'a list \<Rightarrow> 'a llring \<Rightarrow> 'a list" where
  "LLRING_DEQUEUE_PTRS head n obj_table r =
     (let slots = ring_slots r;
          idx = head AND ring_mask r
      in if idx + n < slots
         then let st = dequeue_quads (ring r) (unat (n AND NOT 3)) (obj_table, 0, unat idx);
                  st = copy_switch (unat (n AND 3)) (ring r) st
              in fst st
         else let (obj, i, _) = dequeue_to_end (ring r) (unat slots) (obj_table, 0, unat idx);
                  st = dequeue_remaining (ring r) (unat n) (obj, i, 0)
              in fst st)"

section \<open>Enqueueing\<close>

text \<open>
  How many objects an operation moves, given how many there is room for: an answer for the
  caller, or the number.
\<close>

definition room_check :: "int \<Rightarrow> llring_queue_behavior \<Rightarrow> u32 \<Rightarrow> u32 \<Rightarrow> int + u32" where
  "room_check err behavior n room =
     (if n > room
      then if behavior = LLRING_QUEUE_FIXED then Inl (- err)
           else if room = 0 then Inl 0
           else Inr room
      else Inr n)"

definition enqueue_ret :: "llring_queue_behavior \<Rightarrow> u32 \<Rightarrow> u32 \<Rightarrow> 'a llring \<Rightarrow> int" where
  "enqueue_ret behavior free_entries n r =
     (if (ring_mask r + 1) - free_entries + n > watermark r
      then if behavior = LLRING_QUEUE_FIXED then - LLRING_ERR_QUOT
           else sint (n OR RING_QUOT_EXCEED)
      else if behavior = LLRING_QUEUE_FIXED then 0 else sint n)"

definition llring_sp_do_enqueue ::
  "'a list \<Rightarrow> u32 \<Rightarrow> llring_queue_behavior \<Rightarrow> 'a llring \<Rightarrow> 'a llring \<times> int" where
  "llring_sp_do_enqueue obj_table n behavior r =
     (let head = prod_head r;
          free_entries = ring_mask r + cons_tail r - head
      in case room_check LLRING_ERR_NOBUF behavior n free_entries of
           Inl ret \<Rightarrow> (r, ret)
         | Inr n \<Rightarrow>
             let next = head + n;
                 r = r\<lparr>prod_head := next\<rparr>;
                 r = LLRING_ENQUEUE_PTRS head n obj_table r;
                 ret = enqueue_ret behavior free_entries n r
             in (r\<lparr>prod_tail := next\<rparr>, ret))"

definition llring_cmpset_prod_head :: "u32 \<Rightarrow> u32 \<Rightarrow> 'a llring \<Rightarrow> 'a llring \<times> bool" where
  "llring_cmpset_prod_head exp src r =
     (if prod_head r = exp then (r\<lparr>prod_head := src\<rparr>, True) else (r, False))"

definition llring_cmpset_cons_head :: "u32 \<Rightarrow> u32 \<Rightarrow> 'a llring \<Rightarrow> 'a llring \<times> bool" where
  "llring_cmpset_cons_head exp src r =
     (if cons_head r = exp then (r\<lparr>cons_head := src\<rparr>, True) else (r, False))"

text \<open>The loop that moves the head: it yields the old head, the room found and the number.\<close>

partial_function (option) mp_move_head ::
  "u32 \<Rightarrow> llring_queue_behavior \<Rightarrow> 'a llring \<Rightarrow> (int + 'a llring \<times> u32 \<times> u32 \<times> u32) option" where
  "mp_move_head n0 behavior r =
     (let head = prod_head r;
          free_entries = ring_mask r + cons_tail r - head
      in case room_check LLRING_ERR_NOBUF behavior n0 free_entries of
           Inl ret \<Rightarrow> Some (Inl ret)
         | Inr n \<Rightarrow>
             (case llring_cmpset_prod_head head (head + n) r of
                (r, success) \<Rightarrow>
                  if success then Some (Inr (r, head, free_entries, n))
                  else mp_move_head n0 behavior r))"

definition llring_mp_do_enqueue ::
  "'a list \<Rightarrow> u32 \<Rightarrow> llring_queue_behavior \<Rightarrow> 'a llring \<Rightarrow> ('a llring \<times> int) option" where
  "llring_mp_do_enqueue obj_table n behavior r =
     (case mp_move_head n behavior r of
        None \<Rightarrow> None
      | Some (Inl ret) \<Rightarrow> Some (r, ret)
      | Some (Inr (r, head, free_entries, n)) \<Rightarrow>
          let r = LLRING_ENQUEUE_PTRS head n obj_table r;
              ret = enqueue_ret behavior free_entries n r
          in if prod_tail r = head then Some (r\<lparr>prod_tail := head + n\<rparr>, ret) else None)"

section \<open>Dequeueing\<close>

text \<open>The dequeueing functions return the ring, the object table and the answer.\<close>

definition llring_sc_do_dequeue ::
  "'a list \<Rightarrow> u32 \<Rightarrow> llring_queue_behavior \<Rightarrow> 'a llring \<Rightarrow> 'a llring \<times> 'a list \<times> int" where
  "llring_sc_do_dequeue obj_table n behavior r =
     (let head = cons_head r;
          entries = prod_tail r - head
      in case room_check LLRING_ERR_NOENT behavior n entries of
           Inl ret \<Rightarrow> (r, obj_table, ret)
         | Inr n \<Rightarrow>
             let next = head + n;
                 r = r\<lparr>cons_head := next\<rparr>;
                 obj_table = LLRING_DEQUEUE_PTRS head n obj_table r
             in (r\<lparr>cons_tail := next\<rparr>, obj_table,
                 if behavior = LLRING_QUEUE_FIXED then 0 else sint n))"

partial_function (option) mc_move_head ::
  "u32 \<Rightarrow> llring_queue_behavior \<Rightarrow> 'a llring \<Rightarrow> (int + 'a llring \<times> u32 \<times> u32) option" where
  "mc_move_head n0 behavior r =
     (let head = cons_head r;
          entries = prod_tail r - head
      in case room_check LLRING_ERR_NOENT behavior n0 entries of
           Inl ret \<Rightarrow> Some (Inl ret)
         | Inr n \<Rightarrow>
             (case llring_cmpset_cons_head head (head + n) r of
                (r, success) \<Rightarrow>
                  if success then Some (Inr (r, head, n)) else mc_move_head n0 behavior r))"

definition llring_mc_do_dequeue ::
  "'a list \<Rightarrow> u32 \<Rightarrow> llring_queue_behavior \<Rightarrow> 'a llring \<Rightarrow> ('a llring \<times> 'a list \<times> int) option"
where
  "llring_mc_do_dequeue obj_table n behavior r =
     (case mc_move_head n behavior r of
        None \<Rightarrow> None
      | Some (Inl ret) \<Rightarrow> Some (r, obj_table, ret)
      | Some (Inr (r, head, n)) \<Rightarrow>
          let obj_table = LLRING_DEQUEUE_PTRS head n obj_table r
          in if cons_tail r = head
             then Some (r\<lparr>cons_tail := head + n\<rparr>, obj_table,
                        if behavior = LLRING_QUEUE_FIXED then 0 else sint n)
             else None)"

section \<open>The interface functions\<close>

definition llring_mp_enqueue_bulk :: "'a list \<Rightarrow> u32 \<Rightarrow> 'a llring \<Rightarrow> ('a llring \<times> int) option" where
  "llring_mp_enqueue_bulk obj_table n r = llring_mp_do_enqueue obj_table n LLRING_QUEUE_FIXED r"

definition llring_sp_enqueue_bulk :: "'a list \<Rightarrow> u32 \<Rightarrow> 'a llring \<Rightarrow> 'a llring \<times> int" where
  "llring_sp_enqueue_bulk obj_table n r = llring_sp_do_enqueue obj_table n LLRING_QUEUE_FIXED r"

definition llring_enqueue_bulk :: "'a list \<Rightarrow> u32 \<Rightarrow> 'a llring \<Rightarrow> ('a llring \<times> int) option" where
  "llring_enqueue_bulk obj_table n r =
     (if sp_enqueue r then Some (llring_sp_enqueue_bulk obj_table n r)
      else llring_mp_enqueue_bulk obj_table n r)"

definition llring_mp_enqueue :: "'a \<Rightarrow> 'a llring \<Rightarrow> ('a llring \<times> int) option" where
  "llring_mp_enqueue obj r = llring_mp_enqueue_bulk [obj] 1 r"

definition llring_sp_enqueue :: "'a \<Rightarrow> 'a llring \<Rightarrow> 'a llring \<times> int" where
  "llring_sp_enqueue obj r = llring_sp_enqueue_bulk [obj] 1 r"

definition llring_enqueue :: "'a \<Rightarrow> 'a llring \<Rightarrow> ('a llring \<times> int) option" where
  "llring_enqueue obj r =
     (if sp_enqueue r then Some (llring_sp_enqueue obj r) else llring_mp_enqueue obj r)"

definition llring_mc_dequeue_bulk ::
  "'a list \<Rightarrow> u32 \<Rightarrow> 'a llring \<Rightarrow> ('a llring \<times> 'a list \<times> int) option" where
  "llring_mc_dequeue_bulk obj_table n r = llring_mc_do_dequeue obj_table n LLRING_QUEUE_FIXED r"

definition llring_sc_dequeue_bulk ::
  "'a list \<Rightarrow> u32 \<Rightarrow> 'a llring \<Rightarrow> 'a llring \<times> 'a list \<times> int" where
  "llring_sc_dequeue_bulk obj_table n r = llring_sc_do_dequeue obj_table n LLRING_QUEUE_FIXED r"

definition llring_dequeue_bulk ::
  "'a list \<Rightarrow> u32 \<Rightarrow> 'a llring \<Rightarrow> ('a llring \<times> 'a list \<times> int) option" where
  "llring_dequeue_bulk obj_table n r =
     (if sc_dequeue r then Some (llring_sc_dequeue_bulk obj_table n r)
      else llring_mc_dequeue_bulk obj_table n r)"

definition llring_mc_dequeue :: "'a \<Rightarrow> 'a llring \<Rightarrow> ('a llring \<times> 'a list \<times> int) option" where
  "llring_mc_dequeue obj_p r = llring_mc_dequeue_bulk [obj_p] 1 r"

definition llring_sc_dequeue :: "'a \<Rightarrow> 'a llring \<Rightarrow> 'a llring \<times> 'a list \<times> int" where
  "llring_sc_dequeue obj_p r = llring_sc_dequeue_bulk [obj_p] 1 r"

text \<open>The object pointed to is a table of one object; its content is passed in and out.\<close>

definition llring_dequeue :: "'a \<Rightarrow> 'a llring \<Rightarrow> ('a llring \<times> 'a list \<times> int) option" where
  "llring_dequeue obj_p r =
     (if sc_dequeue r then Some (llring_sc_dequeue obj_p r) else llring_mc_dequeue obj_p r)"

definition llring_full :: "'a llring \<Rightarrow> bool" where
  "llring_full r \<longleftrightarrow> (cons_tail r - prod_tail r - 1) AND ring_mask r = 0"

definition llring_empty :: "'a llring \<Rightarrow> bool" where
  "llring_empty r \<longleftrightarrow> cons_tail r = prod_tail r"

definition llring_count :: "'a llring \<Rightarrow> u32" where
  "llring_count r = (prod_tail r - cons_tail r) AND ring_mask r"

definition llring_free_count :: "'a llring \<Rightarrow> u32" where
  "llring_free_count r = (cons_tail r - prod_tail r - 1) AND ring_mask r"

definition llring_mp_enqueue_burst :: "'a list \<Rightarrow> u32 \<Rightarrow> 'a llring \<Rightarrow> ('a llring \<times> int) option" where
  "llring_mp_enqueue_burst obj_table n r = llring_mp_do_enqueue obj_table n LLRING_QUEUE_VARIABLE r"

definition llring_sp_enqueue_burst :: "'a list \<Rightarrow> u32 \<Rightarrow> 'a llring \<Rightarrow> 'a llring \<times> int" where
  "llring_sp_enqueue_burst obj_table n r = llring_sp_do_enqueue obj_table n LLRING_QUEUE_VARIABLE r"

definition llring_enqueue_burst :: "'a list \<Rightarrow> u32 \<Rightarrow> 'a llring \<Rightarrow> ('a llring \<times> int) option" where
  "llring_enqueue_burst obj_table n r =
     (if sp_enqueue r then Some (llring_sp_enqueue_burst obj_table n r)
      else llring_mp_enqueue_burst obj_table n r)"

definition llring_mc_dequeue_burst ::
  "'a list \<Rightarrow> u32 \<Rightarrow> 'a llring \<Rightarrow> ('a llring \<times> 'a list \<times> int) option" where
  "llring_mc_dequeue_burst obj_table n r = llring_mc_do_dequeue obj_table n LLRING_QUEUE_VARIABLE r"

definition llring_sc_dequeue_burst ::
  "'a list \<Rightarrow> u32 \<Rightarrow> 'a llring \<Rightarrow> 'a llring \<times> 'a list \<times> int" where
  "llring_sc_dequeue_burst obj_table n r = llring_sc_do_dequeue obj_table n LLRING_QUEUE_VARIABLE r"

definition llring_dequeue_burst ::
  "'a list \<Rightarrow> u32 \<Rightarrow> 'a llring \<Rightarrow> ('a llring \<times> 'a list \<times> int) option" where
  "llring_dequeue_burst obj_table n r =
     (if sc_dequeue r then Some (llring_sc_dequeue_burst obj_table n r)
      else llring_mc_dequeue_burst obj_table n r)"

end
