(* ===== verification/Queue_Interface.thy ===== *)
theory Queue_Interface
  imports Upf_Prelude "HOL-Library.Sublist"
begin

text \<open>
  The contract of \<^verbatim>\<open>bess/core/utils/queue.h\<close>, the abstract class behind every packet queue.
  A push is accepted at the end or refused. A pop returns an object and may first drop
  objects in front of it (active queue management); when it returns nothing the queue is
  empty. The first locale is that contract, the second the one of a queue that drops nothing and
  accepts objects exactly up to a bound. Their lemmas are about any sequence of operations.
\<close>

datatype 'a queue_op = PushOp 'a | PopOp

text \<open>Whether a push was accepted, and what a pop returned.\<close>

datatype 'a queue_answer = Pushed bool | Popped "'a option"

text \<open>A run yields the final queue and the answer to every operation.\<close>

fun queue_run ::
  "('a \<Rightarrow> 'q \<Rightarrow> ('q \<times> bool) option) \<Rightarrow> ('q \<Rightarrow> ('q \<times> 'a option) option) \<Rightarrow> 'a queue_op list \<Rightarrow> 'q \<Rightarrow>
     ('q \<times> 'a queue_answer list) option" where
  "queue_run push pop [] q = Some (q, [])"
| "queue_run push pop (PushOp x # ops) q =
     do {
       (q, ok) \<leftarrow> push x q;
       (q, as) \<leftarrow> queue_run push pop ops q;
       Some (q, Pushed ok # as)
     }"
| "queue_run push pop (PopOp # ops) q =
     do {
       (q, r) \<leftarrow> pop q;
       (q, as) \<leftarrow> queue_run push pop ops q;
       Some (q, Popped r # as)
     }"

fun accepted :: "'a queue_op list \<Rightarrow> 'a queue_answer list \<Rightarrow> 'a list" where
  "accepted (PushOp x # ops) (Pushed ok # as) = (if ok then [x] else []) @ accepted ops as"
| "accepted (_ # ops) (_ # as) = accepted ops as"
| "accepted _ _ = []"

fun popped :: "'a queue_answer list \<Rightarrow> 'a list" where
  "popped (Popped (Some x) # as) = x # popped as"
| "popped (_ # as) = popped as"
| "popped [] = []"

text \<open>The queue as a list of at most \<open>cap\<close> objects, the next one to be popped in front.\<close>

fun fifo_run :: "nat \<Rightarrow> 'a queue_op list \<Rightarrow> 'a list \<Rightarrow> 'a list \<times> 'a queue_answer list" where
  "fifo_run cap [] xs = (xs, [])"
| "fifo_run cap (PushOp x # ops) xs =
     (let ok = length xs < cap; (ys, as) = fifo_run cap ops (if ok then xs @ [x] else xs)
      in (ys, Pushed ok # as))"
| "fifo_run cap (PopOp # ops) xs =
     (let (ys, as) = fifo_run cap ops (tl xs)
      in (ys, Popped (case xs of [] \<Rightarrow> None | x # _ \<Rightarrow> Some x) # as))"

lemma fifo_run_lossless:
  "fifo_run cap ops xs = (ys, as) \<Longrightarrow> popped as @ ys = xs @ accepted ops as"
proof (induction ops arbitrary: xs ys as)
  case (Cons op ops)
  then show ?case
    by (cases op) (auto simp: Let_def split: prod.splits list.splits if_splits)
qed simp

lemma subseq_drop: "subseq xs ys \<Longrightarrow> subseq (x # xs) (ds @ x # ys)"
  by (rule list_emb_append2) simp

locale ordered_queue =
  fixes push :: "'a \<Rightarrow> 'q \<Rightarrow> ('q \<times> bool) option"
    and pop :: "'q \<Rightarrow> ('q \<times> 'a option) option"
    and contents :: "'q \<Rightarrow> 'a list"
    and inv :: "'q \<Rightarrow> bool"
  assumes push_law: "inv q \<Longrightarrow>
      \<exists>q' ok. push x q = Some (q', ok) \<and> inv q' \<and> contents q' = contents q @ (if ok then [x] else [])"
    and pop_law: "inv q \<Longrightarrow>
      \<exists>q' r. pop q = Some (q', r) \<and> inv q' \<and>
        (case r of None \<Rightarrow> contents q' = [] | Some x \<Rightarrow> \<exists>ds. contents q = ds @ x # contents q')"
begin

lemma queue_run_ordered:
  "inv q \<Longrightarrow> \<exists>q' as. queue_run push pop ops q = Some (q', as) \<and> inv q' \<and>
     subseq (popped as @ contents q') (contents q @ accepted ops as)"
proof (induction ops arbitrary: q)
  case (Cons op ops)
  show ?case
  proof (cases op)
    case (PushOp x)
    obtain q1 ok where 1: "push x q = Some (q1, ok)" "inv q1"
      "contents q1 = contents q @ (if ok then [x] else [])" using push_law [OF Cons.prems] by blast
    from Cons.IH [OF 1(2)] 1 PushOp show ?thesis by auto
  next
    case PopOp
    obtain q1 r where 1: "pop q = Some (q1, r)" "inv q1"
      "case r of None \<Rightarrow> contents q1 = [] | Some x \<Rightarrow> \<exists>ds. contents q = ds @ x # contents q1"
      using pop_law [OF Cons.prems] by blast
    from Cons.IH [OF 1(2)] obtain q' as where 2: "queue_run push pop ops q1 = Some (q', as)"
      "inv q'" "subseq (popped as @ contents q') (contents q1 @ accepted ops as)" by blast
    have "subseq (popped (Popped r # as) @ contents q') (contents q @ accepted ops as)"
      using 1(3) 2(3) by (auto split: option.splits intro: list_emb_append2 subseq_drop)
    with 1 2 PopOp show ?thesis by simp
  qed
qed simp

end

locale bounded_queue = ordered_queue +
  fixes bound :: "'b \<Rightarrow> nat"
  assumes push_bounded: "inv q \<Longrightarrow> push x q = Some (q', ok) \<Longrightarrow> (ok \<longleftrightarrow> length (contents q) < bound q) \<and> bound q' = bound q"
    and pop_head: "inv q \<Longrightarrow> pop q = Some (q', r) \<Longrightarrow>
      r = (case contents q of [] \<Rightarrow> None | x # _ \<Rightarrow> Some x) \<and> contents q' = tl (contents q) \<and> bound q' = bound q"
begin

lemma queue_run_fifo:
  "inv q \<Longrightarrow> \<exists>q'. queue_run push pop ops q = Some (q', snd (fifo_run (bound q) ops (contents q))) \<and> inv q' \<and>
     contents q' = fst (fifo_run (bound q) ops (contents q)) \<and> bound q' = bound q"
proof (induction ops arbitrary: q)
  case (Cons op ops)
  show ?case
  proof (cases op)
    case (PushOp x)
    obtain q1 ok where 1: "push x q = Some (q1, ok)" "inv q1"
      "contents q1 = contents q @ (if ok then [x] else [])" using push_law [OF Cons.prems] by blast
    have 2: "ok \<longleftrightarrow> length (contents q) < bound q" "bound q1 = bound q"
      using push_bounded [OF Cons.prems 1(1)] by simp_all
    from Cons.IH [OF 1(2)] 1 2 PushOp show ?thesis by (auto simp: Let_def case_prod_unfold)
  next
    case PopOp
    obtain q1 r where 1: "pop q = Some (q1, r)" "inv q1" using pop_law [OF Cons.prems] by blast
    have 2: "r = (case contents q of [] \<Rightarrow> None | x # _ \<Rightarrow> Some x)" "contents q1 = tl (contents q)" "bound q1 = bound q"
      using pop_head [OF Cons.prems 1(1)] by simp_all
    from Cons.IH [OF 1(2)] 1 2 PopOp show ?thesis by (auto simp: Let_def case_prod_unfold)
  qed
qed simp

end

end
