(* ===== verification/Llring_Correct.thy ===== *)
theory Llring_Correct
  imports Llring Queue_Interface
begin

text \<open>
  Correctness of the ring: the copying loops move exactly the objects asked for, the ring
  refines a list of objects, and the answers as functions of its length, its room and its water mark.
\<close>

section \<open>The copying loops\<close>

primrec copy_n :: "nat \<Rightarrow> 'a list \<Rightarrow> 'a list \<times> nat \<times> nat \<Rightarrow> 'a list \<times> nat \<times> nat" where
  "copy_n 0 src st = st"
| "copy_n (Suc m) src st = copy_n m src (copy_one src st)"

lemma copy_n_add: "copy_n (m + k) src st = copy_n k src (copy_n m src st)"
  by (induction m arbitrary: st) auto

lemma copy_n_indices: "snd (copy_n m src (dst, d, s)) = (d + m, s + m)"
  by (induction m arbitrary: dst d s) (auto simp: copy_one_def)

lemma copy_n_length: "length (fst (copy_n m src (dst, d, s))) = length dst"
  by (induction m arbitrary: dst d s) (auto simp: copy_one_def)

lemma copy_n_nth:
  "j < length dst \<Longrightarrow>
     fst (copy_n m src (dst, d, s)) ! j = (if d \<le> j \<and> j < d + m then src ! (s + (j - d)) else dst ! j)"
proof (induction m arbitrary: dst d s)
  case (Suc m)
  show ?case
    using Suc.IH [of "dst[d := src ! s]" "Suc d" "Suc s"] Suc.prems
    by (auto simp: copy_one_def nth_list_update Suc_diff_Suc Suc_le_eq)
qed auto

lemma copy_four: "copy_four src st = copy_n 4 src st"
  by (cases st) (simp add: copy_four_def copy_one_def numeral_eq_Suc)

lemma copy_n_eq: "copy_n m src (dst, d, s) = (fst (copy_n m src (dst, d, s)), d + m, s + m)"
  by (metis copy_n_indices prod.collapse)

lemma enqueue_quads_copy:
  "enqueue_quads obj (i + 4 * q) (mem, idx, i) = copy_n (4 * q) obj (mem, idx, i)"
proof (induction q arbitrary: mem idx i)
  case (Suc q)
  obtain mem' where m: "copy_n 4 obj (mem, idx, i) = (mem', idx + 4, i + 4)"
    using copy_n_eq [of 4 obj mem idx i] by blast
  show ?case
    using Suc.IH [of "i + 4" mem' "idx + 4"] copy_n_add [of 4 "4 * q" obj "(mem, idx, i)"]
    by (subst enqueue_quads.simps) (simp add: copy_four m algebra_simps)
qed (simp add: enqueue_quads.simps)

lemma dequeue_quads_copy:
  "dequeue_quads mem (i + 4 * q) (obj, i, idx) = copy_n (4 * q) mem (obj, i, idx)"
proof (induction q arbitrary: obj idx i)
  case (Suc q)
  obtain obj' where m: "copy_n 4 mem (obj, i, idx) = (obj', i + 4, idx + 4)"
    using copy_n_eq [of 4 mem obj i idx] by blast
  show ?case
    using Suc.IH [of "i + 4" obj' "idx + 4"] copy_n_add [of 4 "4 * q" mem "(obj, i, idx)"]
    by (subst dequeue_quads.simps) (simp add: copy_four m algebra_simps)
qed (simp add: dequeue_quads.simps)

lemma copy_switch_copy: "c \<le> 3 \<Longrightarrow> copy_switch c src st = copy_n c src st"
proof -
  assume "c \<le> 3"
  then consider "c = 0" | "c = 1" | "c = 2" | "c = 3" by linarith
  then show ?thesis by cases (simp_all add: copy_switch_def numeral_eq_Suc)
qed

lemma enqueue_to_end_copy: "enqueue_to_end obj (idx + m) (mem, idx, i) = copy_n m obj (mem, idx, i)"
proof (induction m arbitrary: mem idx i)
  case (Suc m)
  show ?case using Suc.IH [of "Suc idx" "mem[idx := obj ! i]" "Suc i"]
    by (subst enqueue_to_end.simps) (simp add: copy_one_def)
qed (simp add: enqueue_to_end.simps)

lemma enqueue_remaining_copy: "enqueue_remaining obj (i + m) (mem, idx, i) = copy_n m obj (mem, idx, i)"
proof (induction m arbitrary: mem idx i)
  case (Suc m)
  show ?case using Suc.IH [of "Suc i" "mem[idx := obj ! i]" "Suc idx"]
    by (subst enqueue_remaining.simps) (simp add: copy_one_def)
qed (simp add: enqueue_remaining.simps)

lemma dequeue_to_end_copy: "dequeue_to_end mem (idx + m) (obj, i, idx) = copy_n m mem (obj, i, idx)"
proof (induction m arbitrary: obj idx i)
  case (Suc m)
  show ?case using Suc.IH [of "Suc idx" "obj[i := mem ! idx]" "Suc i"]
    by (subst dequeue_to_end.simps) (simp add: copy_one_def)
qed (simp add: dequeue_to_end.simps)

lemma dequeue_remaining_copy: "dequeue_remaining mem (i + m) (obj, i, idx) = copy_n m mem (obj, i, idx)"
proof (induction m arbitrary: obj idx i)
  case (Suc m)
  show ?case using Suc.IH [of "Suc i" "obj[i := mem ! idx]" "Suc idx"]
    by (subst dequeue_remaining.simps) (simp add: copy_one_def)
qed (simp add: dequeue_remaining.simps)

lemma unat_and_3: "unat (n AND 3 :: u32) = unat n mod 4"
proof -
  have "n AND 3 = take_bit 2 n" by (simp add: take_bit_eq_mask mask_eq_exp_minus_1)
  then show ?thesis by (simp only: unsigned_take_bit_eq) (simp add: take_bit_eq_mod)
qed

lemma unat_and_not_3: "unat (n AND NOT 3 :: u32) = 4 * (unat n div 4)"
proof -
  have "(n AND NOT 3) + (n AND 3) = (n AND NOT 3) OR (n AND 3)"
    by (rule disjunctive_add) (simp add: bit_simps)
  also have "\<dots> = n" by (rule bit_word_eqI) (auto simp: bit_simps)
  finally have "n AND NOT 3 = n - (n AND 3)" by (simp add: eq_diff_eq)
  moreover have "n AND 3 \<le> n" by (simp add: word_and_le2)
  ultimately have "unat (n AND NOT 3) = unat n - unat n mod 4"
    by (simp add: unat_sub unat_and_3)
  then show ?thesis by (simp add: minus_mod_eq_mult_div)
qed

lemma unat_and_minus_4: "unat (n AND - 4 :: u32) = 4 * (unat n div 4)"
  using unat_and_not_3 [of n] by simp

text \<open>Both copies by fours and the rest by the switch move \<open>n\<close> objects.\<close>

lemma copy_fours_and_rest:
  "copy_n (unat n mod 4) src (copy_n (4 * (unat n div 4)) src st) = copy_n (unat n) src st"
  for n :: u32
  using copy_n_add [of "4 * (unat n div 4)" "unat n mod 4" src st] by simp

section \<open>Positions in the ring\<close>

text \<open>A ring of \<open>S\<close> slots, a power of two that a 32-bit index can be masked to.\<close>

definition ring_shape :: "nat \<Rightarrow> 'a llring \<Rightarrow> bool" where
  "ring_shape S r \<longleftrightarrow>
     (\<exists>k\<le>31. S = 2 ^ k) \<and> unat (ring_slots r) = S \<and> ring_mask r = ring_slots r - 1 \<and>
     length (ring r) = S"

lemma ring_shapeD:
  assumes "ring_shape S r"
  shows "0 < S" "S \<le> 2 ^ 31" "S dvd 2 ^ 32" "unat (ring_slots r) = S" "length (ring r) = S"
    "unat (ring_mask r) = S - 1" "unat (h AND ring_mask r) = unat h mod S"
proof -
  from assms obtain k where k: "k \<le> 31" "S = 2 ^ k" and u: "unat (ring_slots r) = S"
    and m: "ring_mask r = ring_slots r - 1" and l: "length (ring r) = S"
    by (auto simp: ring_shape_def)
  show "0 < S" "unat (ring_slots r) = S" "length (ring r) = S" by (simp_all add: k u l)
  show "S \<le> 2 ^ 31" unfolding k(2) by (rule power_increasing) (use k in auto)
  show "S dvd 2 ^ 32" unfolding k(2) by (rule le_imp_power_dvd) (use k in auto)
  have s: "ring_slots r = 2 ^ k"
    using k u unat_pow2 [of k, where 'a = 32] by (simp add: word_unat_eq_iff)
  show "unat (ring_mask r) = S - 1"
    using u \<open>0 < S\<close> unfolding m by (metis unat_minus_one gr_implies_not0 unat_0)
  have "h AND ring_mask r = take_bit k h"
    by (simp add: m s take_bit_eq_mask mask_eq_exp_minus_1)
  then show "unat (h AND ring_mask r) = unat h mod S"
    by (simp only: unsigned_take_bit_eq) (simp add: take_bit_eq_mod k)
qed

lemma mod_window: "a mod S = b mod S \<Longrightarrow> a \<le> b \<Longrightarrow> b < a + S \<Longrightarrow> a = b" for a b S :: nat
proof -
  assume a: "a mod S = b mod S" "a \<le> b" "b < a + S"
  then have "S dvd b - a" using mod_eq_dvd_iff_nat [of a b S] by simp
  moreover have "b - a < S" using a by linarith
  ultimately have "b - a = 0" by (metis nat_dvd_not_less not_gr0)
  with a(2) show "a = b" by simp
qed

lemma mod_add_two: "q < S \<Longrightarrow> i < S \<Longrightarrow> (q + i) mod S = (if q + i < S then q + i else q + i - S)"
  for q i S :: nat
  by (simp add: le_mod_geq)

lemma mod_add_small: "(h + i) mod S = (if h mod S + i < S then h mod S + i else h mod S + i - S)"
  if "i < S" for h i S :: nat
  using mod_add_two [of "h mod S" S i] that by (simp add: mod_add_left_eq)

lemma ENQUEUE_PTRS_ring:
  fixes h n :: u32 and obj :: "'a list"
  assumes sh: "ring_shape S r" and n: "unat n < S"
  defines "mem \<equiv> ring (LLRING_ENQUEUE_PTRS h n obj r)"
  shows "LLRING_ENQUEUE_PTRS h n obj r = r\<lparr>ring := mem\<rparr>" "length mem = S"
    and "i < unat n \<Longrightarrow> mem ! ((unat h + i) mod S) = obj ! i"
    and "j < S \<Longrightarrow> (\<And>i. i < unat n \<Longrightarrow> j \<noteq> (unat h + i) mod S) \<Longrightarrow> mem ! j = ring r ! j"
proof -
  note D = ring_shapeD [OF sh]
  define p where "p = unat h mod S"
  have p: "p < S" "unat (h AND ring_mask r) = p" using D by (simp_all add: p_def)
  have "unat ((h AND ring_mask r) + n) = p + unat n"
    using p n D(2) by (subst unat_add_lem [THEN iffD1]) auto
  then have c: "(h AND ring_mask r) + n < ring_slots r \<longleftrightarrow> p + unat n < S"
    by (simp add: word_less_nat_alt D)
  show eq: "LLRING_ENQUEUE_PTRS h n obj r = r\<lparr>ring := mem\<rparr>"
    unfolding mem_def LLRING_ENQUEUE_PTRS_def Let_def by (simp split: prod.splits)
  have mem: "mem = (if p + unat n < S then fst (copy_n (unat n) obj (ring r, p, 0))
      else fst (copy_n (unat n - (S - p)) obj (fst (copy_n (S - p) obj (ring r, p, 0)), 0, S - p)))"
  proof (cases "p + unat n < S")
    case True
    then show ?thesis
      using enqueue_quads_copy [of obj 0 "unat n div 4" "ring r" p]
        copy_switch_copy [of "unat n mod 4" obj] copy_fours_and_rest [of n obj "(ring r, p, 0)"]
      by (simp add: mem_def LLRING_ENQUEUE_PTRS_def Let_def c p(2) unat_and_3 unat_and_minus_4)
  next
    case False
    then have n': "unat n = (S - p) + (unat n - (S - p))" using p by simp
    have "enqueue_to_end obj S (ring r, p, 0) = (fst (copy_n (S - p) obj (ring r, p, 0)), S, S - p)"
      using enqueue_to_end_copy [of obj p "S - p" "ring r" 0]
        copy_n_eq [of "S - p" obj "ring r" p 0] p by simp
    with False show ?thesis
      using enqueue_remaining_copy [of obj "S - p" "unat n - (S - p)" _ 0] n'
      by (simp add: mem_def LLRING_ENQUEUE_PTRS_def Let_def c p(2) D(4))
  qed
  show "length mem = S" using D(5) by (simp add: mem copy_n_length)
  have nth: "mem ! j = (if p \<le> j \<and> j < p + unat n then obj ! (j - p)
      else if j + S < p + unat n then obj ! (S + j - p) else ring r ! j)" if "j < S" for j
    using that D(5) p n unfolding mem
    by (auto simp: copy_n_nth copy_n_length)
  show "mem ! ((unat h + i) mod S) = obj ! i" if "i < unat n"
    using that n nth [of "(unat h + i) mod S"] mod_add_small [of i S "unat h"] p D(1)
    by (auto simp: p_def [symmetric])
  show "mem ! j = ring r ! j" if j: "j < S" and ne: "\<And>i. i < unat n \<Longrightarrow> j \<noteq> (unat h + i) mod S"
  proof -
    have "\<not> (p \<le> j \<and> j < p + unat n)"
    proof
      assume a: "p \<le> j \<and> j < p + unat n"
      then obtain i where "j = p + i" using le_Suc_ex by blast
      then show False
        using ne [of i] n a j mod_add_small [of i S "unat h"] by (simp add: p_def [symmetric])
    qed
    moreover have "\<not> j + S < p + unat n"
    proof
      assume a: "j + S < p + unat n"
      obtain i where i: "j + S = p + i" using p(1) by (metis le_add2 le_Suc_ex le_trans less_imp_le)
      then show False
        using ne [of i] n a j p(1) mod_add_small [of i S "unat h"] by (simp add: p_def [symmetric])
    qed
    ultimately show ?thesis using nth [OF j] by presburger
  qed
qed

lemma DEQUEUE_PTRS_obj:
  fixes h n :: u32 and obj :: "'a list"
  assumes sh: "ring_shape S r" and n: "unat n < S" and l: "unat n \<le> length obj"
  shows "length (LLRING_DEQUEUE_PTRS h n obj r) = length obj"
    and "i < length obj \<Longrightarrow> LLRING_DEQUEUE_PTRS h n obj r ! i =
      (if i < unat n then ring r ! ((unat h + i) mod S) else obj ! i)"
proof -
  note D = ring_shapeD [OF sh]
  define p where "p = unat h mod S"
  have p: "p < S" "unat (h AND ring_mask r) = p" using D by (simp_all add: p_def)
  have "unat ((h AND ring_mask r) + n) = p + unat n"
    using p n D(2) by (subst unat_add_lem [THEN iffD1]) auto
  then have c: "(h AND ring_mask r) + n < ring_slots r \<longleftrightarrow> p + unat n < S"
    by (simp add: word_less_nat_alt D)
  have obj: "LLRING_DEQUEUE_PTRS h n obj r =
      (if p + unat n < S then fst (copy_n (unat n) (ring r) (obj, 0, p))
       else fst (copy_n (unat n - (S - p)) (ring r)
              (fst (copy_n (S - p) (ring r) (obj, 0, p)), S - p, 0)))"
  proof (cases "p + unat n < S")
    case True
    then show ?thesis
      using dequeue_quads_copy [of "ring r" 0 "unat n div 4" obj p]
        copy_switch_copy [of "unat n mod 4" "ring r"] copy_fours_and_rest [of n "ring r" "(obj, 0, p)"]
      by (simp add: LLRING_DEQUEUE_PTRS_def Let_def c p(2) unat_and_3 unat_and_minus_4)
  next
    case False
    then have n': "unat n = (S - p) + (unat n - (S - p))" using p by simp
    have "dequeue_to_end (ring r) S (obj, 0, p) = (fst (copy_n (S - p) (ring r) (obj, 0, p)), S - p, S)"
      using dequeue_to_end_copy [of "ring r" p "S - p" obj 0]
        copy_n_eq [of "S - p" "ring r" obj 0 p] p by simp
    with False show ?thesis
      using dequeue_remaining_copy [of "ring r" "S - p" "unat n - (S - p)" _ 0] n'
      by (simp add: LLRING_DEQUEUE_PTRS_def Let_def c p(2) D(4))
  qed
  show "length (LLRING_DEQUEUE_PTRS h n obj r) = length obj" by (simp add: obj copy_n_length)
  show "LLRING_DEQUEUE_PTRS h n obj r ! i =
      (if i < unat n then ring r ! ((unat h + i) mod S) else obj ! i)" if "i < length obj"
    using that n p(1) mod_add_small [of i S "unat h"] unfolding obj
    by (auto simp: copy_n_nth copy_n_length p_def [symmetric] add.commute)
qed

section \<open>The ring as a list\<close>

definition ring_len :: "'a llring \<Rightarrow> nat" where
  "ring_len r = unat (prod_tail r - cons_tail r)"

definition ring_contents :: "'a llring \<Rightarrow> 'a list" where
  "ring_contents r =
     map (\<lambda>i. ring r ! ((unat (cons_tail r) + i) mod length (ring r))) [0..<ring_len r]"

definition ring_inv :: "'a llring \<Rightarrow> bool" where
  "ring_inv r \<longleftrightarrow>
     ring_shape (length (ring r)) r \<and> prod_head r = prod_tail r \<and> cons_head r = cons_tail r \<and>
     ring_len r < length (ring r)"

definition ring_room :: "'a llring \<Rightarrow> nat" where
  "ring_room r = length (ring r) - 1 - ring_len r"

lemma length_ring_contents [simp]: "length (ring_contents r) = ring_len r"
  by (simp add: ring_contents_def)

lemma nth_ring_contents:
  "i < ring_len r \<Longrightarrow> ring_contents r ! i = ring r ! ((unat (cons_tail r) + i) mod length (ring r))"
  by (simp add: ring_contents_def)

lemma unat_add_mod:
  assumes "S dvd 2 ^ 32"
  shows "(unat (a + b :: u32) + i) mod S = (unat a + unat b + i) mod S"
proof -
  have "(unat (a + b) + i) mod S = ((unat a + unat b) mod 2 ^ 32 mod S + i) mod S"
    by (simp add: unat_word_ariths mod_add_left_eq)
  also have "\<dots> = ((unat a + unat b) mod S + i) mod S"
    by (simp only: mod_mod_cancel [OF assms])
  finally show ?thesis by (simp add: mod_add_left_eq)
qed

lemma free_entries_room:
  assumes "ring_inv r"
  shows "unat (ring_mask r + cons_tail r - prod_head r) = ring_room r"
proof -
  from assms have sh: "ring_shape (length (ring r)) r" and ph: "prod_head r = prod_tail r"
    and l: "ring_len r < length (ring r)" by (simp_all add: ring_inv_def)
  have "prod_tail r - cons_tail r \<le> ring_mask r"
    using l ring_shapeD(6) [OF sh] by (simp add: word_le_nat_alt ring_len_def)
  from unat_sub [OF this] show ?thesis
    using ring_shapeD(6) [OF sh] by (simp add: ph ring_room_def ring_len_def diff_diff_eq2)
qed

definition same_ring :: "'a llring \<Rightarrow> 'a llring \<Rightarrow> bool" where
  "same_ring r r' \<longleftrightarrow>
     length (ring r') = length (ring r) \<and> watermark r' = watermark r \<and>
     sp_enqueue r' = sp_enqueue r \<and> sc_dequeue r' = sc_dequeue r"

lemma enqueue_contents:
  assumes inv: "ring_inv r" and n: "unat n \<le> ring_room r" and l: "unat n \<le> length obj"
  defines "h \<equiv> prod_head r"
  defines "r' \<equiv> (LLRING_ENQUEUE_PTRS h n obj (r\<lparr>prod_head := h + n\<rparr>))\<lparr>prod_tail := h + n\<rparr>"
  shows "ring_inv r' \<and> ring_contents r' = ring_contents r @ take (unat n) obj \<and> same_ring r r'"
proof -
  let ?S = "length (ring r)"
  let ?r1 = "r\<lparr>prod_head := h + n\<rparr>"
  from inv have sh: "ring_shape ?S r" and pt: "prod_tail r = h" and ch: "cons_head r = cons_tail r"
    and len: "ring_len r < ?S" by (simp_all add: ring_inv_def h_def)
  have sh1: "ring_shape ?S ?r1" using sh by (simp add: ring_shape_def)
  have nb: "ring_len r + unat n < ?S" using n len unfolding ring_room_def by linarith
  then have nS: "unat n < ?S" by simp
  note E = ENQUEUE_PTRS_ring [OF sh1 nS, where h = h and obj = obj]
  define mem where "mem = ring (LLRING_ENQUEUE_PTRS h n obj ?r1)"
  note E = E [folded mem_def]
  have r': "r' = r\<lparr>prod_head := h + n, prod_tail := h + n, ring := mem\<rparr>"
    unfolding r'_def E(1) by simp
  have len': "ring_len r' = ring_len r + unat n"
  proof -
    have "unat (h - cons_tail r) + unat n < 2 ^ LENGTH(32)"
      using n len ring_shapeD(2) [OF sh] by (simp add: ring_len_def ring_room_def pt)
    from unat_add_lem [THEN iffD1, OF this] show ?thesis
      by (simp add: r' ring_len_def pt diff_add_eq)
  qed
  have hm: "(unat h + i) mod ?S = (unat (cons_tail r) + ring_len r + i) mod ?S" for i
    using unat_add_mod [OF ring_shapeD(3) [OF sh], of "cons_tail r" "h - cons_tail r" i]
    by (simp add: ring_len_def pt)
  have "ring_contents r' ! i = (ring_contents r @ take (unat n) obj) ! i" if i: "i < ring_len r'" for i
  proof (cases "i < ring_len r")
    case True
    have "(unat (cons_tail r) + i) mod ?S \<noteq> (unat h + k) mod ?S" if "k < unat n" for k
      using mod_window [of "unat (cons_tail r) + i" ?S "unat (cons_tail r) + ring_len r + k"]
        True that nb unfolding hm by auto
    then have "mem ! ((unat (cons_tail r) + i) mod ?S) = ring r ! ((unat (cons_tail r) + i) mod ?S)"
      using E(4) [OF mod_less_divisor [OF ring_shapeD(1) [OF sh]]] by auto
    then show ?thesis
      using True i E(2) by (simp add: nth_ring_contents nth_append) (simp add: r')
  next
    case False
    then obtain k where k: "i = ring_len r + k" "k < unat n"
      using i len' le_Suc_ex [of "ring_len r" i] by auto
    then have "mem ! ((unat (cons_tail r) + i) mod ?S) = obj ! k"
      using E(3) [of k] hm [of k] by (simp add: add.assoc)
    then show ?thesis
      using k i E(2) l by (simp add: nth_ring_contents nth_append) (simp add: r')
  qed
  then have "ring_contents r' = ring_contents r @ take (unat n) obj"
    using len' l by (intro nth_equalityI) simp_all
  moreover have "ring_inv r'"
    using sh ch len len' n E(2) by (simp add: ring_inv_def ring_shape_def r' ring_room_def)
  ultimately show ?thesis using E(2) by (simp add: same_ring_def r')
qed

lemma dequeue_contents:
  assumes inv: "ring_inv r" and n: "unat n \<le> ring_len r" and l: "unat n \<le> length obj"
  defines "h \<equiv> cons_head r"
  defines "r' \<equiv> r\<lparr>cons_head := h + n, cons_tail := h + n\<rparr>"
  shows "ring_inv r' \<and> ring_contents r' = drop (unat n) (ring_contents r) \<and> same_ring r r'"
    and "LLRING_DEQUEUE_PTRS h n obj (r\<lparr>cons_head := h + n\<rparr>) =
      take (unat n) (ring_contents r) @ drop (unat n) obj"
proof -
  let ?S = "length (ring r)"
  let ?r1 = "r\<lparr>cons_head := h + n\<rparr>"
  from inv have sh: "ring_shape ?S r" and ct: "cons_tail r = h" and ph: "prod_head r = prod_tail r"
    and len: "ring_len r < ?S" by (simp_all add: ring_inv_def h_def)
  have sh1: "ring_shape ?S ?r1" using sh by (simp add: ring_shape_def)
  have nS: "unat n < ?S" using n len by simp
  note D = DEQUEUE_PTRS_obj [OF sh1 nS l, where h = h]
  have len': "ring_len r' = ring_len r - unat n"
  proof -
    have "n \<le> prod_tail r - h" using n by (simp add: ring_len_def ct word_le_nat_alt)
    from unat_sub [OF this] show ?thesis
      by (simp add: r'_def ring_len_def ct diff_diff_eq)
  qed
  have "(unat (h + n) + i) mod ?S = (unat h + (unat n + i)) mod ?S" for i
    using unat_add_mod [OF ring_shapeD(3) [OF sh], of h n i] by (simp add: add.assoc)
  then have "ring_contents r' = drop (unat n) (ring_contents r)"
    using n len' by (intro nth_equalityI) (simp_all add: nth_ring_contents, simp add: r'_def ct)
  moreover have "ring_inv r'"
    using sh ph len len' by (simp add: ring_inv_def ring_shape_def r'_def)
  ultimately show "ring_inv r' \<and> ring_contents r' = drop (unat n) (ring_contents r) \<and> same_ring r r'"
    by (simp add: same_ring_def r'_def)
  show "LLRING_DEQUEUE_PTRS h n obj (r\<lparr>cons_head := h + n\<rparr>) =
      take (unat n) (ring_contents r) @ drop (unat n) obj"
    using D l n by (intro nth_equalityI) (auto simp: nth_append nth_ring_contents ct)
qed

section \<open>The operations\<close>

text \<open>How many objects move.\<close>

definition moved :: "llring_queue_behavior \<Rightarrow> nat \<Rightarrow> nat \<Rightarrow> nat" where
  "moved behavior n room =
     (if n \<le> room then n else if behavior = LLRING_QUEUE_FIXED then 0 else room)"

text \<open>
  The answers. The code compares the water mark with one more than the objects in the ring, so the
  quota answer comes when the mark is reached; its comments say when it is exceeded.
\<close>

definition enqueue_answer :: "llring_queue_behavior \<Rightarrow> nat \<Rightarrow> 'a llring \<Rightarrow> int" where
  "enqueue_answer behavior n r =
     (let room = ring_room r; k = moved behavior n room
      in if n > room \<and> behavior = LLRING_QUEUE_FIXED then - LLRING_ERR_NOBUF
         else if n > room \<and> room = 0 then 0
         else if ring_len r + k \<ge> unat (watermark r)
         then if behavior = LLRING_QUEUE_FIXED then - LLRING_ERR_QUOT
              else sint (of_nat k OR RING_QUOT_EXCEED)
         else if behavior = LLRING_QUEUE_FIXED then 0 else int k)"

definition dequeue_answer :: "llring_queue_behavior \<Rightarrow> nat \<Rightarrow> 'a llring \<Rightarrow> int" where
  "dequeue_answer behavior n r =
     (if behavior = LLRING_QUEUE_FIXED
      then if n > ring_len r then - LLRING_ERR_NOENT else 0
      else int (moved behavior n (ring_len r)))"

lemma sint_small: "unat n < 2 ^ 31 \<Longrightarrow> sint (n :: u32) = int (unat n)"
proof -
  assume "unat n < 2 ^ 31"
  then have "int (unat n) < int (2 ^ 31)" by (simp only: of_nat_less_iff)
  then have "uint n < 2 ^ 31" by simp
  then have "signed_take_bit 31 (uint n) = uint n"
    using uint_ge_0 [of n] by (intro signed_take_bit_int_eq_self) (simp_all add: order_trans [of _ 0])
  then show ?thesis by (simp add: sint_uint)
qed

lemma room_check_cases:
  fixes n room :: u32
  shows "unat n \<le> unat room \<and> room_check err b n room = Inr n \<or>
    unat n > unat room \<and> b = LLRING_QUEUE_FIXED \<and> room_check err b n room = Inl (- err) \<or>
    unat n > unat room \<and> b = LLRING_QUEUE_VARIABLE \<and> room = 0 \<and> room_check err b n room = Inl 0 \<or>
    unat n > unat room \<and> b = LLRING_QUEUE_VARIABLE \<and> room \<noteq> 0 \<and> room_check err b n room = Inr room"
  by (cases b) (auto simp: room_check_def word_less_nat_alt)

lemma watermark_test:
  assumes inv: "ring_inv r" and n: "unat n \<le> ring_room r"
    and f: "unat f = ring_room r"
  shows "ring_mask r + 1 - f + n > w \<longleftrightarrow> ring_len r + unat n \<ge> unat w"
proof -
  from inv have sh: "ring_shape (length (ring r)) r" and l: "ring_len r < length (ring r)"
    by (simp_all add: ring_inv_def)
  have m: "ring_mask r + 1 = ring_slots r" using sh by (simp add: ring_shape_def)
  have fS: "f \<le> ring_slots r"
    using f ring_shapeD(4) [OF sh] l by (simp add: word_le_nat_alt ring_room_def)
  have a: "unat (ring_slots r - f) = Suc (ring_len r)"
    using unat_sub [OF fS] f ring_shapeD(4) [OF sh] l by (simp add: ring_room_def)
  have "unat (ring_slots r - f) + unat n < 2 ^ LENGTH(32)"
    using a n l ring_shapeD(2) [OF sh] by (simp add: ring_room_def)
  from unat_add_lem [THEN iffD1, OF this] have "unat (ring_slots r - f + n) = Suc (ring_len r + unat n)"
    using a by simp
  then show ?thesis unfolding m by (auto simp: word_less_nat_alt)
qed

lemma room_bound: "ring_inv r \<Longrightarrow> ring_room r < 2 ^ 31 \<and> ring_len r < 2 ^ 31"
  using ring_shapeD(2) [of "length (ring r)" r] by (auto simp: ring_inv_def ring_room_def)

lemma enqueue_ret_eq:
  assumes inv: "ring_inv r" and n: "unat n \<le> ring_room r" and f: "unat f = ring_room r"
    and r1: "watermark r1 = watermark r" "ring_mask r1 = ring_mask r"
  shows "enqueue_ret b f n r1 =
    (if ring_len r + unat n \<ge> unat (watermark r)
     then if b = LLRING_QUEUE_FIXED then - LLRING_ERR_QUOT else sint (n OR RING_QUOT_EXCEED)
     else if b = LLRING_QUEUE_FIXED then 0 else int (unat n))"
  using watermark_test [OF inv n f, of "watermark r"] sint_small [of n] n room_bound [OF inv]
  by (simp add: enqueue_ret_def r1)

lemma ENQUEUE_PTRS_fields [simp]:
  "watermark (LLRING_ENQUEUE_PTRS h n obj r) = watermark r"
  "ring_mask (LLRING_ENQUEUE_PTRS h n obj r) = ring_mask r"
  "prod_tail (LLRING_ENQUEUE_PTRS h n obj r) = prod_tail r"
  by (auto simp: LLRING_ENQUEUE_PTRS_def Let_def split: prod.splits)

lemma same_ring_refl [simp]: "same_ring r r"
  by (simp add: same_ring_def)

text \<open>The common part of both enqueues once \<open>n\<close> objects are known to fit.\<close>

lemma sp_do_enqueue_post:
  assumes inv: "ring_inv r" and l: "unat n \<le> length obj"
  shows "\<exists>r'. llring_sp_do_enqueue obj n b r = (r', enqueue_answer b (unat n) r) \<and> ring_inv r' \<and>
    ring_contents r' = ring_contents r @ take (moved b (unat n) (ring_room r)) obj \<and> same_ring r r'"
proof -
  let ?f = "ring_mask r + cons_tail r - prod_head r"
  note f = free_entries_room [OF inv]
  have fits: "\<exists>r'. (let next = prod_head r + k; r = r\<lparr>prod_head := next\<rparr>;
           r = LLRING_ENQUEUE_PTRS (prod_head r0) k obj r; ret = enqueue_ret b ?f k r
       in (r\<lparr>prod_tail := next\<rparr>, ret)) = (r', enqueue_answer b (unat n) r0) \<and> ring_inv r' \<and>
     ring_contents r' = ring_contents r0 @ take (unat k) obj \<and> same_ring r0 r'"
    if "r0 = r" "unat k \<le> ring_room r" "unat k = moved b (unat n) (ring_room r)"
      "\<not> (unat n > ring_room r \<and> b = LLRING_QUEUE_FIXED)" "\<not> (unat n > ring_room r \<and> ring_room r = 0)"
    for k r0
  proof -
    have kl: "unat k \<le> length obj" using that l by (simp add: moved_def split: if_splits)
    have k: "k = of_nat (moved b (unat n) (ring_room r))" using that(3) by (simp flip: that(3))
    show ?thesis
      using enqueue_contents [OF inv that(2) kl] that(1,3,4,5)
        enqueue_ret_eq [OF inv that(2) f, of "LLRING_ENQUEUE_PTRS (prod_head r) k obj (r\<lparr>prod_head := prod_head r + k\<rparr>)" b]
      by (auto simp: Let_def enqueue_answer_def k [symmetric])
  qed
  from room_check_cases [of n ?f LLRING_ERR_NOBUF b, unfolded f] show ?thesis
  proof (elim disjE conjE)
    assume "unat n \<le> ring_room r" "room_check LLRING_ERR_NOBUF b n ?f = Inr n"
    then show ?thesis using fits [of r n]
      by (simp add: llring_sp_do_enqueue_def Let_def moved_def)
  next
    assume "ring_room r < unat n" "b = LLRING_QUEUE_VARIABLE" "?f \<noteq> 0"
      "room_check LLRING_ERR_NOBUF b n ?f = Inr ?f"
    moreover have "ring_room r \<noteq> 0" using f \<open>?f \<noteq> 0\<close> by (metis unat_eq_zero)
    ultimately show ?thesis using fits [of r ?f] f
      by (simp add: llring_sp_do_enqueue_def Let_def moved_def)
  qed (use inv f in \<open>auto simp: llring_sp_do_enqueue_def Let_def enqueue_answer_def moved_def\<close>)
qed

lemma entries_len: "ring_inv r \<Longrightarrow> unat (prod_tail r - cons_head r) = ring_len r"
  by (simp add: ring_inv_def ring_len_def)

lemma sc_do_dequeue_post:
  fixes b :: llring_queue_behavior
  assumes inv: "ring_inv r" and l: "unat n \<le> length obj"
  defines "k \<equiv> moved b (unat n) (ring_len r)"
  shows "\<exists>r'. llring_sc_do_dequeue obj n b r =
      (r', take k (ring_contents r) @ drop k obj, dequeue_answer b (unat n) r) \<and> ring_inv r' \<and>
    ring_contents r' = drop k (ring_contents r) \<and> same_ring r r'"
proof -
  let ?e = "prod_tail r - cons_head r"
  note e = entries_len [OF inv]
  have fits: "\<exists>r'. (let next = cons_head r + j; r = r\<lparr>cons_head := next\<rparr>;
          obj = LLRING_DEQUEUE_PTRS (cons_head r0) j obj r
      in (r\<lparr>cons_tail := next\<rparr>, obj, if b = LLRING_QUEUE_FIXED then 0 else sint j)) =
        (r', take k (ring_contents r0) @ drop k obj, dequeue_answer b (unat n) r0) \<and> ring_inv r' \<and>
      ring_contents r' = drop k (ring_contents r0) \<and> same_ring r0 r'"
    if "r0 = r" "unat j \<le> ring_len r" "unat j = k" "\<not> (unat n > ring_len r \<and> b = LLRING_QUEUE_FIXED)"
    for j r0
  proof -
    have "unat j \<le> length obj" using that l by (simp add: k_def moved_def split: if_splits)
    note D = dequeue_contents [OF inv that(2) this]
    have "sint j = int k" using sint_small [of j] that(2,3) room_bound [OF inv] by simp
    then show ?thesis
      using D that(1,3,4) by (auto simp: Let_def dequeue_answer_def k_def)
  qed
  from room_check_cases [of n ?e LLRING_ERR_NOENT b, unfolded e] show ?thesis
  proof (elim disjE conjE)
    assume a: "unat n \<le> ring_len r" "room_check LLRING_ERR_NOENT b n ?e = Inr n"
    then have "unat n = k" "\<not> (unat n > ring_len r \<and> b = LLRING_QUEUE_FIXED)"
      by (simp_all add: k_def moved_def)
    from fits [OF refl a(1) this] show ?thesis
      by (simp only: llring_sc_do_dequeue_def Let_def a(2) sum.case)
  next
    assume a: "ring_len r < unat n" "b = LLRING_QUEUE_VARIABLE"
      "room_check LLRING_ERR_NOENT b n ?e = Inr ?e"
    then have "unat ?e \<le> ring_len r" "unat ?e = k" "\<not> (unat n > ring_len r \<and> b = LLRING_QUEUE_FIXED)"
      by (simp_all add: k_def moved_def e)
    from fits [OF refl this] show ?thesis
      by (simp only: llring_sc_do_dequeue_def Let_def a(3) sum.case)
  qed (use inv e in \<open>auto simp: llring_sc_do_dequeue_def Let_def dequeue_answer_def k_def moved_def\<close>)
qed

text \<open>Run alone, the multi-producer and multi-consumer functions do what the others do.\<close>

lemma mp_do_enqueue_sp:
  assumes "prod_head r = prod_tail r"
  shows "llring_mp_do_enqueue obj n b r = Some (llring_sp_do_enqueue obj n b r)"
  using assms
  by (simp add: llring_mp_do_enqueue_def mp_move_head.simps llring_sp_do_enqueue_def Let_def
      llring_cmpset_prod_head_def split: sum.split)

lemma mc_do_dequeue_sc:
  assumes "cons_head r = cons_tail r"
  shows "llring_mc_do_dequeue obj n b r = Some (llring_sc_do_dequeue obj n b r)"
  using assms
  by (simp add: llring_mc_do_dequeue_def mc_move_head.simps llring_sc_do_dequeue_def Let_def
      llring_cmpset_cons_head_def split: sum.split)

lemmas enqueue_defs = llring_enqueue_def llring_sp_enqueue_def llring_mp_enqueue_def
  llring_enqueue_bulk_def llring_sp_enqueue_bulk_def llring_mp_enqueue_bulk_def
  llring_enqueue_burst_def llring_sp_enqueue_burst_def llring_mp_enqueue_burst_def

lemmas dequeue_defs = llring_dequeue_def llring_sc_dequeue_def llring_mc_dequeue_def
  llring_dequeue_bulk_def llring_sc_dequeue_bulk_def llring_mc_dequeue_bulk_def
  llring_dequeue_burst_def llring_sc_dequeue_burst_def llring_mc_dequeue_burst_def

lemma enqueue_cases:
  assumes "ring_inv r"
  shows "llring_enqueue_bulk obj n r = Some (llring_sp_do_enqueue obj n LLRING_QUEUE_FIXED r)"
    "llring_enqueue_burst obj n r = Some (llring_sp_do_enqueue obj n LLRING_QUEUE_VARIABLE r)"
    "llring_enqueue x r = Some (llring_sp_do_enqueue [x] 1 LLRING_QUEUE_FIXED r)"
  using assms by (simp_all add: enqueue_defs mp_do_enqueue_sp ring_inv_def)

lemma dequeue_cases:
  assumes "ring_inv r"
  shows "llring_dequeue_bulk obj n r = Some (llring_sc_do_dequeue obj n LLRING_QUEUE_FIXED r)"
    "llring_dequeue_burst obj n r = Some (llring_sc_do_dequeue obj n LLRING_QUEUE_VARIABLE r)"
    "llring_dequeue x r = Some (llring_sc_do_dequeue [x] 1 LLRING_QUEUE_FIXED r)"
  using assms by (simp_all add: dequeue_defs mc_do_dequeue_sc ring_inv_def)

section \<open>Observers and initialisation\<close>

lemma llring_count_len:
  assumes "ring_inv r"
  shows "unat (llring_count r) = ring_len r"
  using assms ring_shapeD(7) [of "length (ring r)" r "prod_tail r - cons_tail r"]
  by (simp add: ring_inv_def llring_count_def ring_len_def)

lemma llring_free_count_room:
  assumes inv: "ring_inv r"
  shows "unat (llring_free_count r) = ring_room r"
proof -
  let ?S = "length (ring r)" and ?d = "prod_tail r - cons_tail r"
  from inv have sh: "ring_shape ?S r" and l: "ring_len r < ?S" by (simp_all add: ring_inv_def)
  obtain c where c: "2 ^ 32 = ?S * c" using ring_shapeD(3) [OF sh] by (rule dvdE)
  then obtain c' where c': "c = Suc c'" by (cases c) auto
  have "cons_tail r - prod_tail r - 1 = - 1 - ?d" by simp
  moreover have "unat (- 1 - ?d) = 2 ^ 32 - 1 - ring_len r"
    using unat_sub [of ?d "- 1"] by (simp add: ring_len_def unsigned_minus_1_eq_mask mask_eq_exp_minus_1)
  moreover have "2 ^ 32 - 1 - ring_len r = ring_room r + ?S * c'"
    unfolding c c' ring_room_def using l by simp
  ultimately have u: "unat (cons_tail r - prod_tail r - 1) = ring_room r + ?S * c'" by metis
  have "ring_room r < ?S" using l by (simp add: ring_room_def)
  then have "(ring_room r + ?S * c') mod ?S = ring_room r" by simp
  then show ?thesis
    unfolding llring_free_count_def ring_shapeD(7) [OF sh] u .
qed

lemma llring_full_room: "ring_inv r \<Longrightarrow> llring_full r \<longleftrightarrow> ring_room r = 0"
  using llring_free_count_room [of r]
  by (simp add: llring_full_def llring_free_count_def flip: unat_eq_zero)

lemma llring_empty_len: "llring_empty r \<longleftrightarrow> ring_contents r = []"
  by (auto simp: llring_empty_def ring_len_def unat_eq_zero simp flip: length_0_conv)

lemma llring_init_inv:
  assumes "k \<le> 31" "length mem = 2 ^ k"
  shows "\<exists>r. llring_init z mem (2 ^ k) sp sc = Inr r \<and> ring_inv r \<and> ring_contents r = [] \<and>
    length (ring r) = 2 ^ k \<and> unat (watermark r) = 2 ^ k \<and> sp_enqueue r = sp \<and> sc_dequeue r = sc"
proof -
  have u: "unat (2 ^ k :: u32) = 2 ^ k" using assms(1) by (simp add: unat_pow2)
  with assms pow2_and_pred [of k, where 'a = 32] show ?thesis
    by (auto simp: llring_init_def ring_inv_def ring_shape_def ring_len_def ring_contents_def)
qed

end
