(* ===== verification/Lock_Less_Queue.thy ===== *)
theory Lock_Less_Queue
  imports Llring_Correct
begin

text \<open>
  Model of \<^verbatim>\<open>bess/core/utils/lock_less_queue.h\<close>, the queue class over the ring, and the
  properties of both. The object a pointer argument points to before a pop is an argument
  of the model (\<open>obj\<close>), the null object of zeroed memory is \<open>z\<close>. The allocator of the C library is
  the argument \<open>alloc\<close>: from a size in bytes to the objects that lie in the memory behind the
  structure of the ring, or nothing. A failed \<^verbatim>\<open>CHECK\<close> is \<open>None\<close>; so is, from its creation on, a
  ring whose slots do not lie in its memory, since accesses to them have no defined result.
\<close>

section \<open>Model\<close>

text \<open>What the manual of \<^verbatim>\<open>malloc\<close> and \<^verbatim>\<open>aligned_alloc\<close> promises: no object of 2^63 bytes or more, and the size asked for.\<close>

definition alloc_laws :: "(u64 \<Rightarrow> 'a list option) \<Rightarrow> bool" where
  "alloc_laws alloc \<longleftrightarrow>
     (\<forall>sz mem. alloc sz = Some mem \<longrightarrow> uint sz < 2 ^ 63 \<and> length mem = nat ((uint sz - sizeof_llring) div 8))"

definition ring_in_memory :: "u32 \<Rightarrow> 'a list \<Rightarrow> bool" where
  "ring_in_memory slots mem \<longleftrightarrow> slots \<noteq> 0 \<and> unat slots \<le> length mem"

record 'a lock_less_queue =
  llq_ring :: "'a llring"
  llq_capacity :: u64

definition LockLessQueue ::
  "(u64 \<Rightarrow> 'a list option) \<Rightarrow> 'a \<Rightarrow> u64 \<Rightarrow> bool \<Rightarrow> bool \<Rightarrow> 'a lock_less_queue option" where
  "LockLessQueue alloc z capacity single_producer single_consumer =
     (if capacity AND (capacity - 1) = 0
      then do {
        let ring_sz = of_int (llring_bytes_with_slots (ucast capacity));
        mem \<leftarrow> alloc ring_sz;
        case llring_init z mem (ucast capacity) single_producer single_consumer of
          Inl _ \<Rightarrow> None
        | Inr r \<Rightarrow>
            if ring_in_memory (ucast capacity) mem then Some \<lparr>llq_ring = r, llq_capacity = capacity\<rparr> else None
      }
      else None)"

definition LockLessQueue_Push :: "'a \<Rightarrow> 'a lock_less_queue \<Rightarrow> ('a lock_less_queue \<times> int) option" where
  "LockLessQueue_Push obj q =
     map_option (\<lambda>(r, ret). (q\<lparr>llq_ring := r\<rparr>, ret)) (llring_enqueue obj (llq_ring q))"

definition LockLessQueue_Push_bulk ::
  "'a list \<Rightarrow> u64 \<Rightarrow> 'a lock_less_queue \<Rightarrow> ('a lock_less_queue \<times> int) option" where
  "LockLessQueue_Push_bulk objs count q =
     map_option (\<lambda>(r, ret). (q\<lparr>llq_ring := r\<rparr>, if ret = 0 then sint (ucast count :: u32) else 0))
       (llring_enqueue_bulk objs (ucast count) (llq_ring q))"

definition LockLessQueue_Pop ::
  "'a \<Rightarrow> 'a lock_less_queue \<Rightarrow> ('a lock_less_queue \<times> 'a list \<times> int) option" where
  "LockLessQueue_Pop obj q =
     map_option (\<lambda>(r, obj, ret). (q\<lparr>llq_ring := r\<rparr>, obj, ret)) (llring_dequeue obj (llq_ring q))"

definition LockLessQueue_Pop_bulk ::
  "'a list \<Rightarrow> u64 \<Rightarrow> 'a lock_less_queue \<Rightarrow> ('a lock_less_queue \<times> 'a list \<times> int) option" where
  "LockLessQueue_Pop_bulk objs count q =
     map_option (\<lambda>(r, objs, ret).
         (q\<lparr>llq_ring := r\<rparr>, objs, if ret = 0 then sint (ucast count :: u32) else 0))
       (llring_dequeue_bulk objs (ucast count) (llq_ring q))"

definition LockLessQueue_Capacity :: "'a lock_less_queue \<Rightarrow> u64" where
  "LockLessQueue_Capacity q = llq_capacity q"


definition LockLessQueue_Empty :: "'a lock_less_queue \<Rightarrow> bool" where
  "LockLessQueue_Empty q = llring_empty (llq_ring q)"

definition LockLessQueue_Full :: "'a lock_less_queue \<Rightarrow> bool" where
  "LockLessQueue_Full q = llring_full (llq_ring q)"



section \<open>Invariant\<close>

text \<open>The class never sets the water mark of its ring.\<close>

definition llq_inv :: "'a lock_less_queue \<Rightarrow> bool" where
  "llq_inv q \<longleftrightarrow>
     ring_inv (llq_ring q) \<and> unat (watermark (llq_ring q)) = length (ring (llq_ring q)) \<and>
     unat (llq_capacity q) = length (ring (llq_ring q))"

definition llq_contents :: "'a lock_less_queue \<Rightarrow> 'a list" where
  "llq_contents q = ring_contents (llq_ring q)"

lemma ucast_pow2: "ucast (2 ^ k :: u64) = (2 ^ k :: u32)"
  by (rule bit_word_eqI) (auto simp: bit_simps)

text \<open>
  The size of a ring of \<open>2 ^ k\<close> slots fits the \<^verbatim>\<open>int\<close> up to \<open>k = 27\<close>; then it is negative, and from
  29 on the size of a ring without slots.
\<close>

lemma bytes_fit: "k \<le> 27 \<Longrightarrow> llring_bytes_with_slots (2 ^ k) = 256 + 8 * 2 ^ k"
proof -
  assume k: "k \<le> 27"
  then have u: "uint (2 ^ k :: u32) = 2 ^ k" by (simp add: uint_nat unat_pow2)
  have "(2 :: int) ^ k \<le> 2 ^ 27" using k by (intro power_increasing) simp_all
  then show ?thesis unfolding llring_bytes_with_slots_def sizeof_llring_def u
    by (intro signed_take_bit_int_eq_self) simp_all
qed


lemma alloc_fits:
  assumes "alloc_laws alloc" "k \<le> 27" "alloc (256 + 8 * 2 ^ k) \<noteq> None"
  shows "\<exists>mem. alloc (of_int (llring_bytes_with_slots (2 ^ k))) = Some mem \<and> length mem = 2 ^ k \<and> ring_in_memory (2 ^ k) mem"
proof -
  obtain mem where mem: "alloc (256 + 8 * 2 ^ k) = Some mem" using assms(3) by blast
  have le: "(2 :: int) ^ k \<le> 2 ^ 27" using assms(2) by (intro power_increasing) simp_all
  have "(256 + 8 * 2 ^ k :: u64) = of_int (256 + 8 * 2 ^ k)" by simp
  then have "uint (256 + 8 * 2 ^ k :: u64) = 256 + 8 * 2 ^ k"
    using le by (simp only: uint_word_of_int) (intro mod_pos_pos_trivial, simp_all)
  then have len: "length mem = 2 ^ k"
    using assms(1) mem by (auto simp: alloc_laws_def sizeof_llring_def nat_power_eq)
  have "(2 ^ k :: u32) \<noteq> 0" "unat (2 ^ k :: u32) = 2 ^ k" using assms(2) unat_pow2 [of k, where 'a = 32] by auto
  then show ?thesis using mem len bytes_fit [OF assms(2)] by (simp add: ring_in_memory_def)
qed


lemma LockLessQueue_inv:
  assumes "alloc_laws alloc" "k \<le> 27" "alloc (256 + 8 * 2 ^ k) \<noteq> None"
  shows "\<exists>q. LockLessQueue alloc z (2 ^ k) sp sc = Some q \<and> llq_inv q \<and> llq_contents q = [] \<and>
    length (ring (llq_ring q)) = 2 ^ k \<and> unat (llq_capacity q) = 2 ^ k"
proof -
  have u: "unat (2 ^ k :: u64) = 2 ^ k" using assms(2) by (simp add: unat_pow2)
  have c: "ucast (2 ^ k :: u64) = (2 ^ k :: u32)" by (rule ucast_pow2)
  obtain mem where mem: "alloc (of_int (llring_bytes_with_slots (2 ^ k))) = Some mem" "length mem = 2 ^ k"
    "ring_in_memory (2 ^ k) mem" using alloc_fits [OF assms] by blast
  have "k \<le> 31" using assms(2) by simp
  then obtain r where "llring_init z mem (2 ^ k) sp sc = Inr r" "ring_inv r" "ring_contents r = []"
    "length (ring r) = 2 ^ k" "unat (watermark r) = 2 ^ k"
    using llring_init_inv [of k mem z sp sc] mem(2) by auto
  then show ?thesis using mem
    by (simp add: LockLessQueue_def pow2_and_pred c llq_inv_def llq_contents_def u)
qed

lemma ring_lenD: "ring_inv r \<Longrightarrow> ring_len r + ring_room r = length (ring r) - 1"
  by (simp add: ring_inv_def ring_room_def)

text \<open>One object in and out of a ring whose water mark is off.\<close>

lemma llring_enqueue_post:
  assumes inv: "ring_inv r" and w: "unat (watermark r) = length (ring r)"
  shows "\<exists>r' ret. llring_enqueue x r = Some (r', ret) \<and> ring_inv r' \<and> same_ring r r' \<and>
    ret = (if ring_room r = 0 then - LLRING_ERR_NOBUF else 0) \<and>
    ring_contents r' = ring_contents r @ (if ring_room r = 0 then [] else [x])"
proof -
  have "ring_room r \<noteq> 0 \<Longrightarrow> ring_len r + 1 < length (ring r)"
    using ring_lenD [OF inv] by linarith
  then show ?thesis
    using sp_do_enqueue_post [OF inv, of 1 "[x]" LLRING_QUEUE_FIXED] enqueue_cases(3) [OF inv, of x] w
    by (auto simp: enqueue_answer_def moved_def Let_def Suc_le_eq)
qed

lemma llring_dequeue_post:
  assumes inv: "ring_inv r"
  shows "\<exists>r' objs ret. llring_dequeue x r = Some (r', objs, ret) \<and> ring_inv r' \<and> same_ring r r' \<and>
    (case ring_contents r of
       [] \<Rightarrow> ret = - LLRING_ERR_NOENT \<and> ring_contents r' = [] \<and> objs = [x]
     | y # ys \<Rightarrow> ret = 0 \<and> ring_contents r' = ys \<and> objs = [y])"
proof -
  obtain r' where r': "llring_dequeue x r = Some (r', take (moved LLRING_QUEUE_FIXED 1 (ring_len r))
        (ring_contents r) @ drop (moved LLRING_QUEUE_FIXED 1 (ring_len r)) [x],
        dequeue_answer LLRING_QUEUE_FIXED 1 r)"
      "ring_inv r'" "ring_contents r' = drop (moved LLRING_QUEUE_FIXED 1 (ring_len r)) (ring_contents r)"
      "same_ring r r'"
    using sc_do_dequeue_post [OF inv, of 1 "[x]" LLRING_QUEUE_FIXED] dequeue_cases(3) [OF inv, of x]
    by auto
  have len: "ring_len r = length (ring_contents r)" by simp
  show ?thesis
  proof (cases "ring_contents r")
    case Nil
    then have "ring_len r = 0" using len by simp
    with r' Nil show ?thesis by (simp add: moved_def dequeue_answer_def)
  next
    case (Cons y ys)
    then have "ring_len r = Suc (length ys)" using len by simp
    with r' Cons show ?thesis by (simp add: moved_def dequeue_answer_def)
  qed
qed

text \<open>The queue as its contract sees it: a push that answers 0 is accepted.\<close>

definition llq_push :: "'a \<Rightarrow> 'a lock_less_queue \<Rightarrow> ('a lock_less_queue \<times> bool) option" where
  "llq_push x q = map_option (\<lambda>(q, ret). (q, ret = 0)) (LockLessQueue_Push x q)"

definition llq_pop :: "'a \<Rightarrow> 'a lock_less_queue \<Rightarrow> ('a lock_less_queue \<times> 'a option) option" where
  "llq_pop z q =
     map_option (\<lambda>(q, obj, ret). (q, if ret = 0 then Some (hd obj) else None)) (LockLessQueue_Pop z q)"

lemma llq_push_post:
  assumes "llq_inv q"
  shows "\<exists>q'. llq_push x q = Some (q', ring_room (llq_ring q) \<noteq> 0) \<and> llq_inv q' \<and>
    llq_contents q' = llq_contents q @ (if ring_room (llq_ring q) \<noteq> 0 then [x] else [])"
proof -
  from assms have inv: "ring_inv (llq_ring q)"
    "unat (watermark (llq_ring q)) = length (ring (llq_ring q))"
    "unat (llq_capacity q) = length (ring (llq_ring q))" by (simp_all add: llq_inv_def)
  obtain r' where "llring_enqueue x (llq_ring q) =
      Some (r', if ring_room (llq_ring q) = 0 then - LLRING_ERR_NOBUF else 0)"
    "ring_inv r'" "same_ring (llq_ring q) r'"
    "ring_contents r' = ring_contents (llq_ring q) @ (if ring_room (llq_ring q) = 0 then [] else [x])"
    using llring_enqueue_post [OF inv(1,2), of x] by blast
  with inv show ?thesis
    by (intro exI [of _ "q\<lparr>llq_ring := r'\<rparr>"]) (simp add: llq_push_def LockLessQueue_Push_def
        llq_inv_def llq_contents_def same_ring_def LLRING_ERR_NOBUF_def)
qed

lemma llq_pop_post:
  assumes "llq_inv q"
  shows "\<exists>q'. llq_pop z q = Some (q', case llq_contents q of [] \<Rightarrow> None | x # _ \<Rightarrow> Some x) \<and>
    llq_inv q' \<and> llq_contents q' = tl (llq_contents q)"
proof -
  from assms have inv: "ring_inv (llq_ring q)"
    "unat (watermark (llq_ring q)) = length (ring (llq_ring q))"
    "unat (llq_capacity q) = length (ring (llq_ring q))" by (simp_all add: llq_inv_def)
  obtain r' objs ret where "llring_dequeue z (llq_ring q) = Some (r', objs, ret)"
    "ring_inv r'" "same_ring (llq_ring q) r'"
    "case ring_contents (llq_ring q) of
       [] \<Rightarrow> ret = - LLRING_ERR_NOENT \<and> ring_contents r' = [] \<and> objs = [z]
     | y # ys \<Rightarrow> ret = 0 \<and> ring_contents r' = ys \<and> objs = [y]"
    using llring_dequeue_post [OF inv(1), of z] by blast
  with inv show ?thesis
    by (intro exI [of _ "q\<lparr>llq_ring := r'\<rparr>"]) (simp add: llq_pop_def LockLessQueue_Pop_def
        llq_inv_def llq_contents_def same_ring_def LLRING_ERR_NOENT_def split: list.splits)
qed

definition llq_bound :: "'a lock_less_queue \<Rightarrow> nat" where
  "llq_bound q = unat (LockLessQueue_Capacity q) - 1"

lemma llq_room: "llq_inv q \<Longrightarrow> ring_room (llq_ring q) \<noteq> 0 \<longleftrightarrow> length (llq_contents q) < llq_bound q"
  by (auto simp: llq_inv_def llq_contents_def ring_room_def llq_bound_def LockLessQueue_Capacity_def)

lemma llq_bound_kept:
  "llq_push x q = Some (q', ok) \<Longrightarrow> llq_bound q' = llq_bound q" "llq_pop z q = Some (q', r) \<Longrightarrow> llq_bound q' = llq_bound q"
  by (auto simp: llq_push_def llq_pop_def LockLessQueue_Push_def LockLessQueue_Pop_def llq_bound_def LockLessQueue_Capacity_def)

interpretation llq: bounded_queue llq_push "llq_pop z" llq_contents llq_inv llq_bound for z
proof
  fix q :: "'a lock_less_queue" and x
  assume "llq_inv q"
  from llq_push_post [OF this] show "\<exists>q' ok. llq_push x q = Some (q', ok) \<and> llq_inv q' \<and>
      llq_contents q' = llq_contents q @ (if ok then [x] else [])" by blast
next
  fix q :: "'a lock_less_queue"
  assume "llq_inv q"
  from llq_pop_post [OF this, of z] obtain q' where "llq_pop z q = Some (q', case llq_contents q of [] \<Rightarrow> None | x # _ \<Rightarrow> Some x)"
    "llq_inv q'" "llq_contents q' = tl (llq_contents q)" by (elim exE conjE)
  then show "\<exists>q' r. llq_pop z q = Some (q', r) \<and> llq_inv q' \<and>
      (case r of None \<Rightarrow> llq_contents q' = [] | Some x \<Rightarrow> \<exists>ds. llq_contents q = ds @ x # llq_contents q')"
    by (cases "llq_contents q") auto
next
  fix q q' :: "'a lock_less_queue" and x ok
  assume a: "llq_inv q" "llq_push x q = Some (q', ok)"
  then show "(ok \<longleftrightarrow> length (llq_contents q) < llq_bound q) \<and> llq_bound q' = llq_bound q"
    using llq_push_post [OF a(1), of x] llq_room [OF a(1)] llq_bound_kept(1) [OF a(2)] by auto
next
  fix q q' :: "'a lock_less_queue" and r
  assume a: "llq_inv q" "llq_pop z q = Some (q', r)"
  then show "r = (case llq_contents q of [] \<Rightarrow> None | x # _ \<Rightarrow> Some x) \<and> llq_contents q' = tl (llq_contents q) \<and>
      llq_bound q' = llq_bound q"
    using llq_pop_post [OF a(1), of z] llq_bound_kept(2) [OF a(2)] by auto
qed

section \<open>Resizing\<close>



section \<open>Properties\<close>

text \<open>A ring of four slots whose indices are about to wrap, holding one object.\<close>

definition example_ring :: "nat llring" where
  "example_ring =
     \<lparr>ring_slots = 4, ring_mask = 3, sp_enqueue = True, sc_dequeue = False, watermark = 4,
      prod_head = 0xFFFFFFFF, prod_tail = 0xFFFFFFFF, cons_head = 0xFFFFFFFE,
      cons_tail = 0xFFFFFFFE, ring = [0, 0, 7, 0]\<rparr>"

lemma example_ring_inv: "ring_inv example_ring"
proof -
  have "\<exists>k\<le>31. Suc (Suc (Suc (Suc 0))) = 2 ^ k" by (rule exI [of _ 2]) simp
  then show ?thesis by (simp add: ring_inv_def ring_shape_def ring_len_def example_ring_def)
qed

lemma example_ring_contents: "ring_contents example_ring = [7]" "ring_room example_ring = 2"
    "ring_len example_ring = 1" "watermark example_ring = 4"
  by (simp_all add: ring_contents_def ring_len_def ring_room_def example_ring_def upt_rec)

text \<open>
  C25. Enqueueing, in single- and multi-producer mode, for every position of the wrapping
  32-bit indices: the ring keeps its invariant and exactly the first \<open>moved\<close> objects are appended
  to its contents in order (all or none for \<^verbatim>\<open>bulk\<close>, as many as fit for \<^verbatim>\<open>burst\<close>). The answer is no
  room, the number or success, or the quota answer when the ring then holds at least as many objects
  as the water mark says; the comments of the code give the quota answer only beyond the mark.
\<close>

theorem llring_enqueue_refines:
  assumes "ring_inv r" and "unat n \<le> length obj"
  shows "(\<exists>r'. llring_enqueue_bulk obj n r = Some (r', enqueue_answer LLRING_QUEUE_FIXED (unat n) r) \<and>
      ring_inv r' \<and> ring_contents r' =
        ring_contents r @ take (moved LLRING_QUEUE_FIXED (unat n) (ring_room r)) obj) \<and>
    (\<exists>r'. llring_enqueue_burst obj n r = Some (r', enqueue_answer LLRING_QUEUE_VARIABLE (unat n) r) \<and>
      ring_inv r' \<and> ring_contents r' =
        ring_contents r @ take (moved LLRING_QUEUE_VARIABLE (unat n) (ring_room r)) obj)"
  using sp_do_enqueue_post [OF assms, of LLRING_QUEUE_FIXED]
    sp_do_enqueue_post [OF assms, of LLRING_QUEUE_VARIABLE]
  by (auto simp: enqueue_cases [OF assms(1)])

theorem llring_enqueue_refines_witness:
  "(\<exists>r'. llring_enqueue_bulk [1, 2, 3] 3 example_ring = Some (r', - 1) \<and> ring_contents r' = [7]) \<and>
   (\<exists>r'. llring_enqueue_burst [1, 2, 3] 3 example_ring = Some (r', 2) \<and> ring_contents r' = [7, 1, 2])"
  using llring_enqueue_refines [OF example_ring_inv, of 3 "[1, 2, 3]"]
  by (auto simp: example_ring_contents enqueue_answer_def moved_def LLRING_ERR_NOBUF_def Let_def)

text \<open>
  C26. Dequeueing, in single- and multi-consumer mode: the first \<open>moved\<close> objects of the contents
  are written to the front of the table in order and leave the ring, the rest of the table
  and of the ring stays, and the answer is the documented one.
\<close>

theorem llring_dequeue_refines:
  assumes "ring_inv r" and "unat n \<le> length obj"
  shows "(\<exists>r'. llring_dequeue_bulk obj n r =
        Some (r', take (moved LLRING_QUEUE_FIXED (unat n) (ring_len r)) (ring_contents r) @
                  drop (moved LLRING_QUEUE_FIXED (unat n) (ring_len r)) obj,
              dequeue_answer LLRING_QUEUE_FIXED (unat n) r) \<and> ring_inv r' \<and>
      ring_contents r' = drop (moved LLRING_QUEUE_FIXED (unat n) (ring_len r)) (ring_contents r)) \<and>
    (\<exists>r'. llring_dequeue_burst obj n r =
        Some (r', take (moved LLRING_QUEUE_VARIABLE (unat n) (ring_len r)) (ring_contents r) @
                  drop (moved LLRING_QUEUE_VARIABLE (unat n) (ring_len r)) obj,
              dequeue_answer LLRING_QUEUE_VARIABLE (unat n) r) \<and> ring_inv r' \<and>
      ring_contents r' = drop (moved LLRING_QUEUE_VARIABLE (unat n) (ring_len r)) (ring_contents r))"
  using sc_do_dequeue_post [OF assms, of LLRING_QUEUE_FIXED]
    sc_do_dequeue_post [OF assms, of LLRING_QUEUE_VARIABLE]
  by (auto simp: dequeue_cases [OF assms(1)])

theorem llring_dequeue_refines_witness:
  "(\<exists>r'. llring_dequeue_burst [0, 0] 2 example_ring = Some (r', [7, 0], 1) \<and> ring_contents r' = []) \<and>
   (\<exists>r'. llring_dequeue_bulk [0, 0] 2 example_ring = Some (r', [0, 0], - 3) \<and> ring_contents r' = [7])"
  using llring_dequeue_refines [OF example_ring_inv, of 2 "[0, 0]"]
  by (auto simp: example_ring_contents dequeue_answer_def moved_def LLRING_ERR_NOENT_def)

text \<open>
  The observers tell the truth about the contents for every position of the indices:
  the number of objects, the free room, emptiness and fullness (one slot stays unused).
\<close>

lemma llring_observers:
  assumes "ring_inv r"
  shows "unat (llring_count r) = length (ring_contents r) \<and>
    unat (llring_free_count r) = length (ring r) - 1 - length (ring_contents r) \<and>
    (llring_empty r \<longleftrightarrow> ring_contents r = []) \<and>
    (llring_full r \<longleftrightarrow> length (ring_contents r) = length (ring r) - 1)"
  using llring_count_len [OF assms] llring_free_count_room [OF assms] llring_empty_len [of r]
    llring_full_room [OF assms] assms
  by (auto simp: ring_room_def ring_inv_def)

text \<open>
  C10. The queue class is a bounded first-in first-out queue: every sequence of pushes and pops
  returns, and every answer is that of the list of the queued objects. A push is accepted at the
  end exactly when there are fewer objects than the capacity less one; a pop returns the first
  object and takes it away, or reports an empty queue.
\<close>

theorem LockLessQueue_fifo:
  assumes "llq_inv q"
  shows "\<exists>q'. queue_run llq_push (llq_pop z) ops q =
      Some (q', snd (fifo_run (unat (LockLessQueue_Capacity q) - 1) ops (llq_contents q))) \<and> llq_inv q' \<and>
    llq_contents q' = fst (fifo_run (unat (LockLessQueue_Capacity q) - 1) ops (llq_contents q))"
  using llq.queue_run_fifo [OF assms, of z ops] by (auto simp: llq_bound_def)

lemma example_queue_inv: "llq_inv \<lparr>llq_ring = example_ring, llq_capacity = 4\<rparr>"
  using example_ring_inv by (simp add: llq_inv_def) (simp add: example_ring_def)

theorem LockLessQueue_fifo_witness:
  "\<exists>q'. queue_run llq_push (llq_pop 0) [PushOp 5, PushOp 6, PushOp 8, PopOp, PopOp, PopOp, PopOp, PushOp 9]
      \<lparr>llq_ring = example_ring, llq_capacity = 4\<rparr> =
     Some (q', [Pushed True, Pushed True, Pushed False, Popped (Some 7), Popped (Some 5), Popped (Some 6), Popped None, Pushed True]) \<and>
     llq_contents q' = [9]"
  using LockLessQueue_fifo [OF example_queue_inv, of 0 "[PushOp 5, PushOp 6, PushOp 8, PopOp, PopOp, PopOp, PopOp, PushOp 9]"]
  by (auto simp: llq_contents_def example_ring_contents LockLessQueue_Capacity_def simp del: queue_run.simps)





end
