(* ===== verification/Checksum.thy ===== *)
theory Checksum
  imports Upf_Prelude
begin

text \<open>
  Model of \<^verbatim>\<open>bess/core/utils/checksum.h\<close>, the Internet checksum of IPv4, UDP and TCP, as
  compiled for x86-64 (little-endian loads, add-with-carry chains), with and without the
  AVX2 block. Buffers are lists of bytes; a header reference is a buffer that starts with
  the header and goes on with what follows it in memory (options, payload).
\<close>

section \<open>Memory and machine operations\<close>

definition load16 :: "u8 list \<Rightarrow> nat \<Rightarrow> u16" where
  "load16 buf i = ucast (buf ! i) + 256 * ucast (buf ! (i + 1))"

definition load32 :: "u8 list \<Rightarrow> nat \<Rightarrow> u32" where
  "load32 buf i = ucast (load16 buf i) + 65536 * ucast (load16 buf (i + 2))"

definition load64 :: "u8 list \<Rightarrow> nat \<Rightarrow> u64" where
  "load64 buf i = ucast (load32 buf i) + 4294967296 * ucast (load32 buf (i + 4))"

definition store16 :: "nat \<Rightarrow> u16 \<Rightarrow> u8 list \<Rightarrow> u8 list" where
  "store16 i w buf = buf[i := ucast w, i + 1 := ucast (drop_bit 8 w)]"

text \<open>\<^verbatim>\<open>be16_t::swap\<close>, and the value of a big-endian field.\<close>

definition swap16 :: "u16 \<Rightarrow> u16" where
  "swap16 w = push_bit 8 w OR drop_bit 8 w"

definition be16_value :: "u8 list \<Rightarrow> nat \<Rightarrow> u16" where
  "be16_value buf i = swap16 (load16 buf i)"

text \<open>
  One add-with-carry on a register and the carry flag, and the chains of the code: an
  addition, additions with carry, and a last one of zero.
\<close>

definition adc :: "'a::len word \<Rightarrow> 'a word \<times> bool \<Rightarrow> 'a word \<times> bool" where
  "adc u st = (let t = unat (fst st) + unat u + of_bool (snd st) in (of_nat t, t \<ge> 2 ^ LENGTH('a)))"

definition adc_chain :: "'a::len word list \<Rightarrow> 'a word \<Rightarrow> 'a word" where
  "adc_chain us s = fst (adc 0 (fold adc us (s, False)))"

section \<open>The generic sum\<close>

text \<open>AVX2 registers: eight 32-bit lanes when loaded, four 64-bit lanes when summed.\<close>

definition mm256_loadu :: "u8 list \<Rightarrow> nat \<Rightarrow> u32 list" where
  "mm256_loadu buf i = map (\<lambda>k. load32 buf (i + 4 * k)) [0..<8]"

definition mm256_unpackhi :: "u32 list \<Rightarrow> u64 list" where
  "mm256_unpackhi a = [ucast (a ! 2), ucast (a ! 3), ucast (a ! 6), ucast (a ! 7)]"

definition mm256_unpacklo :: "u32 list \<Rightarrow> u64 list" where
  "mm256_unpacklo a = [ucast (a ! 0), ucast (a ! 1), ucast (a ! 4), ucast (a ! 5)]"

definition mm256_add :: "u64 list \<Rightarrow> u64 list \<Rightarrow> u64 list" where
  "mm256_add a b = map2 (+) a b"

function avx2_loop ::
  "u8 list \<Rightarrow> nat \<Rightarrow> nat \<Rightarrow> u64 list \<Rightarrow> u64 list \<Rightarrow> u64 list \<Rightarrow> u64 list \<Rightarrow>
     (u64 list \<times> u64 list \<times> u64 list \<times> u64 list) \<times> nat \<times> nat" where
  "avx2_loop buf off len sum_a_hi sum_a_lo sum_b_hi sum_b_lo =
     (if len \<ge> 64
      then let a = mm256_loadu buf off; b = mm256_loadu buf (off + 32)
           in avx2_loop buf (off + 64) (len - 64)
                (mm256_add sum_a_hi (mm256_unpackhi a)) (mm256_add sum_a_lo (mm256_unpacklo a))
                (mm256_add sum_b_hi (mm256_unpackhi b)) (mm256_add sum_b_lo (mm256_unpacklo b))
      else ((sum_a_hi, sum_a_lo, sum_b_hi, sum_b_lo), off, len))"
  by pat_completeness auto
termination
  by (relation "measure (\<lambda>(_, _, len, _). len)") auto

declare avx2_loop.simps [simp del]

definition avx2_sum :: "u8 list \<Rightarrow> nat \<Rightarrow> u64 \<times> nat \<times> nat" where
  "avx2_sum buf len =
     (let a = mm256_loadu buf 0; b = mm256_loadu buf 32;
          ((sum_a_hi, sum_a_lo, sum_b_hi, sum_b_lo), off, len) =
            avx2_loop buf 64 (len - 64) (mm256_unpackhi a) (mm256_unpacklo a)
              (mm256_unpackhi b) (mm256_unpacklo b);
          sum256 = mm256_add (mm256_add sum_a_hi sum_a_lo) (mm256_add sum_b_hi sum_b_lo);
          sum128 = [sum256 ! 0 + sum256 ! 2, sum256 ! 1 + sum256 ! 3]
      in (sum128 ! 0 + sum128 ! 1, off, len))"

function sum_by_8 :: "u8 list \<Rightarrow> u64 \<times> nat \<times> nat \<Rightarrow> u64 \<times> nat \<times> nat" where
  "sum_by_8 buf (sum64, off, len) =
     (if len \<ge> 64
      then sum_by_8 buf
             (adc_chain (map (\<lambda>k. load64 buf (off + 8 * k)) [0..<8]) sum64, off + 64, len - 64)
      else (sum64, off, len))"
  by pat_completeness auto
termination
  by (relation "measure (\<lambda>(_, _, _, len). len)") auto

function sum_by_2 :: "u8 list \<Rightarrow> u64 \<times> nat \<times> nat \<Rightarrow> u64 \<times> nat \<times> nat" where
  "sum_by_2 buf (sum64, off, len) =
     (if len \<ge> 16
      then sum_by_2 buf
             (adc_chain [load64 buf off, load64 buf (off + 8)] sum64, off + 16, len - 16)
      else (sum64, off, len))"
  by pat_completeness auto
termination
  by (relation "measure (\<lambda>(_, _, _, len). len)") auto

function sum_by_u16 :: "u8 list \<Rightarrow> u64 \<times> nat \<times> nat \<Rightarrow> u64 \<times> nat \<times> nat" where
  "sum_by_u16 buf (sum64, off, len) =
     (if len \<ge> 2 then sum_by_u16 buf (sum64 + ucast (load16 buf off), off + 2, len - 2)
      else (sum64, off, len))"
  by pat_completeness auto
termination
  by (relation "measure (\<lambda>(_, _, _, len). len)") auto

declare sum_by_8.simps [simp del] sum_by_2.simps [simp del] sum_by_u16.simps [simp del]

definition CalculateSum :: "bool \<Rightarrow> u8 list \<Rightarrow> nat \<Rightarrow> u32" where
  "CalculateSum avx2 buf len =
     (let odd = (len mod 2 = 1);
          st = (if avx2 \<and> len \<ge> 128 then avx2_sum buf len else (0, 0, len));
          (sum64, off, len) = sum_by_2 buf (sum_by_8 buf st);
          sum64 = drop_bit 32 sum64 + (sum64 AND 0xFFFFFFFF);
          (sum64, off, len) = sum_by_u16 buf (sum64, off, len);
          sum64 = (if odd then sum64 + ucast (buf ! off) else sum64);
          sum64 = drop_bit 32 sum64 + (sum64 AND 0xFFFFFFFF);
          sum64 = sum64 + drop_bit 32 sum64
      in ucast sum64)"

definition FoldChecksum :: "u32 \<Rightarrow> u16" where
  "FoldChecksum cksum =
     (let cksum = drop_bit 16 cksum + (cksum AND 0xFFFF);
          cksum = cksum + drop_bit 16 cksum
      in ucast (NOT cksum))"

definition CalculateGenericChecksum :: "bool \<Rightarrow> u8 list \<Rightarrow> nat \<Rightarrow> u16" where
  "CalculateGenericChecksum avx2 buf len = FoldChecksum (CalculateSum avx2 buf len)"

definition VerifyGenericChecksum :: "bool \<Rightarrow> u8 list \<Rightarrow> nat \<Rightarrow> u16 \<Rightarrow> bool" where
  "VerifyGenericChecksum avx2 buf len cksum \<longleftrightarrow> CalculateGenericChecksum avx2 buf len = cksum"

section \<open>IPv4\<close>

text \<open>Header fields by their offset; the length of the header is in 32-bit units.\<close>

definition ipv4_header_length :: "u8 list \<Rightarrow> nat" where
  "ipv4_header_length iph = unat (iph ! 0 AND 0xF)"

definition VerifyIpv4NoOptChecksum :: "u8 list \<Rightarrow> bool" where
  "VerifyIpv4NoOptChecksum iph \<longleftrightarrow>
     (let sum = adc_chain [load32 iph 4, load32 iph 8, load32 iph 12, load32 iph 16] (load32 iph 0)
      in FoldChecksum sum = 0)"

definition CalculateIpv4NoOptChecksum :: "u8 list \<Rightarrow> u16" where
  "CalculateIpv4NoOptChecksum iph =
     (let sum = adc_chain [load32 iph 4, load32 iph 8 AND 0xFFFF, load32 iph 12, load32 iph 16]
                  (load32 iph 0)
      in FoldChecksum sum)"

definition VerifyIpv4Checksum :: "bool \<Rightarrow> u8 list \<Rightarrow> bool" where
  "VerifyIpv4Checksum avx2 iph \<longleftrightarrow>
     (let ip_header_len = 4 * ipv4_header_length iph
      in if ip_header_len < 20 then False
         else let sum = CalculateSum avx2 (drop 20 iph) (ip_header_len - 20);
                  sum = adc_chain [load32 iph 0, load32 iph 4, load32 iph 8, load32 iph 12,
                                   load32 iph 16] sum
              in FoldChecksum sum = 0)"

definition CalculateIpv4Checksum :: "bool \<Rightarrow> u8 list \<Rightarrow> u16" where
  "CalculateIpv4Checksum avx2 iph =
     (let ip_header_len = 4 * ipv4_header_length iph
      in if ip_header_len < 20 then 0
         else let sum = CalculateSum avx2 (drop 20 iph) (ip_header_len - 20);
                  sum = adc_chain [load32 iph 0, load32 iph 4, load32 iph 8 AND 0xFFFF,
                                   load32 iph 12, load32 iph 16] sum
              in FoldChecksum sum)"

section \<open>UDP\<close>

text \<open>
  The functions on a pseudo header take the addresses as stored (network order). A length
  below the size of the header, undefined in the code, is a hypothesis of their properties.
\<close>

definition VerifyIpv4UdpChecksum_pseudo :: "bool \<Rightarrow> u8 list \<Rightarrow> u32 \<Rightarrow> u32 \<Rightarrow> u16 \<Rightarrow> bool" where
  "VerifyIpv4UdpChecksum_pseudo avx2 udph src_ip dst_ip udp_len \<longleftrightarrow>
     (if load16 udph 6 = 0 then True
      else let sum = CalculateSum avx2 (drop 8 udph) (unat udp_len - 8);
               len = ucast (swap16 udp_len);
               sum = adc_chain [load32 udph 0, load32 udph 4, src_ip, dst_ip, len, 0x1100] sum
           in FoldChecksum sum = 0)"

definition VerifyIpv4UdpChecksum :: "bool \<Rightarrow> u8 list \<Rightarrow> u8 list \<Rightarrow> bool" where
  "VerifyIpv4UdpChecksum avx2 iph udph \<longleftrightarrow>
     (let udp_len = be16_value udph 4
      in if unat udp_len < 8 then False
         else VerifyIpv4UdpChecksum_pseudo avx2 udph (load32 iph 12) (load32 iph 16) udp_len)"

definition CalculateIpv4UdpChecksum_pseudo :: "bool \<Rightarrow> u8 list \<Rightarrow> u32 \<Rightarrow> u32 \<Rightarrow> u16 \<Rightarrow> u16" where
  "CalculateIpv4UdpChecksum_pseudo avx2 udph src dst udp_len =
     (let sum = CalculateSum avx2 (drop 8 udph) (unat udp_len - 8);
          len = ucast (swap16 udp_len);
          sum = adc_chain [load32 udph 0, load32 udph 4 AND 0xFFFF, src, dst, len, 0x1100] sum
      in if FoldChecksum sum \<noteq> 0 then FoldChecksum sum else 0xFFFF)"

definition CalculateIpv4UdpChecksum :: "bool \<Rightarrow> u8 list \<Rightarrow> u8 list \<Rightarrow> u16" where
  "CalculateIpv4UdpChecksum avx2 iph udph =
     (let udp_len = be16_value udph 4
      in if unat udp_len < 8 then 0
         else CalculateIpv4UdpChecksum_pseudo avx2 udph (load32 iph 12) (load32 iph 16) udp_len)"

section \<open>TCP\<close>

definition VerifyIpv4TcpChecksum_pseudo :: "bool \<Rightarrow> u8 list \<Rightarrow> u32 \<Rightarrow> u32 \<Rightarrow> u16 \<Rightarrow> bool" where
  "VerifyIpv4TcpChecksum_pseudo avx2 tcph src_ip dst_ip tcp_len \<longleftrightarrow>
     (let sum = CalculateSum avx2 (drop 20 tcph) (unat tcp_len - 20);
          len = ucast (swap16 tcp_len);
          sum = adc_chain [load32 tcph 0, load32 tcph 4, load32 tcph 8, load32 tcph 12,
                           load32 tcph 16, src_ip, dst_ip, len, 0x0600] sum
      in FoldChecksum sum = 0)"

definition VerifyIpv4TcpChecksum :: "bool \<Rightarrow> u8 list \<Rightarrow> u8 list \<Rightarrow> bool" where
  "VerifyIpv4TcpChecksum avx2 iph tcph \<longleftrightarrow>
     (let ip_len = unat (be16_value iph 2);
          ip_header_len = 4 * ipv4_header_length iph
      in if ip_len < ip_header_len + 20 then False
         else VerifyIpv4TcpChecksum_pseudo avx2 tcph (load32 iph 12) (load32 iph 16)
                (of_nat (ip_len - ip_header_len)))"

definition CalculateIpv4TcpChecksum_pseudo :: "bool \<Rightarrow> u8 list \<Rightarrow> u32 \<Rightarrow> u32 \<Rightarrow> u16 \<Rightarrow> u16" where
  "CalculateIpv4TcpChecksum_pseudo avx2 tcph src dst tcp_len =
     (let sum = CalculateSum avx2 (drop 20 tcph) (unat tcp_len - 20);
          len = ucast (swap16 tcp_len);
          sum = adc_chain [load32 tcph 0, load32 tcph 4, load32 tcph 8, load32 tcph 12,
                           drop_bit 16 (load32 tcph 16), src, dst, len, 0x0600] sum
      in FoldChecksum sum)"

definition CalculateIpv4TcpChecksum :: "bool \<Rightarrow> u8 list \<Rightarrow> u8 list \<Rightarrow> u16" where
  "CalculateIpv4TcpChecksum avx2 iph tcph =
     (let ip_len = unat (be16_value iph 2);
          ip_header_len = 4 * ipv4_header_length iph
      in if ip_len < ip_header_len + 20 then 0
         else CalculateIpv4TcpChecksum_pseudo avx2 tcph (load32 iph 12) (load32 iph 16)
                (of_nat (ip_len - ip_header_len)))"

section \<open>Incremental update\<close>

definition ChecksumIncrement32 :: "u32 \<Rightarrow> u32 \<Rightarrow> u32" where
  "ChecksumIncrement32 old_value new_value =
     (let sum = drop_bit 16 (NOT old_value) + (NOT old_value AND 0xFFFF)
      in sum + (drop_bit 16 new_value + (new_value AND 0xFFFF)))"

text \<open>The 16-bit operands are promoted to \<^verbatim>\<open>int\<close> before they are complemented.\<close>

definition ChecksumIncrement16 :: "u16 \<Rightarrow> u16 \<Rightarrow> u32" where
  "ChecksumIncrement16 old_value new_value = (NOT (ucast old_value) AND 0xFFFF) + ucast new_value"

definition UpdateChecksumWithIncrement :: "u16 \<Rightarrow> u32 \<Rightarrow> u16" where
  "UpdateChecksumWithIncrement old_checksum increment =
     FoldChecksum ((NOT (ucast old_checksum) AND 0xFFFF) + increment)"

definition UpdateChecksum32 :: "u16 \<Rightarrow> u32 \<Rightarrow> u32 \<Rightarrow> u16" where
  "UpdateChecksum32 old_checksum old_value new_value =
     (let inc = ChecksumIncrement32 old_value new_value
      in UpdateChecksumWithIncrement old_checksum inc)"

definition UpdateChecksum16 :: "u16 \<Rightarrow> u16 \<Rightarrow> u16 \<Rightarrow> u16" where
  "UpdateChecksum16 old_checksum old_value new_value =
     (let inc = ChecksumIncrement16 old_value new_value
      in UpdateChecksumWithIncrement old_checksum inc)"

end
