(* ===== verification/Checksum_Correct.thy ===== *)
theory Checksum_Correct
  imports Checksum
begin

text \<open>
  The optimised sums agree with the one's complement sum of 16-bit words: every step keeps
  the number modulo 65535 and whether it is zero, and a 16-bit number is determined by these.
\<close>

section \<open>One's complement equivalence\<close>

definition oc :: "nat \<Rightarrow> nat \<Rightarrow> bool" where
  "oc a b \<longleftrightarrow> a mod 65535 = b mod 65535 \<and> (a = 0 \<longleftrightarrow> b = 0)"

lemma oc_refl [simp]: "oc a a"
  by (simp add: oc_def)

lemma oc_sym: "oc a b \<Longrightarrow> oc b a"
  by (simp add: oc_def)

lemma oc_trans: "oc a b \<Longrightarrow> oc b c \<Longrightarrow> oc a c"
  by (simp add: oc_def)

lemma oc_add: "oc a a' \<Longrightarrow> oc b b' \<Longrightarrow> oc (a + b) (a' + b')"
  unfolding oc_def by (metis add_eq_0_iff_both_eq_0 mod_add_cong)

lemma oc_unique: "oc a b \<Longrightarrow> a \<le> 65535 \<Longrightarrow> b \<le> 65535 \<Longrightarrow> a = b"
  unfolding oc_def by (cases "a = 65535"; cases "b = 65535") auto

lemma oc_mult_cong: "oc a b \<Longrightarrow> 0 < c \<Longrightarrow> oc (c * a) (c * b)"
  unfolding oc_def by (metis mod_mult_cong mult_eq_0_iff not_gr0)

text \<open>A multiplier that is 1 modulo 65535 can be dropped.\<close>

lemma oc_scale: "oc (a + c * b) (a + b)" if "c mod 65535 = 1" for a b c :: nat
proof -
  have "(c * b) mod 65535 = b mod 65535"
    using mod_mult_left_eq [of c 65535 b] that by simp
  then have "(a + c * b) mod 65535 = (a + b) mod 65535" by (rule mod_add_cong [OF refl])
  moreover have "c \<noteq> 0" using that by (metis mod_0 zero_neq_one)
  ultimately show ?thesis by (simp add: oc_def)
qed

lemma oc_fold: "oc (x div n + x mod n) x" if "n mod 65535 = 1" for n x :: nat
proof -
  have "oc (x mod n + x div n) (x mod n + n * (x div n))" by (rule oc_sym [OF oc_scale [OF that]])
  then show ?thesis by (simp add: add.commute)
qed

lemmas oc_fold16 = oc_fold [of 65536, simplified]
lemmas oc_fold32 = oc_fold [of 4294967296, simplified]

lemma oc_sub: "oc (t - m) t" if "65535 dvd m" "m < t" for m t :: nat
proof -
  have "t = (t - m) + m" using that by simp
  then have "t mod 65535 = (t - m) mod 65535"
    using that(1) by (metis dvd_imp_mod_0 mod_add_right_eq add_0_right)
  then show ?thesis using that by (simp add: oc_def)
qed

section \<open>Add with carry\<close>

definition adc_val :: "'a::len word \<times> bool \<Rightarrow> nat" where
  "adc_val st = unat (fst st) + of_bool (snd st)"

lemma adc_val_step:
  fixes u :: "'a::len word"
  assumes d: "65535 dvd 2 ^ LENGTH('a) - (1 :: nat)" and v: "adc_val st < 2 ^ LENGTH('a)"
  shows "adc_val (adc u st) < 2 ^ LENGTH('a)" "oc (adc_val (adc u st)) (adc_val st + unat u)"
proof -
  let ?N = "2 ^ LENGTH('a) :: nat"
  define t where "t = adc_val st + unat u"
  have tt: "unat (fst st) + unat u + of_bool (snd st) = t" by (simp add: t_def adc_val_def)
  have u: "unat u < ?N" by simp
  have t2: "t < 2 * ?N - 1" using v u unfolding t_def by linarith
  have a: "adc u st = (of_nat t, t \<ge> ?N)" unfolding adc_def tt by (simp add: Let_def)
  have "adc_val (adc u st) < ?N \<and> oc (adc_val (adc u st)) t"
  proof (cases "t < ?N")
    case True
    then have "adc_val (adc u st) = t" by (simp add: a adc_val_def unsigned_of_nat take_bit_nat_eq_self)
    with True show ?thesis by simp
  next
    case False
    then have "t mod ?N = t - ?N" using t2 by (simp add: le_mod_geq)
    then have "adc_val (adc u st) = t - (?N - 1)"
      using False by (simp add: a adc_val_def unsigned_of_nat take_bit_eq_mod)
    with False t2 oc_sub [OF d, of t] show ?thesis by (simp add: not_less)
  qed
  then show "adc_val (adc u st) < ?N" "oc (adc_val (adc u st)) (adc_val st + unat u)"
    by (simp_all add: t_def)
qed

lemma adc_fold:
  fixes us :: "'a::len word list"
  assumes d: "65535 dvd 2 ^ LENGTH('a) - (1 :: nat)"
  shows "adc_val st < 2 ^ LENGTH('a) \<Longrightarrow>
    adc_val (fold adc us st) < 2 ^ LENGTH('a) \<and>
    oc (adc_val (fold adc us st)) (adc_val st + sum_list (map unat us))"
proof (induction us arbitrary: st)
  case (Cons u us)
  from Cons.IH [OF adc_val_step(1) [OF d Cons.prems, of u]]
    oc_add [OF adc_val_step(2) [OF d Cons.prems, of u] oc_refl [of "sum_list (map unat us)"]]
  show ?case using oc_trans by (auto simp: add.assoc)
qed simp

lemma adc_chain_oc:
  fixes us :: "'a::len word list"
  assumes d: "65535 dvd 2 ^ LENGTH('a) - (1 :: nat)"
  shows "oc (unat (adc_chain us s)) (unat s + sum_list (map unat us))"
proof -
  let ?st = "fold adc us (s, False)"
  have "adc_val (s, False) < 2 ^ LENGTH('a)" by (simp add: adc_val_def)
  from adc_fold [OF d this, of us]
  have v: "adc_val ?st < 2 ^ LENGTH('a)" and o: "oc (adc_val ?st) (unat s + sum_list (map unat us))"
    by (simp_all add: adc_val_def)
  have "adc_chain us s = of_nat (adc_val ?st)"
    by (simp only: adc_chain_def adc_def adc_val_def Let_def fst_conv unat_0 add_0_right)
  then have "unat (adc_chain us s) = adc_val ?st"
    using v by (simp only: unsigned_of_nat take_bit_nat_eq_self of_nat_id)
  with o show ?thesis by simp
qed

lemma adc_chain_oc_64: "oc (unat (adc_chain us (s :: u64))) (unat s + sum_list (map unat us))"
  by (rule adc_chain_oc) simp

lemma adc_chain_oc_32: "oc (unat (adc_chain us (s :: u32))) (unat s + sum_list (map unat us))"
  by (rule adc_chain_oc) simp

section \<open>Bytes and words\<close>

lemma unat_load16: "unat (load16 buf i) = unat (buf ! i) + 256 * unat (buf ! (i + 1))"
proof -
  have "unat (buf ! j) < 256" for j using unsigned_less [of "buf ! j"] by simp
  from this [of i] this [of "i + 1"] show ?thesis
    by (simp add: load16_def unat_word_ariths unat_ucast_up)
qed

lemma unat_load32: "unat (load32 buf i) = unat (load16 buf i) + 65536 * unat (load16 buf (i + 2))"
proof -
  have "unat (load16 buf j) < 65536" for j using unsigned_less [of "load16 buf j"] by simp
  from this [of i] this [of "i + 2"] show ?thesis
    by (simp add: load32_def unat_word_ariths unat_ucast_up)
qed

lemma unat_load64: "unat (load64 buf i) = unat (load32 buf i) + 4294967296 * unat (load32 buf (i + 4))"
proof -
  have "unat (load32 buf j) < 4294967296" for j using unsigned_less [of "load32 buf j"] by simp
  from this [of i] this [of "i + 4"] show ?thesis
    by (simp add: load64_def unat_word_ariths unat_ucast_up)
qed

text \<open>The sum of the little-endian 16-bit words of some bytes, the last one padded.\<close>

fun total16 :: "u8 list \<Rightarrow> nat" where
  "total16 [] = 0"
| "total16 [b] = unat b"
| "total16 (b0 # b1 # bs) = unat b0 + 256 * unat b1 + total16 bs"

lemma total16_append: "even (length xs) \<Longrightarrow> total16 (xs @ ys) = total16 xs + total16 ys"
  by (induction xs rule: total16.induct) auto

definition window :: "u8 list \<Rightarrow> nat \<Rightarrow> nat \<Rightarrow> nat" where
  "window buf off len = total16 (take len (drop off buf))"

lemma window_0 [simp]: "window buf off 0 = 0"
  by (simp add: window_def)

lemma window_1: "off < length buf \<Longrightarrow> window buf off 1 = unat (buf ! off)"
  by (simp add: window_def take_Suc hd_drop_conv_nth)

lemma window_split:
  assumes "even l1" "off + l1 + l2 \<le> length buf"
  shows "window buf off (l1 + l2) = window buf off l1 + window buf (off + l1) l2"
  using assms total16_append [of "take l1 (drop off buf)" "take l2 (drop (off + l1) buf)"]
  by (simp add: window_def take_add add.commute)

lemma window_2: "off + 2 \<le> length buf \<Longrightarrow> window buf off 2 = unat (load16 buf off)"
  by (simp add: window_def unat_load16 Cons_nth_drop_Suc [symmetric] numeral_2_eq_2)

lemma window_4:
  assumes "off + 4 \<le> length buf"
  shows "oc (unat (load32 buf off)) (window buf off 4)"
  using window_split [of 2 off 2 buf] assms window_2 [of off buf] window_2 [of "off + 2" buf]
    oc_scale [of 65536 "unat (load16 buf off)" "unat (load16 buf (off + 2))"]
  by (simp add: unat_load32)

lemma window_8:
  assumes "off + 8 \<le> length buf"
  shows "oc (unat (load64 buf off)) (window buf off 8)"
proof -
  have "oc (unat (load64 buf off)) (unat (load32 buf off) + unat (load32 buf (off + 4)))"
    using oc_scale [of 4294967296 "unat (load32 buf off)"] by (simp add: unat_load64)
  moreover have "oc (unat (load32 buf off) + unat (load32 buf (off + 4))) (window buf off 8)"
    using oc_add [OF window_4 [of off buf] window_4 [of "off + 4" buf]] assms
      window_split [of 4 off 4 buf] by simp
  ultimately show ?thesis by (rule oc_trans)
qed

section \<open>The loops of the generic sum\<close>

text \<open>A loop has consumed an even number of bytes and added their sum.\<close>

definition consumed :: "u8 list \<Rightarrow> u64 \<times> nat \<times> nat \<Rightarrow> u64 \<times> nat \<times> nat \<Rightarrow> bool" where
  "consumed buf st st' \<longleftrightarrow>
     (case st of (s, off, len) \<Rightarrow> case st' of (s', off', len') \<Rightarrow>
        \<exists>c. even c \<and> off' = off + c \<and> len = c + len' \<and> oc (unat s') (unat s + window buf off c))"

lemma consumed_refl: "consumed buf st st"
  by (cases st) (auto simp: consumed_def intro: exI [of _ 0])

lemma consumed_trans:
  assumes "consumed buf (s, off, len) st1" "consumed buf st1 st2" "off + len \<le> length buf"
  shows "consumed buf (s, off, len) st2"
proof -
  obtain s1 o1 l1 s2 o2 l2 where st: "st1 = (s1, o1, l1)" "st2 = (s2, o2, l2)"
    by (cases st1, cases st2) blast
  from assms(1) obtain c where c: "even c" "o1 = off + c" "len = c + l1"
    "oc (unat s1) (unat s + window buf off c)" by (auto simp: consumed_def st)
  from assms(2) obtain d where d: "even d" "o2 = o1 + d" "l1 = d + l2"
    "oc (unat s2) (unat s1 + window buf o1 d)" by (auto simp: consumed_def st)
  have "window buf off (c + d) = window buf off c + window buf o1 d"
    using window_split [of c off d buf] c d assms(3) by simp
  then have "oc (unat s2) (unat s + window buf off (c + d))"
    using oc_trans [OF d(4) oc_add [OF c(4) oc_refl]] by (simp add: add.assoc)
  then show ?thesis using c d by (auto simp: consumed_def st intro!: exI [of _ "c + d"])
qed

lemma consumed_bounds:
  "consumed buf (s, off, len) (s', off', len') \<Longrightarrow> off' + len' = off + len"
  by (auto simp: consumed_def)

lemma window_words:
  "off + 8 * n \<le> length buf \<Longrightarrow>
     oc (sum_list (map (\<lambda>k. unat (load64 buf (off + 8 * k))) [0..<n])) (window buf off (8 * n))"
proof (induction n)
  case (Suc n)
  have "window buf off (8 * n + 8) = window buf off (8 * n) + window buf (off + 8 * n) 8"
    using Suc.prems by (intro window_split) auto
  with oc_add [OF Suc.IH window_8 [of "off + 8 * n" buf]] Suc.prems show ?case
    by (simp add: add.commute)
qed simp

lemma adc_words_consumed:
  assumes "8 * n \<le> len" "off + len \<le> length buf"
  shows "consumed buf (s, off, len)
    (adc_chain (map (\<lambda>k. load64 buf (off + 8 * k)) [0..<n]) s, off + 8 * n, len - 8 * n)"
proof -
  have "oc (unat (adc_chain (map (\<lambda>k. load64 buf (off + 8 * k)) [0..<n]) s))
      (unat s + window buf off (8 * n))"
    using oc_add [OF oc_refl [of "unat s"] window_words [of off n buf]] assms
    by (intro oc_trans [OF adc_chain_oc_64]) (simp add: comp_def)
  with assms(1) show ?thesis by (auto simp: consumed_def intro!: exI [of _ "8 * n"])
qed

lemma sum_by_8_consumed:
  "off + len \<le> length buf \<Longrightarrow> consumed buf (s, off, len) (sum_by_8 buf (s, off, len))"
proof (induction len arbitrary: s off rule: less_induct)
  case (less len)
  show ?case
  proof (cases "64 \<le> len")
    case True
    note step = adc_words_consumed [of 8 len off buf s]
    show ?thesis
      using consumed_trans [OF step less.IH] True less.prems
      by (subst sum_by_8.simps) simp
  next
    case False
    then show ?thesis by (subst sum_by_8.simps) (simp add: consumed_refl)
  qed
qed

lemma sum_by_2_consumed:
  "off + len \<le> length buf \<Longrightarrow> consumed buf (s, off, len) (sum_by_2 buf (s, off, len)) \<and>
     snd (snd (sum_by_2 buf (s, off, len))) < 16"
proof (induction len arbitrary: s off rule: less_induct)
  case (less len)
  show ?case
  proof (cases "16 \<le> len")
    case True
    have "[0..<2] = [0, 1 :: nat]" by (simp add: upt_rec)
    then have step: "consumed buf (s, off, len)
        (adc_chain [load64 buf off, load64 buf (off + 8)] s, off + 16, len - 16)"
      using adc_words_consumed [of 2 len off buf s] True less.prems by simp
    let ?s = "adc_chain [load64 buf off, load64 buf (off + 8)] s"
    have "consumed buf (?s, off + 16, len - 16) (sum_by_2 buf (?s, off + 16, len - 16)) \<and>
        snd (snd (sum_by_2 buf (?s, off + 16, len - 16))) < 16"
      using less.IH [of "len - 16" "off + 16" ?s] True less.prems by simp
    with consumed_trans [OF step _ less.prems] True show ?thesis
      by (subst (1 2) sum_by_2.simps) simp
  next
    case False
    then show ?thesis by (subst (1 2) sum_by_2.simps) (simp add: consumed_refl)
  qed
qed

text \<open>The 16-bit loop adds without carries; with room to spare its sum is exact.\<close>

lemma sum_by_u16_exact:
  "off + len \<le> length buf \<Longrightarrow> unat s + 32768 * len < 2 ^ 64 \<Longrightarrow>
   \<exists>s'. sum_by_u16 buf (s, off, len) = (s', off + 2 * (len div 2), len mod 2) \<and>
     unat s' = unat s + window buf off (2 * (len div 2)) \<and> unat s' \<le> unat s + 32768 * len"
proof (induction len arbitrary: s off rule: less_induct)
  case (less len)
  show ?case
  proof (cases "2 \<le> len")
    case True
    have w: "unat (load16 buf off) < 65536" using unsigned_less [of "load16 buf off"] by simp
    have u: "unat (s + ucast (load16 buf off)) = unat s + unat (load16 buf off)"
      using less.prems w True by (simp add: unat_word_ariths unat_ucast_up)
    obtain k where k: "len = k + 2" using True by (metis add.commute le_Suc_ex)
    have "\<exists>s'. sum_by_u16 buf (s + ucast (load16 buf off), off + 2, k) =
        (s', off + 2 + 2 * (k div 2), k mod 2) \<and>
      unat s' = unat s + unat (load16 buf off) + window buf (off + 2) (2 * (k div 2)) \<and>
      unat s' \<le> unat s + unat (load16 buf off) + 32768 * k"
      using less.IH [of k "off + 2" "s + ucast (load16 buf off)"] less.prems w by (simp add: k u)
    moreover have "window buf off (2 + 2 * (k div 2)) =
        unat (load16 buf off) + window buf (off + 2) (2 * (k div 2))"
      using window_split [of 2 off "2 * (k div 2)" buf] window_2 [of off buf] less.prems k by simp
    ultimately show ?thesis
      using w by (subst sum_by_u16.simps) (auto simp: k)
  next
    case False
    then have "len = 0 \<or> len = 1" by linarith
    then show ?thesis by (subst sum_by_u16.simps) auto
  qed
qed

section \<open>The vector block\<close>

definition sum32 :: "u8 list \<Rightarrow> nat \<Rightarrow> nat \<Rightarrow> nat" where
  "sum32 buf off n = sum_list (map (\<lambda>k. unat (load32 buf (off + 4 * k))) [0..<n])"

lemma sum32_add: "sum32 buf off (m + n) = sum32 buf off m + sum32 buf (off + 4 * m) n"
proof -
  have "[0..<m + n] = [0..<m] @ map (\<lambda>k. m + k) [0..<n]"
    using map_add_upt [of m n] by (simp add: upt_add_eq_append [of 0 m n] add.commute)
  then show ?thesis by (simp add: sum32_def comp_def algebra_simps)
qed

lemma sum32_window: "off + 4 * n \<le> length buf \<Longrightarrow> oc (sum32 buf off n) (window buf off (4 * n))"
proof (induction n)
  case (Suc n)
  have "window buf off (4 * n + 4) = window buf off (4 * n) + window buf (off + 4 * n) 4"
    using Suc.prems by (intro window_split) auto
  with oc_add [OF Suc.IH window_4 [of "off + 4 * n" buf]] Suc.prems show ?case
    by (simp add: add.commute sum32_def)
qed (simp add: sum32_def)

lemma sum32_bound: "sum32 buf off n \<le> n * 4294967295"
proof (induction n)
  case (Suc n)
  have "unat (load32 buf (off + 4 * n)) < 2 ^ LENGTH(32)" by (rule unsigned_less)
  with Suc.IH show ?case by (simp add: sum32_def)
qed (simp add: sum32_def)

lemma upt_8: "[0..<8] = [0, 1, 2, 3, 4, 5, 6, 7 :: nat]"
  by (simp add: upt_rec)

lemma unpack_sum:
  "sum_list (mm256_unpackhi (mm256_loadu buf off)) + sum_list (mm256_unpacklo (mm256_loadu buf off)) =
     of_nat (sum32 buf off 8)"
  by (simp add: mm256_unpackhi_def mm256_unpacklo_def mm256_loadu_def sum32_def upt_8
      algebra_simps)

lemma length_unpack [simp]:
  "length (mm256_unpackhi a) = 4" "length (mm256_unpacklo a) = 4"
  by (simp_all add: mm256_unpackhi_def mm256_unpacklo_def)

lemma length_mm256_add [simp]: "length (mm256_add a b) = min (length a) (length b)"
  by (simp add: mm256_add_def)

lemma list_4: "length a = 4 \<Longrightarrow> \<exists>w x y z. a = [w, x, y, z]"
  by (auto simp: length_Suc_conv numeral_eq_Suc)

lemma sum_list_mm256_add:
  "length a = 4 \<Longrightarrow> length b = 4 \<Longrightarrow> sum_list (mm256_add a b) = sum_list a + sum_list b"
  using list_4 [of a] list_4 [of b] by (auto simp: mm256_add_def)

definition vsum4 :: "u64 list \<times> u64 list \<times> u64 list \<times> u64 list \<Rightarrow> u64" where
  "vsum4 v = (case v of (a, b, c, d) \<Rightarrow> sum_list a + sum_list b + sum_list c + sum_list d)"

definition len4 :: "u64 list \<times> u64 list \<times> u64 list \<times> u64 list \<Rightarrow> bool" where
  "len4 v = (case v of (a, b, c, d) \<Rightarrow> length a = 4 \<and> length b = 4 \<and> length c = 4 \<and> length d = 4)"

lemma block_sum:
  "vsum4 (mm256_unpackhi (mm256_loadu buf off), mm256_unpacklo (mm256_loadu buf off),
     mm256_unpackhi (mm256_loadu buf (off + 32)), mm256_unpacklo (mm256_loadu buf (off + 32))) =
   of_nat (sum32 buf off 16)"
proof -
  have "sum32 buf off 16 = sum32 buf off 8 + sum32 buf (off + 32) 8"
    using sum32_add [of buf off 8 8] by simp
  then show ?thesis
    using unpack_sum [of buf off] unpack_sum [of buf "off + 32"]
    by (simp add: vsum4_def add.assoc flip: unpack_sum)
qed

lemma avx2_loop_sum:
  "len4 (a, b, c, d) \<Longrightarrow>
   \<exists>v off' len'. avx2_loop buf off len a b c d = (v, off', len') \<and> len4 v \<and>
     (\<exists>q. off' = off + 64 * q \<and> len = 64 * q + len' \<and>
          vsum4 v = vsum4 (a, b, c, d) + of_nat (sum32 buf off (16 * q)))"
proof (induction len arbitrary: off a b c d rule: less_induct)
  case (less len)
  show ?case
  proof (cases "64 \<le> len")
    case False
    then show ?thesis using less.prems
      by (subst avx2_loop.simps) (auto simp: sum32_def intro!: exI [of _ 0])
  next
    case True
    let ?a = "mm256_loadu buf off" and ?b = "mm256_loadu buf (off + 32)"
    let ?v = "(mm256_add a (mm256_unpackhi ?a), mm256_add b (mm256_unpacklo ?a),
               mm256_add c (mm256_unpackhi ?b), mm256_add d (mm256_unpacklo ?b))"
    have l: "len4 ?v" using less.prems by (simp add: len4_def)
    have v: "vsum4 ?v = vsum4 (a, b, c, d) + of_nat (sum32 buf off 16)"
      using less.prems block_sum [of buf off]
      by (simp add: len4_def vsum4_def sum_list_mm256_add algebra_simps)
    from less.IH [OF _ l, of "len - 64" "off + 64"] True obtain v' off' len' q where
      r: "avx2_loop buf (off + 64) (len - 64) (mm256_add a (mm256_unpackhi ?a))
            (mm256_add b (mm256_unpacklo ?a)) (mm256_add c (mm256_unpackhi ?b))
            (mm256_add d (mm256_unpacklo ?b)) = (v', off', len')" "len4 v'"
        "off' = off + 64 + 64 * q" "len - 64 = 64 * q + len'"
        "vsum4 v' = vsum4 ?v + of_nat (sum32 buf (off + 64) (16 * q))" by auto
    have "vsum4 v' = vsum4 (a, b, c, d) + of_nat (sum32 buf off (16 * Suc q))"
      using sum32_add [of buf off 16 "16 * q"] r(5) v by (simp add: algebra_simps)
    with r True show ?thesis
      by (subst avx2_loop.simps) (auto simp: Let_def intro!: exI [of _ "Suc q"])
  qed
qed

lemma avx2_sum_consumed:
  assumes "128 \<le> len" "len \<le> length buf" "len < 2 ^ 34"
  shows "consumed buf (0, 0, len) (avx2_sum buf len)"
proof -
  let ?a = "mm256_loadu buf 0" and ?b = "mm256_loadu buf 32"
  have l: "len4 (mm256_unpackhi ?a, mm256_unpacklo ?a, mm256_unpackhi ?b, mm256_unpacklo ?b)"
    by (simp add: len4_def)
  from avx2_loop_sum [OF l, of buf 64 "len - 64"] obtain a b c d off' len' q where
    r: "avx2_loop buf 64 (len - 64) (mm256_unpackhi ?a) (mm256_unpacklo ?a) (mm256_unpackhi ?b)
          (mm256_unpacklo ?b) = ((a, b, c, d), off', len')" "len4 (a, b, c, d)"
      "off' = 64 + 64 * q" "len - 64 = 64 * q + len'"
      "vsum4 (a, b, c, d) = of_nat (sum32 buf 0 16) + of_nat (sum32 buf 64 (16 * q))"
    using block_sum [of buf 0] by auto
  let ?n = "16 * Suc q"
  have n: "sum32 buf 0 ?n = sum32 buf 0 16 + sum32 buf 64 (16 * q)"
    using sum32_add [of buf 0 16 "16 * q"] by simp
  obtain a0 a1 a2 a3 b0 b1 b2 b3 c0 c1 c2 c3 d0 d1 d2 d3 where
    lists: "a = [a0, a1, a2, a3]" "b = [b0, b1, b2, b3]" "c = [c0, c1, c2, c3]" "d = [d0, d1, d2, d3]"
    using r(2) list_4 [of a] list_4 [of b] list_4 [of c] list_4 [of d] by (auto simp: len4_def)
  have "avx2_sum buf len = (vsum4 (a, b, c, d), off', len')"
    using r(1) by (simp add: avx2_sum_def Let_def lists vsum4_def mm256_add_def algebra_simps)
  then have s: "avx2_sum buf len = (of_nat (sum32 buf 0 ?n), off', len')"
    using r(5) n by simp
  have "sum32 buf 0 ?n < 2 ^ 64"
    using sum32_bound [of buf 0 ?n] assms(3) r(4) assms(1) by simp
  then have u: "unat (of_nat (sum32 buf 0 ?n) :: u64) = sum32 buf 0 ?n"
    by (simp add: unsigned_of_nat take_bit_nat_eq_self)
  have "oc (sum32 buf 0 ?n) (window buf 0 (4 * ?n))"
    using assms(1,2) r(4) by (intro sum32_window) simp
  then show ?thesis
    using r(3,4) assms(1) u by (auto simp: consumed_def s intro!: exI [of _ "64 * Suc q"])
qed

section \<open>Folding\<close>

definition fold_nat :: "nat \<Rightarrow> nat \<Rightarrow> nat" where
  "fold_nat n x = (let y = x div n + x mod n in (y + y div n) mod n)"

lemma fold_nat_oc:
  assumes n: "n mod 65535 = 1" "2 < n" and x: "x < n * n"
  shows "oc (fold_nat n x) x" "fold_nat n x < n"
proof -
  define y where "y = x div n + x mod n"
  have o: "oc y x" unfolding y_def by (rule oc_fold [OF n(1)])
  have y: "y < 2 * n - 1"
  proof -
    have "x div n < n" using x n(2) by (simp add: less_mult_imp_div_less)
    moreover have "x mod n < n" using n(2) by simp
    ultimately show ?thesis unfolding y_def by linarith
  qed
  have "n - 1 = n div 65535 * 65535" using div_mult_mod_eq [of n 65535] n(1) by linarith
  then have "65535 dvd n - 1" by simp
  show "fold_nat n x < n" using n(2) by (simp add: fold_nat_def Let_def)
  show "oc (fold_nat n x) x"
  proof (cases "y < n")
    case True
    then have "fold_nat n x = y" by (simp add: fold_nat_def Let_def y_def [symmetric])
    with o show ?thesis by simp
  next
    case False
    then have d: "y div n = 1" using y n(2) by (intro div_nat_eqI) auto
    have "(y + 1) mod n = y - (n - 1)" using False y n(2) by (simp add: le_mod_geq Suc_diff_le)
    then have f: "fold_nat n x = y - (n - 1)"
      by (simp add: fold_nat_def Let_def y_def [symmetric] d)
    have "oc (y - (n - 1)) y" using False n(2) \<open>65535 dvd n - 1\<close> by (intro oc_sub) auto
    with o f show ?thesis by (metis oc_trans)
  qed
qed

lemma unat_half_sum:
  "unat (drop_bit 32 s + (s AND 0xFFFFFFFF) :: u64) = unat s div 4294967296 + unat s mod 4294967296"
proof -
  have "s AND 0xFFFFFFFF = take_bit 32 s" by (simp add: take_bit_eq_mask mask_eq_exp_minus_1)
  then have a: "unat (s AND 0xFFFFFFFF) = unat s mod 4294967296"
    by (simp only: unsigned_take_bit_eq) (simp add: take_bit_eq_mod)
  have b: "unat (drop_bit 32 s) = unat s div 4294967296"
    by (simp add: unat_drop_bit)
  have "unat s < 2 ^ LENGTH(64)" by (rule unsigned_less)
  then have "unat s div 4294967296 < 4294967296" by (simp add: less_mult_imp_div_less)
  moreover have "unat s mod 4294967296 < 4294967296" by simp
  ultimately have "unat (drop_bit 32 s) + unat (s AND 0xFFFFFFFF) < 2 ^ LENGTH(64)"
    unfolding a b by simp
  from unat_add_lem [THEN iffD1, OF this] show ?thesis by (simp only: a b)
qed

lemma unat_final_sum:
  assumes "unat s < 2 ^ 34"
  shows "unat (ucast (let s = drop_bit 32 s + (s AND 0xFFFFFFFF) in s + drop_bit 32 s) :: u32) =
    fold_nat 4294967296 (unat (s :: u64))"
proof -
  define t where "t = drop_bit 32 s + (s AND 0xFFFFFFFF)"
  have t: "unat t = unat s div 4294967296 + unat s mod 4294967296"
    unfolding t_def by (rule unat_half_sum)
  have "unat s div 4294967296 < 4" using assms by (simp add: less_mult_imp_div_less)
  moreover have "unat s mod 4294967296 < 4294967296" by simp
  ultimately have tb: "unat t < 4294967300" unfolding t by linarith
  then have "unat t + unat (drop_bit 32 t) < 2 ^ LENGTH(64)"
    by (simp add: unat_drop_bit)
  from unat_add_lem [THEN iffD1, OF this]
  have "unat (t + drop_bit 32 t) = unat t + unat t div 4294967296" by (simp add: unat_drop_bit)
  then show ?thesis
    by (simp add: Let_def t_def [symmetric] unsigned_ucast_eq take_bit_eq_mod fold_nat_def t)
qed

theorem CalculateSum_oc:
  assumes len: "len \<le> length buf" "len < 2 ^ 34"
  shows "oc (unat (CalculateSum avx2 buf len)) (window buf 0 len)"
proof -
  let ?st = "if avx2 \<and> len \<ge> 128 then avx2_sum buf len else (0, 0, len)"
  obtain s0 o0 l0 where st0: "?st = (s0, o0, l0)" by (cases ?st)
  have c0: "consumed buf (0, 0, len) (s0, o0, l0)"
    using st0 avx2_sum_consumed [of len buf] len consumed_refl [of buf "(0, 0, len)"]
    by (metis (full_types))
  obtain s1 o1 l1 where st1: "sum_by_8 buf (s0, o0, l0) = (s1, o1, l1)" by (cases "sum_by_8 buf (s0, o0, l0)")
  have c1: "consumed buf (0, 0, len) (s1, o1, l1)"
    using consumed_trans [OF c0, of "(s1, o1, l1)"] sum_by_8_consumed [of o0 l0 buf s0]
      consumed_bounds [OF c0] len st1 by simp
  obtain s2 off l where st2: "sum_by_2 buf (s1, o1, l1) = (s2, off, l)" by (cases "sum_by_2 buf (s1, o1, l1)")
  have c2: "consumed buf (0, 0, len) (s2, off, l)" and l: "l < 16"
    using consumed_trans [OF c1, of "(s2, off, l)"] sum_by_2_consumed [of o1 l1 buf s1]
      consumed_bounds [OF c1] len st2 by simp_all
  from c2 have off: "even off" "len = off + l" and o2: "oc (unat s2) (window buf 0 off)"
    by (auto simp: consumed_def)
  define s3 where "s3 = drop_bit 32 s2 + (s2 AND 0xFFFFFFFF)"
  have u3: "unat s3 = unat s2 div 4294967296 + unat s2 mod 4294967296"
    unfolding s3_def by (rule unat_half_sum)
  have o3: "oc (unat s3) (window buf 0 off)"
    unfolding u3 using oc_trans [OF oc_fold32 o2] .
  have b3: "unat s3 < 2 ^ 33"
  proof -
    have "unat s2 < 2 ^ LENGTH(64)" by (rule unsigned_less)
    then have "unat s2 div 4294967296 < 4294967296" by (simp add: less_mult_imp_div_less)
    moreover have "unat s2 mod 4294967296 < 4294967296" by simp
    ultimately show ?thesis unfolding u3 by simp
  qed
  obtain s4 where s4: "sum_by_u16 buf (s3, off, l) = (s4, off + 2 * (l div 2), l mod 2)"
    "unat s4 = unat s3 + window buf off (2 * (l div 2))" "unat s4 \<le> unat s3 + 32768 * l"
    using sum_by_u16_exact [of off l buf s3] b3 l len off by auto
  define s5 where "s5 = (if len mod 2 = 1 then s4 + ucast (buf ! (off + 2 * (l div 2))) else s4)"
  have lm: "l mod 2 = len mod 2" using off by presburger
  have w: "window buf off l = window buf off (2 * (l div 2)) + window buf (off + 2 * (l div 2)) (l mod 2)"
    using window_split [of "2 * (l div 2)" off "l mod 2" buf] len off by simp
  have b4: "unat s4 < 2 ^ 33 + 524288" using s4(3) b3 l by simp
  have u5: "unat s5 = unat s3 + window buf off l \<and> unat s5 < 2 ^ 34"
  proof (cases "len mod 2 = 1")
    case True
    let ?b = "buf ! (off + 2 * (l div 2))"
    have b: "unat ?b < 2 ^ LENGTH(8)" by (rule unsigned_less)
    have "unat s4 + unat (ucast ?b :: u64) < 2 ^ LENGTH(64)"
      using b4 b by (simp add: unat_ucast_up)
    from unat_add_lem [THEN iffD1, OF this] have "unat s5 = unat s4 + unat ?b"
      using True by (simp add: s5_def unat_ucast_up)
    moreover have "off + 2 * (l div 2) < length buf" 
      using len off lm True mult_div_mod_eq [of 2 l] by linarith
    ultimately show ?thesis
      using window_1 [of "off + 2 * (l div 2)" buf] w lm True s4(2) b4 b by simp
  next
    case False
    then have "l mod 2 = 0" using lm by simp
    with False show ?thesis using w s4(2) b4 by (simp add: s5_def)
  qed
  have "oc (unat s5) (window buf 0 len)"
    using u5 oc_add [OF o3 oc_refl] window_split [of off 0 l buf] off len by simp
  moreover have "CalculateSum avx2 buf len =
      ucast (let s = drop_bit 32 s5 + (s5 AND 0xFFFFFFFF) in s + drop_bit 32 s)"
    unfolding CalculateSum_def Let_def st0 st1 st2 prod.case s3_def [symmetric] s4(1) s5_def [symmetric] ..
  ultimately show ?thesis
    using unat_final_sum [of s5] u5 fold_nat_oc(1) [of 4294967296 "unat s5"] oc_trans by auto
qed

end
