(* ===== verification/Checksum_Properties.thy ===== *)
theory Checksum_Properties
  imports Checksum_Correct
begin

text \<open>
  The properties of the checksum functions: agreement with the definition of the Internet
  checksum, acceptance of computed checksums by the verifying functions, and incremental
  update.
\<close>

section \<open>The folded checksum\<close>

lemma unat_not16: "unat (NOT w) = 65535 - unat w" for w :: u16
proof -
  have "NOT w = - 1 - w" by (simp add: not_eq_complement)
  moreover have "unat (- 1 - w) = unat (- 1 :: u16) - unat w" by (rule unat_sub) simp
  ultimately show ?thesis by (simp add: unsigned_minus_1_eq_mask mask_eq_exp_minus_1)
qed

lemma unat_le16: "unat w \<le> 65535" for w :: u16
  using unsigned_less [of w, where 'a = nat] by simp

lemma FoldChecksum_fold:
  "unat (FoldChecksum c) = 65535 - fold_nat 65536 (unat c)"
  "fold_nat 65536 (unat c) \<le> 65535" "oc (fold_nat 65536 (unat c)) (unat c)"
proof -
  have cb: "unat c < 2 ^ LENGTH(32)" by (rule unsigned_less)
  then show o: "oc (fold_nat 65536 (unat c)) (unat c)" and "fold_nat 65536 (unat c) \<le> 65535"
    using fold_nat_oc [of 65536 "unat c"] by simp_all
  define t where "t = drop_bit 16 c + (c AND 0xFFFF)"
  have "c AND 0xFFFF = take_bit 16 c" by (simp add: take_bit_eq_mask mask_eq_exp_minus_1)
  then have a: "unat (c AND 0xFFFF) = unat c mod 65536" using unat_take_bit [of 16 c] by simp
  have b: "unat (drop_bit 16 c) = unat c div 65536" by (simp add: unat_drop_bit)
  have d: "unat c div 65536 < 65536" using cb by (simp add: less_mult_imp_div_less)
  have m: "unat c mod 65536 < 65536" by simp
  have "unat (drop_bit 16 c) + unat (c AND 0xFFFF) < 2 ^ LENGTH(32)"
    unfolding a b using d m by simp
  from unat_add_lem [THEN iffD1, OF this] have t: "unat t = unat c div 65536 + unat c mod 65536"
    by (simp only: t_def a b)
  then have "unat t < 131072" using d m by linarith
  then have "unat t + unat (drop_bit 16 t) < 2 ^ LENGTH(32)" by (simp add: unat_drop_bit)
  from unat_add_lem [THEN iffD1, OF this]
  have t2: "unat (t + drop_bit 16 t) = unat t + unat t div 65536" by (simp add: unat_drop_bit)
  have "ucast (NOT w) = (NOT (ucast w) :: u16)" for w :: u32
    by (rule bit_word_eqI) (auto simp: bit_simps)
  then have "FoldChecksum c = NOT (ucast (t + drop_bit 16 t))"
    by (simp only: FoldChecksum_def Let_def t_def)
  then show "unat (FoldChecksum c) = 65535 - fold_nat 65536 (unat c)"
    by (simp add: unat_not16 unsigned_ucast_eq take_bit_eq_mod t2 fold_nat_def t Let_def)
qed

lemma FoldChecksum_zero: "FoldChecksum c = 0 \<longleftrightarrow> oc (unat c) 65535"
proof -
  note F = FoldChecksum_fold [of c]
  have "FoldChecksum c = 0 \<longleftrightarrow> fold_nat 65536 (unat c) = 65535"
    using F(1,2) by (auto simp flip: unat_eq_zero)
  also have "\<dots> \<longleftrightarrow> oc (unat c) 65535"
    using F(2,3) oc_unique [OF oc_trans [OF F(3)], of 65535] oc_sym by auto
  finally show ?thesis .
qed

text \<open>Adding the checksum of a sum to it gives all ones.\<close>

lemma checksum_closes:
  assumes "oc (unat c) t"
  shows "oc (t + unat (FoldChecksum c)) 65535"
proof -
  note F = FoldChecksum_fold [of c]
  have "oc (t + (65535 - fold_nat 65536 (unat c)))
      (fold_nat 65536 (unat c) + (65535 - fold_nat 65536 (unat c)))"
    using oc_add [OF oc_sym [OF oc_trans [OF F(3) assms]] oc_refl] .
  then show ?thesis using F(1,2) by simp
qed

section \<open>The Internet checksum of RFC 1071\<close>

text \<open>
  The one's complement sum of big-endian 16-bit words with end-around carry, the last byte
  padded with zero, and its complement.
\<close>

definition ones_add :: "nat \<Rightarrow> nat \<Rightarrow> nat" where
  "ones_add a b = (a + b) mod 65536 + (a + b) div 65536"

fun be_words :: "u8 list \<Rightarrow> nat list" where
  "be_words [] = []"
| "be_words [b] = [256 * unat b]"
| "be_words (b0 # b1 # bs) = (256 * unat b0 + unat b1) # be_words bs"

definition rfc1071 :: "u8 list \<Rightarrow> nat" where
  "rfc1071 bytes = 65535 - foldl ones_add 0 (be_words bytes)"

lemma ones_add_oc:
  assumes "a \<le> 65535" "b \<le> 65535"
  shows "oc (ones_add a b) (a + b)" "ones_add a b \<le> 65535"
proof -
  show "oc (ones_add a b) (a + b)"
    using oc_fold16 [of "a + b"] by (simp add: ones_add_def add.commute)
  show "ones_add a b \<le> 65535"
  proof (cases "a + b < 65536")
    case False
    then have "(a + b) div 65536 = 1" "(a + b) mod 65536 = a + b - 65536"
      using assms by (simp_all add: div_nat_eqI le_mod_geq)
    with False assms show ?thesis by (simp add: ones_add_def)
  qed (simp add: ones_add_def)
qed

lemma foldl_ones_add:
  "a \<le> 65535 \<Longrightarrow> \<forall>w\<in>set ws. w \<le> 65535 \<Longrightarrow>
     oc (foldl ones_add a ws) (a + sum_list ws) \<and> foldl ones_add a ws \<le> 65535"
proof (induction ws arbitrary: a)
  case (Cons w ws)
  note O = ones_add_oc [of a w]
  have "oc (foldl ones_add (ones_add a w) ws) (ones_add a w + sum_list ws) \<and>
      foldl ones_add (ones_add a w) ws \<le> 65535"
    using Cons O by simp
  moreover have "oc (ones_add a w + sum_list ws) (a + w + sum_list ws)"
    using O Cons.prems by (intro oc_add) auto
  ultimately show ?case using oc_trans by (auto simp: add.assoc)
qed simp

lemma unat_u8: "unat (b :: u8) \<le> 255"
  using unsigned_less [of b, where 'a = nat] by simp

lemma be_words_bound: "\<forall>w\<in>set (be_words bs). w \<le> 65535"
proof (induction bs rule: be_words.induct)
  case (3 b0 b1 bs)
  then show ?case using unat_u8 [of b0] unat_u8 [of b1] by simp
next
  case (2 b)
  then show ?case using unat_u8 [of b] by simp
qed simp

lemma be_words_total: "oc (256 * total16 bs) (sum_list (be_words bs))"
proof (induction bs rule: be_words.induct)
  case (3 b0 b1 bs)
  have "oc (256 * unat b0 + 65536 * unat b1) (256 * unat b0 + unat b1)"
    by (rule oc_scale) simp
  from oc_add [OF this 3] show ?case by (simp add: algebra_simps)
qed simp_all

lemma rfc1071_sum:
  "oc (foldl ones_add 0 (be_words bs)) (256 * total16 bs)" "foldl ones_add 0 (be_words bs) \<le> 65535"
  using foldl_ones_add [of 0 "be_words bs", OF _ be_words_bound] be_words_total [of bs]
    oc_trans [OF _ oc_sym [OF be_words_total [of bs]]] by auto

lemma oc_256: "oc (256 * a) 65535 \<longleftrightarrow> oc a 65535"
proof
  assume "oc (256 * a) 65535"
  from oc_mult_cong [OF this, of 256] have "oc (65536 * a) (256 * 65535)" by simp
  moreover have "oc (65536 * a) a" using oc_scale [of 65536 0 a] by simp
  moreover have "oc (256 * 65535) 65535" by (simp add: oc_def)
  ultimately show "oc a 65535" using oc_sym oc_trans by blast
next
  assume "oc a 65535"
  from oc_mult_cong [OF this, of 256] show "oc (256 * a) 65535" by (simp add: oc_def)
qed

lemma rfc1071_zero: "rfc1071 bs = 0 \<longleftrightarrow> oc (total16 bs) 65535"
proof -
  note R = rfc1071_sum [of bs]
  have "rfc1071 bs = 0 \<longleftrightarrow> foldl ones_add 0 (be_words bs) = 65535"
    using R(2) by (auto simp: rfc1071_def)
  also have "\<dots> \<longleftrightarrow> oc (256 * total16 bs) 65535"
    using R oc_unique [OF oc_trans [OF R(1)], of 65535] oc_sym by auto
  finally show ?thesis by (simp add: oc_256)
qed

lemma unat_swap16: "unat (swap16 w) = 256 * (unat w mod 256) + unat w div 256"
proof -
  have "push_bit 8 w OR drop_bit 8 w = push_bit 8 w + drop_bit 8 w"
    by (rule disjunctive_add [symmetric]) (auto simp: bit_simps dest: bit_imp_le_length)
  moreover have p: "unat (push_bit 8 w) = 256 * (unat w mod 256)"
  proof -
    have "unat (push_bit 8 w) = (unat w * 256) mod 65536"
      by (simp add: push_bit_eq_mult unat_word_ariths)
    also have "\<dots> = 256 * (unat w mod 256)"
      using mult_mod_right [of 256 "unat w" 256] by (simp add: mult.commute)
    finally show ?thesis .
  qed
  moreover have d: "unat (drop_bit 8 w) = unat w div 256" by (simp add: unat_drop_bit)
  moreover have "unat w div 256 < 256" using unat_le16 [of w] by (simp add: less_mult_imp_div_less)
  moreover have "unat w mod 256 < 256" by simp
  ultimately have "unat (push_bit 8 w) + unat (drop_bit 8 w) < 2 ^ LENGTH(16)" by simp
  from unat_add_lem [THEN iffD1, OF this] show ?thesis
    unfolding swap16_def \<open>push_bit 8 w OR drop_bit 8 w = push_bit 8 w + drop_bit 8 w\<close> p d .
qed

lemma swap16_not: "swap16 (NOT w) = NOT (swap16 w)"
  unfolding swap16_def by (rule bit_word_eqI) (auto simp: bit_simps dest: bit_imp_le_length)

lemma swap16_oc: "oc (unat (swap16 w)) (256 * unat w)"
proof -
  have "256 * unat w = 256 * (unat w mod 256) + 65536 * (unat w div 256)"
    using mult_div_mod_eq [of 256 "unat w"] by linarith
  moreover have "oc (256 * (unat w mod 256) + 65536 * (unat w div 256))
      (256 * (unat w mod 256) + unat w div 256)" by (rule oc_scale) simp
  ultimately show ?thesis using oc_sym by (simp add: unat_swap16)
qed

section \<open>Stores and loads of header fields\<close>

lemma length_store16 [simp]: "length (store16 i w buf) = length buf"
  by (simp add: store16_def)

lemma load16_store16_same: "i + 1 < length buf \<Longrightarrow> load16 (store16 i w buf) i = w"
proof -
  assume "i + 1 < length buf"
  moreover have "unat (ucast w :: u8) = unat w mod 256"
    by (simp add: unsigned_ucast_eq take_bit_eq_mod)
  moreover have "unat (ucast (drop_bit 8 w) :: u8) = unat w div 256"
    using unat_le16 [of w] by (simp add: unsigned_ucast_eq take_bit_eq_mod unat_drop_bit
        less_mult_imp_div_less)
  ultimately have "unat (load16 (store16 i w buf) i) = unat w"
    by (simp add: unat_load16) (simp add: store16_def)
  then show ?thesis by (simp add: word_unat_eq_iff)
qed

lemma load16_store16_other:
  "j + 1 < i \<or> i + 1 < j \<Longrightarrow> load16 (store16 i w buf) j = load16 buf j"
  by (auto simp: load16_def store16_def nth_list_update)

lemma load32_store16_other:
  "j + 3 < i \<or> i + 1 < j \<Longrightarrow> load32 (store16 i w buf) j = load32 buf j"
  by (auto simp: load32_def load16_store16_other)

lemma drop_store16: "i + 2 \<le> n \<Longrightarrow> drop n (store16 i w buf) = drop n buf"
  by (simp add: store16_def)

lemma unat_load32_low: "unat (load32 buf i AND 0xFFFF) = unat (load16 buf i)"
proof -
  have "load32 buf i AND 0xFFFF = take_bit 16 (load32 buf i)"
    by (simp add: take_bit_eq_mask mask_eq_exp_minus_1)
  then have "unat (load32 buf i AND 0xFFFF) = unat (load32 buf i) mod 65536"
    using unat_take_bit [of 16 "load32 buf i"] by simp
  then show ?thesis using unat_le16 [of "load16 buf i"] by (simp add: unat_load32)
qed

lemma unat_load32_high: "unat (drop_bit 16 (load32 buf i)) = unat (load16 buf (i + 2))"
  using unat_le16 [of "load16 buf i"] by (simp add: unat_drop_bit unat_load32)

lemma load32_oc: "oc (unat (load32 buf i)) (unat (load16 buf i) + unat (load16 buf (i + 2)))"
  unfolding unat_load32 by (rule oc_scale) simp

text \<open>A chain over a list is the sum of the list, whatever the parts are replaced by.\<close>

lemma chain_closes:
  assumes c: "oc (unat c) (t + r)" and s: "oc (unat s) (t + (r + unat (FoldChecksum c)))"
  shows "FoldChecksum s = 0"
proof -
  have "oc (t + r + unat (FoldChecksum c)) 65535" by (rule checksum_closes [OF c])
  then have "oc (t + (r + unat (FoldChecksum c))) 65535" by (simp only: add.assoc)
  from oc_trans [OF s this] show ?thesis by (simp only: FoldChecksum_zero)
qed

section \<open>Properties\<close>

text \<open>
  C19. The optimised checksum of a buffer (vector block, 64-bit add-with-carry chains,
  folding; with and without AVX2), stored on a little-endian machine, is the Internet checksum
  of RFC 1071 in network byte order.
\<close>

theorem CalculateGenericChecksum_rfc1071:
  assumes "len \<le> length buf" and "len < 2 ^ 34"
  shows "unat (swap16 (CalculateGenericChecksum avx2 buf len)) = rfc1071 (take len buf)"
proof -
  let ?c = "CalculateSum avx2 buf len"
  define f where "f = (of_nat (fold_nat 65536 (unat ?c)) :: u16)"
  note F = FoldChecksum_fold [of ?c]
  have f: "unat f = fold_nat 65536 (unat ?c)"
    using F(2) by (simp add: f_def unsigned_of_nat take_bit_nat_eq_self)
  have "FoldChecksum ?c = NOT f"
    using F(1) f by (simp add: word_unat_eq_iff unat_not16)
  then have "unat (swap16 (CalculateGenericChecksum avx2 buf len)) = 65535 - unat (swap16 f)"
    by (simp add: CalculateGenericChecksum_def swap16_not unat_not16)
  moreover have "oc (unat (swap16 f)) (256 * total16 (take len buf))"
  proof -
    have "oc (unat f) (total16 (take len buf))"
      using oc_trans [OF F(3) CalculateSum_oc [OF assms]] by (simp add: f window_def)
    from oc_trans [OF swap16_oc oc_mult_cong [OF this, of 256]] show ?thesis by simp
  qed
  then have "unat (swap16 f) = foldl ones_add 0 (be_words (take len buf))"
    using oc_trans [OF _ oc_sym [OF rfc1071_sum(1)]] rfc1071_sum(2) [of "take len buf"]
      unat_le16 [of "swap16 f"] by (intro oc_unique) auto
  ultimately show ?thesis by (simp add: rfc1071_def)
qed

theorem CalculateGenericChecksum_rfc1071_witness:
  "unat (swap16 (CalculateGenericChecksum True [0x45, 0, 0xFF] 3)) = 0xBBFE \<and>
   rfc1071 [0x45, 0, 0xFF] = 0xBBFE + 0"
proof -
  have r: "rfc1071 [0x45, 0, 0xFF] = 0xBBFE" by (simp add: rfc1071_def ones_add_def)
  from CalculateGenericChecksum_rfc1071 [of 3 "[0x45, 0, 0xFF]" True] show ?thesis
    by (simp add: r)
qed

lemma oc_cong: "oc a b \<Longrightarrow> oc a c \<longleftrightarrow> oc b c"
  by (simp add: oc_def)

lemma header_sum: "sum32 buf 0 5 = unat (load32 buf 0) + unat (load32 buf 4) + unat (load32 buf 8) +
    unat (load32 buf 12) + unat (load32 buf 16)"
  by (simp add: sum32_def upt_rec)

lemma window_drop: "window (drop k buf) 0 n = window buf k n"
  by (simp add: window_def)

lemma ipv4_header_length_bound: "4 * ipv4_header_length iph \<le> 60"
proof -
  have "iph ! 0 AND 0xF = take_bit 4 (iph ! 0)" by (simp add: take_bit_eq_mask mask_eq_exp_minus_1)
  then have "ipv4_header_length iph = unat (iph ! 0) mod 16"
    using unat_take_bit [of 4 "iph ! 0"] by (simp add: ipv4_header_length_def)
  moreover have "unat (iph ! 0) mod 16 < 16" by simp
  ultimately show ?thesis by linarith
qed

lemma verify_iff:
  assumes "4 * ipv4_header_length iph \<le> length iph"
  shows "VerifyIpv4Checksum avx2 iph \<longleftrightarrow>
    20 \<le> 4 * ipv4_header_length iph \<and> rfc1071 (take (4 * ipv4_header_length iph) iph) = 0"
proof (cases "20 \<le> 4 * ipv4_header_length iph")
  case False
  then show ?thesis by (simp add: VerifyIpv4Checksum_def)
next
  case True
  define n where "n = 4 * ipv4_header_length iph - 20"
  have hl: "4 * ipv4_header_length iph = 20 + n" using True by (simp add: n_def)
  let ?p = "CalculateSum avx2 (drop 20 iph) n"
  let ?s = "adc_chain [load32 iph 0, load32 iph 4, load32 iph 8, load32 iph 12, load32 iph 16] ?p"
  have "n \<le> length (drop 20 iph)" "n < 2 ^ 34"
    using assms hl ipv4_header_length_bound [of iph] by simp_all
  from CalculateSum_oc [OF this, of avx2] have p: "oc (unat ?p) (window iph 20 n)"
    by (simp add: window_drop)
  have 1: "oc (unat ?s) (unat ?p + sum32 iph 0 5)"
    using adc_chain_oc_32 [of "[load32 iph 0, load32 iph 4, load32 iph 8, load32 iph 12,
      load32 iph 16]" ?p] by (simp add: header_sum algebra_simps)
  have 2: "oc (unat ?p + sum32 iph 0 5) (window iph 20 n + window iph 0 20)"
    using sum32_window [of 0 5 iph] assms hl by (intro oc_add [OF p]) simp
  have 3: "window iph 0 (20 + n) = window iph 20 n + window iph 0 20"
    using window_split [of 20 0 n iph] assms hl by simp
  have "oc (unat ?s) (total16 (take (20 + n) iph))"
    using oc_trans [OF 1 2] 3 by (simp add: window_def)
  then have "FoldChecksum ?s = 0 \<longleftrightarrow> rfc1071 (take (20 + n) iph) = 0"
    unfolding FoldChecksum_zero rfc1071_zero by (rule oc_cong)
  then show ?thesis by (simp add: VerifyIpv4Checksum_def Let_def hl)
qed

text \<open>
  C18. The IPv4 header verifier accepts exactly the headers that are long enough and whose
  bytes, checksum field included, have the one's complement sum of all ones (RFC 1071).
\<close>

theorem VerifyIpv4Checksum_rfc1071:
  assumes "4 * ipv4_header_length iph \<le> length iph"
  shows "VerifyIpv4Checksum avx2 iph \<longleftrightarrow>
    20 \<le> 4 * ipv4_header_length iph \<and> rfc1071 (take (4 * ipv4_header_length iph) iph) = 0"
  by (rule verify_iff [OF assms])

definition example_ipv4 :: "u8 list" where
  "example_ipv4 = [0x45, 0, 0, 0x73, 0, 0, 0x40, 0, 0x40, 0x11, 0xB8, 0x61,
                   0xC0, 0xA8, 0, 1, 0xC0, 0xA8, 0, 0xC7]"

theorem VerifyIpv4Checksum_rfc1071_witness: "VerifyIpv4Checksum True example_ipv4"
proof -
  have h: "4 * ipv4_header_length example_ipv4 = 20"
    by (simp add: ipv4_header_length_def example_ipv4_def)
  moreover have "rfc1071 example_ipv4 = 0"
    by (simp add: rfc1071_def ones_add_def example_ipv4_def)
  moreover have "length example_ipv4 = 20" by (simp add: example_ipv4_def)
  ultimately show ?thesis using VerifyIpv4Checksum_rfc1071 [of example_ipv4 True] by simp
qed

lemma ipv4_roundtrip:
  assumes "20 \<le> 4 * ipv4_header_length iph" and "4 * ipv4_header_length iph \<le> length iph"
  shows "VerifyIpv4NoOptChecksum (store16 10 (CalculateIpv4NoOptChecksum iph) iph) \<and>
    VerifyIpv4Checksum avx2 (store16 10 (CalculateIpv4Checksum avx2 iph) iph)"
proof
  have l: "20 \<le> length iph" using assms by simp
  let ?w = "\<lambda>i. unat (load32 iph i)"
  let ?t = "?w 0 + ?w 4 + ?w 12 + ?w 16"
  let ?r = "unat (load16 iph 8)"
  have st: "oc (unat (load32 (store16 10 w iph) 8)) (?r + unat w)" for w
    using load32_oc [of "store16 10 w iph" 8] l
    by (simp add: load16_store16_other load16_store16_same)
  show "VerifyIpv4NoOptChecksum (store16 10 (CalculateIpv4NoOptChecksum iph) iph)"
  proof -
    let ?c = "adc_chain [load32 iph 4, load32 iph 8 AND 0xFFFF, load32 iph 12, load32 iph 16]
        (load32 iph 0)"
    let ?h = "store16 10 (FoldChecksum ?c) iph"
    let ?s = "adc_chain [load32 ?h 4, load32 ?h 8, load32 ?h 12, load32 ?h 16] (load32 ?h 0)"
    have "oc (unat ?c) (?t + ?r)"
      using adc_chain_oc_32 [of "[load32 iph 4, load32 iph 8 AND 0xFFFF, load32 iph 12,
        load32 iph 16]" "load32 iph 0"] by (simp add: unat_load32_low algebra_simps)
    moreover have "oc (unat ?s) (?t + (?r + unat (FoldChecksum ?c)))"
      using oc_trans [OF adc_chain_oc_32 [of "[load32 ?h 4, load32 ?h 8, load32 ?h 12,
        load32 ?h 16]" "load32 ?h 0"]] oc_add [OF oc_refl [of ?t] st [of "FoldChecksum ?c"]]
      by (simp add: load32_store16_other algebra_simps)
    ultimately have "FoldChecksum ?s = 0" by (rule chain_closes)
    then show ?thesis by (simp add: VerifyIpv4NoOptChecksum_def CalculateIpv4NoOptChecksum_def)
  qed
  show "VerifyIpv4Checksum avx2 (store16 10 (CalculateIpv4Checksum avx2 iph) iph)"
  proof -
    let ?p = "CalculateSum avx2 (drop 20 iph) (4 * ipv4_header_length iph - 20)"
    let ?c = "adc_chain [load32 iph 0, load32 iph 4, load32 iph 8 AND 0xFFFF, load32 iph 12,
        load32 iph 16] ?p"
    let ?h = "store16 10 (FoldChecksum ?c) iph"
    let ?s = "adc_chain [load32 ?h 0, load32 ?h 4, load32 ?h 8, load32 ?h 12, load32 ?h 16] ?p"
    have "oc (unat ?c) ((?t + unat ?p) + ?r)"
      using adc_chain_oc_32 [of "[load32 iph 0, load32 iph 4, load32 iph 8 AND 0xFFFF,
        load32 iph 12, load32 iph 16]" ?p] by (simp add: unat_load32_low algebra_simps)
    moreover have "oc (unat ?s) ((?t + unat ?p) + (?r + unat (FoldChecksum ?c)))"
      using oc_trans [OF adc_chain_oc_32 [of "[load32 ?h 0, load32 ?h 4, load32 ?h 8,
        load32 ?h 12, load32 ?h 16]" ?p]]
        oc_add [OF oc_refl [of "?t + unat ?p"] st [of "FoldChecksum ?c"]]
      by (simp add: load32_store16_other algebra_simps)
    ultimately have "FoldChecksum ?s = 0" by (rule chain_closes)
    moreover have "ipv4_header_length (store16 10 w iph) = ipv4_header_length iph" for w
      by (simp add: ipv4_header_length_def store16_def)
    ultimately show ?thesis using assms
      by (simp add: VerifyIpv4Checksum_def CalculateIpv4Checksum_def Let_def drop_store16)
  qed
qed

text \<open>
  A header whose checksum field is set to the computed checksum is accepted, with and
  without options.
\<close>

lemma Ipv4_checksum_roundtrip:
  assumes "20 \<le> 4 * ipv4_header_length iph" and "4 * ipv4_header_length iph \<le> length iph"
  shows "VerifyIpv4NoOptChecksum (store16 10 (CalculateIpv4NoOptChecksum iph) iph) \<and>
    VerifyIpv4Checksum avx2 (store16 10 (CalculateIpv4Checksum avx2 iph) iph)"
  by (rule ipv4_roundtrip [OF assms])

text \<open>
  C28. A UDP datagram (with its pseudo header) whose checksum field is set to the computed
  checksum is accepted, and that checksum is never zero, which would mean "not computed".
\<close>

theorem Ipv4Udp_checksum_roundtrip:
  assumes "8 \<le> unat (be16_value udph 4)" and "unat (be16_value udph 4) \<le> length udph"
  shows "CalculateIpv4UdpChecksum avx2 iph udph \<noteq> 0 \<and>
    VerifyIpv4UdpChecksum avx2 iph (store16 6 (CalculateIpv4UdpChecksum avx2 iph udph) udph)"
proof -
  let ?n = "be16_value udph 4"
  let ?p = "CalculateSum avx2 (drop 8 udph) (unat ?n - 8)"
  let ?len = "ucast (swap16 ?n) :: u32" and ?src = "load32 iph 12" and ?dst = "load32 iph 16"
  let ?c = "adc_chain [load32 udph 0, load32 udph 4 AND 0xFFFF, ?src, ?dst, ?len, 0x1100] ?p"
  let ?ck = "if FoldChecksum ?c \<noteq> 0 then FoldChecksum ?c else 0xFFFF"
  let ?h = "store16 6 ?ck udph"
  let ?s = "adc_chain [load32 ?h 0, load32 ?h 4, ?src, ?dst, ?len, 0x1100] ?p"
  let ?t = "unat (load32 udph 0) + unat ?src + unat ?dst + unat ?len + unat (0x1100 :: u32) + unat ?p"
  let ?r = "unat (load16 udph 4)"
  have l: "8 \<le> length udph" using assms by simp
  have c: "oc (unat ?c) (?t + ?r)"
    using adc_chain_oc_32 [of "[load32 udph 0, load32 udph 4 AND 0xFFFF, ?src, ?dst, ?len, 0x1100]" ?p]
    by (simp add: unat_load32_low algebra_simps)
  have "oc (unat (load32 ?h 4)) (?r + unat ?ck)"
    using load32_oc [of ?h 4] l by (simp add: load16_store16_other load16_store16_same)
  from oc_add [OF oc_refl [of ?t] this] have s: "oc (unat ?s) (?t + (?r + unat ?ck))"
    using oc_trans [OF adc_chain_oc_32 [of "[load32 ?h 0, load32 ?h 4, ?src, ?dst, ?len, 0x1100]" ?p]]
    by (simp add: load32_store16_other algebra_simps)
  have "FoldChecksum ?s = 0"
  proof (cases "FoldChecksum ?c = 0")
    case False
    with c s show ?thesis using chain_closes [of ?c ?t ?r ?s] by simp
  next
    case True
    then have "oc (?t + ?r) 65535" using oc_cong [OF c] by (simp add: FoldChecksum_zero)
    from oc_add [OF this oc_refl [of 65535]] have "oc (?t + ?r + 65535) 65535"
      by (simp add: oc_def)
    with True s show ?thesis using oc_cong [OF s, of 65535] by (simp add: FoldChecksum_zero add.assoc)
  qed
  moreover have "be16_value ?h 4 = ?n" by (simp add: be16_value_def load16_store16_other)
  moreover have "CalculateIpv4UdpChecksum avx2 iph udph = ?ck"
    using assms by (simp add: CalculateIpv4UdpChecksum_def CalculateIpv4UdpChecksum_pseudo_def Let_def)
  ultimately show ?thesis
    using assms by (simp add: VerifyIpv4UdpChecksum_def VerifyIpv4UdpChecksum_pseudo_def Let_def
        drop_store16)
qed

theorem Ipv4Udp_checksum_roundtrip_witness:
  "VerifyIpv4UdpChecksum False example_ipv4
     (store16 6 (CalculateIpv4UdpChecksum False example_ipv4 [0, 53, 0, 80, 0, 9, 0, 0, 7])
       [0, 53, 0, 80, 0, 9, 0, 0, 7])"
  using Ipv4Udp_checksum_roundtrip [of "[0, 53, 0, 80, 0, 9, 0, 0, 7]" False example_ipv4]
  by (simp add: be16_value_def load16_def swap16_def)

text \<open>
  A TCP segment (with its pseudo header, the length derived from the IP header) whose
  checksum field is set to the computed checksum is accepted.
\<close>

lemma Ipv4Tcp_checksum_roundtrip:
  assumes "4 * ipv4_header_length iph + 20 \<le> unat (be16_value iph 2)"
    and "unat (be16_value iph 2) - 4 * ipv4_header_length iph \<le> length tcph"
  shows "VerifyIpv4TcpChecksum avx2 iph (store16 16 (CalculateIpv4TcpChecksum avx2 iph tcph) tcph)"
proof -
  let ?n = "of_nat (unat (be16_value iph 2) - 4 * ipv4_header_length iph) :: u16"
  let ?p = "CalculateSum avx2 (drop 20 tcph) (unat ?n - 20)"
  let ?len = "ucast (swap16 ?n) :: u32" and ?src = "load32 iph 12" and ?dst = "load32 iph 16"
  let ?c = "adc_chain [load32 tcph 0, load32 tcph 4, load32 tcph 8, load32 tcph 12,
      drop_bit 16 (load32 tcph 16), ?src, ?dst, ?len, 0x0600] ?p"
  let ?h = "store16 16 (FoldChecksum ?c) tcph"
  let ?s = "adc_chain [load32 ?h 0, load32 ?h 4, load32 ?h 8, load32 ?h 12, load32 ?h 16,
      ?src, ?dst, ?len, 0x0600] ?p"
  let ?t = "unat (load32 tcph 0) + unat (load32 tcph 4) + unat (load32 tcph 8) +
      unat (load32 tcph 12) + unat ?src + unat ?dst + unat ?len + unat (0x0600 :: u32) + unat ?p"
  let ?r = "unat (load16 tcph 18)"
  have l: "20 \<le> length tcph" using assms by simp
  have c: "oc (unat ?c) (?t + ?r)"
    using adc_chain_oc_32 [of "[load32 tcph 0, load32 tcph 4, load32 tcph 8, load32 tcph 12,
      drop_bit 16 (load32 tcph 16), ?src, ?dst, ?len, 0x0600]" ?p] unat_load32_high [of tcph 16]
    by (simp add: algebra_simps)
  have "oc (unat (load32 ?h 16)) (?r + unat (FoldChecksum ?c))"
    using load32_oc [of ?h 16] l by (simp add: load16_store16_other load16_store16_same add.commute)
  from oc_add [OF oc_refl [of ?t] this] have s: "oc (unat ?s) (?t + (?r + unat (FoldChecksum ?c)))"
    using oc_trans [OF adc_chain_oc_32 [of "[load32 ?h 0, load32 ?h 4, load32 ?h 8, load32 ?h 12,
      load32 ?h 16, ?src, ?dst, ?len, 0x0600]" ?p]]
    by (simp add: load32_store16_other algebra_simps)
  have "FoldChecksum ?s = 0" by (rule chain_closes [OF c s])
  moreover have "CalculateIpv4TcpChecksum avx2 iph tcph = FoldChecksum ?c"
    using assms by (simp add: CalculateIpv4TcpChecksum_def CalculateIpv4TcpChecksum_pseudo_def Let_def)
  ultimately show ?thesis
    using assms by (simp add: VerifyIpv4TcpChecksum_def VerifyIpv4TcpChecksum_pseudo_def Let_def
        drop_store16)
qed

section \<open>Incremental update\<close>

text \<open>The sum of the two halves of a 32-bit value, which counts as the value itself.\<close>

abbreviation halves :: "u32 \<Rightarrow> nat" where
  "halves w \<equiv> unat w div 65536 + unat w mod 65536"

lemma oc_halves: "oc (unat w) (halves w)" for w :: u32
  using oc_sym [OF oc_fold [of 65536 "unat w"]] by simp

lemma unat_and_ffff: "unat (w AND 0xFFFF) = unat w mod 65536" for w :: u32
  using unat_take_bit [of 16 w] by (simp add: take_bit_eq_mask mask_eq_exp_minus_1)

lemma unat_not32: "unat (NOT w) = 4294967295 - unat w" for w :: u32
proof -
  have "NOT w = - 1 - w" by (simp add: not_eq_complement)
  moreover have "unat (- 1 - w) = unat (- 1 :: u32) - unat w" by (rule unat_sub) simp
  ultimately show ?thesis by (simp add: unsigned_minus_1_eq_mask mask_eq_exp_minus_1)
qed

lemma halves_not: "halves (NOT w) + halves w = 131070"
proof -
  define h l where "h = unat w div 65536" and "l = unat w mod 65536"
  have w: "unat w = 65536 * h + l" and l: "l < 65536" unfolding h_def l_def by simp_all
  have "unat w < 4294967296" using unsigned_less [of w, where 'a = nat] by simp
  with w have h: "h < 65536" by linarith
  define a b where "a = 65535 - l" and "b = 65535 - h"
  have "unat (NOT w) = a + 65536 * b" and "a < 65536"
    using w l h by (simp_all add: unat_not32 a_def b_def)
  then have "halves (NOT w) = a + b" by simp
  moreover have "halves w = h + l" using w l by simp
  ultimately show ?thesis using l h by (simp add: a_def b_def)
qed

lemma halves_bound: "halves w \<le> 131070"
  using halves_not [of w] by linarith

lemma ChecksumIncrement32_value:
  "unat (ChecksumIncrement32 old new) = halves (NOT old) + halves new"
proof -
  have "halves (NOT old) + halves new < 4294967296"
    using halves_bound [of "NOT old"] halves_bound [of new] by linarith
  then show ?thesis
    by (simp add: ChecksumIncrement32_def Let_def unat_word_ariths unat_drop_bit unat_and_ffff)
qed

lemma unat_not_ucast16: "unat (NOT (ucast w) AND (0xFFFF :: u32)) = 65535 - unat w" for w :: u16
proof -
  have "unat w \<le> 65535" by (rule unat_le16)
  then obtain a where a: "unat w + a = 65535" by (metis le_Suc_ex)
  then have "4294967295 - unat w = a + 65536 * 65535" "a < 65536" by simp_all
  then have "(4294967295 - unat w) mod 65536 = a" by (metis mod_less mod_mult_self2)
  with a show ?thesis by (simp add: unat_and_ffff unat_not32 unat_ucast_up)
qed

lemma ChecksumIncrement16_value:
  "unat (ChecksumIncrement16 old new) = 65535 - unat old + unat new"
proof -
  have "unat old < 65536" "unat new < 65536" using unsigned_less [of old] unsigned_less [of new] by simp_all
  then show ?thesis
    by (simp add: ChecksumIncrement16_def unat_word_ariths unat_not_ucast16 unat_ucast_up)
qed

text \<open>
  The general fact: a sum of increments that, together with the old fields, amounts to the
  new fields (up to multiples of 65535) turns the old checksum into the new one.
\<close>

lemma update_recomputes:
  assumes old: "oc (unat c) (t + o')" and inc: "unat inc + o' = n' + 65535 * k"
    and room: "unat inc < 4294901760" and new: "oc (unat c') (t + n')" and pos: "0 < t + n'"
  shows "UpdateChecksumWithIncrement (FoldChecksum c) inc = FoldChecksum c'"
proof -
  let ?f = "fold_nat 65536 (unat c)" and ?f' = "fold_nat 65536 (unat c')"
  let ?s = "(NOT (ucast (FoldChecksum c)) AND 0xFFFF) + inc"
  have f: "?f \<le> 65535" and foc: "oc ?f (t + o')"
    using oc_trans [OF FoldChecksum_fold(3) old] by (simp_all add: FoldChecksum_fold(2))
  have "unat (NOT (ucast (FoldChecksum c)) AND (0xFFFF :: u32)) = ?f"
    using f by (simp add: unat_not_ucast16 FoldChecksum_fold(1))
  then have s: "unat ?s = ?f + unat inc"
    using room f by (simp add: unat_word_ariths)
  have "t + o' + unat inc = t + n' + 65535 * k" using inc by linarith
  with oc_add [OF foc oc_refl [of "unat inc"]] have "oc (?f + unat inc) (t + n' + 65535 * k)"
    by (simp only:)
  moreover have "oc (t + n' + 65535 * k) (t + n')" using pos by (auto simp: oc_def)
  ultimately have "oc (unat ?s) (t + n')" using oc_trans s by simp
  from oc_trans [OF FoldChecksum_fold(3) oc_trans [OF this oc_sym [OF new]]]
  have "oc (fold_nat 65536 (unat ?s)) ?f'"
    using oc_sym [OF FoldChecksum_fold(3)] by (rule oc_trans)
  then have "fold_nat 65536 (unat ?s) = ?f'"
    by (rule oc_unique) (simp_all add: FoldChecksum_fold(2))
  then show ?thesis
    by (simp add: UpdateChecksumWithIncrement_def word_unat_eq_iff FoldChecksum_fold(1))
qed

lemma sum_increments32:
  "unat (\<Sum>(old, new) \<leftarrow> us. ChecksumIncrement32 old new) =
     (\<Sum>(old, new) \<leftarrow> us. halves (NOT old) + halves new) \<and>
   (\<Sum>(old, new) \<leftarrow> us. halves (NOT old) + halves new) + (\<Sum>(old, new) \<leftarrow> us. halves old) =
     (\<Sum>(old, new) \<leftarrow> us. halves new) + 131070 * length us \<and>
   (\<Sum>(old, new) \<leftarrow> us. halves (NOT old) + halves new) \<le> 262140 * length us"
  if "length us \<le> 16000"
  using that
proof (induction us)
  case (Cons u us)
  obtain old new where u: "u = (old, new)" by (cases u)
  let ?i = "\<Sum>(old, new) \<leftarrow> us. halves (NOT old) + halves new"
  have i: "?i \<le> 262140 * length us" using Cons by simp
  have "unat (ChecksumIncrement32 old new) \<le> 262140"
    using halves_bound [of "NOT old"] halves_bound [of new] by (simp add: ChecksumIncrement32_value)
  with i Cons show ?case
    using halves_not [of old] halves_bound [of "NOT old"] halves_bound [of new]
    by (simp add: u unat_word_ariths ChecksumIncrement32_value)
qed simp

lemma oc_pos: "oc a b \<Longrightarrow> 0 < a \<Longrightarrow> 0 < b"
  by (simp add: oc_def)

lemma oc_sum_halves:
  "oc (\<Sum>u \<leftarrow> us. unat (f u)) (\<Sum>u \<leftarrow> us. halves (f u))"
  by (induction us) (auto intro: oc_add oc_halves)

text \<open>
  C29. Incremental update: when 16-bit or 32-bit fields change from their old to their new
  values, UpdateChecksum16, UpdateChecksum32 and UpdateChecksumWithIncrement over the sum of
  the ChecksumIncrement32 of up to 16000 changes turn the checksum of the old data into the
  checksum a recomputation over the new data gives, provided the new data is not all zero.
\<close>

theorem UpdateChecksum_recomputes:
  assumes "0 < t + unat new16" and "0 < t + unat new32" and "0 < t + (\<Sum>u \<leftarrow> us. unat (snd u))"
    and "length us \<le> 16000"
  shows "(oc (unat c) (t + unat old16) \<longrightarrow> oc (unat c') (t + unat new16) \<longrightarrow>
      UpdateChecksum16 (FoldChecksum c) old16 new16 = FoldChecksum c') \<and>
    (oc (unat c) (t + unat old32) \<longrightarrow> oc (unat c') (t + unat new32) \<longrightarrow>
      UpdateChecksum32 (FoldChecksum c) old32 new32 = FoldChecksum c') \<and>
    (oc (unat c) (t + (\<Sum>u \<leftarrow> us. unat (fst u))) \<longrightarrow>
      oc (unat c') (t + (\<Sum>u \<leftarrow> us. unat (snd u))) \<longrightarrow>
      UpdateChecksumWithIncrement (FoldChecksum c) (\<Sum>(old, new) \<leftarrow> us. ChecksumIncrement32 old new) =
      FoldChecksum c')"
proof (intro conjI)
  have e16: "unat (ChecksumIncrement16 old16 new16) + unat old16 = unat new16 + 65535 * 1"
    using unat_le16 [of old16] by (simp add: ChecksumIncrement16_value)
  have "unat (ChecksumIncrement16 old16 new16) < 4294901760"
    using unat_le16 [of new16] by (simp add: ChecksumIncrement16_value)
  with e16 assms(1) show "oc (unat c) (t + unat old16) \<longrightarrow> oc (unat c') (t + unat new16) \<longrightarrow>
      UpdateChecksum16 (FoldChecksum c) old16 new16 = FoldChecksum c'"
    by (simp add: UpdateChecksum16_def update_recomputes [OF _ e16])
  have list: "UpdateChecksumWithIncrement (FoldChecksum c)
      (\<Sum>(old, new) \<leftarrow> us. ChecksumIncrement32 old new) = FoldChecksum c'"
    if o: "oc (unat c) (t + (\<Sum>u \<leftarrow> us. unat (fst u)))" and n: "oc (unat c') (t + (\<Sum>u \<leftarrow> us. unat (snd u)))"
      and p: "0 < t + (\<Sum>u \<leftarrow> us. unat (snd u))" and l: "length us \<le> 16000" for us
  proof -
    note s = sum_increments32 [OF l, unfolded case_prod_unfold]
    have e: "unat (\<Sum>u \<leftarrow> us. ChecksumIncrement32 (fst u) (snd u)) + (\<Sum>u \<leftarrow> us. halves (fst u)) =
      (\<Sum>u \<leftarrow> us. halves (snd u)) + 65535 * (2 * length us)"
      and b: "unat (\<Sum>u \<leftarrow> us. ChecksumIncrement32 (fst u) (snd u)) < 4294901760"
      using s l by linarith+
    have "oc (unat c) (t + (\<Sum>u \<leftarrow> us. halves (fst u)))"
      by (rule oc_trans [OF o oc_add [OF oc_refl oc_sum_halves]])
    moreover have n': "oc (t + (\<Sum>u \<leftarrow> us. unat (snd u))) (t + (\<Sum>u \<leftarrow> us. halves (snd u)))"
      by (rule oc_add [OF oc_refl oc_sum_halves])
    moreover have "oc (unat c') (t + (\<Sum>u \<leftarrow> us. halves (snd u)))" by (rule oc_trans [OF n n'])
    moreover have "0 < t + (\<Sum>u \<leftarrow> us. halves (snd u))" by (rule oc_pos [OF n' p])
    ultimately show ?thesis
      unfolding case_prod_unfold by (intro update_recomputes [OF _ e b])
  qed
  show "oc (unat c) (t + (\<Sum>u \<leftarrow> us. unat (fst u))) \<longrightarrow>
      oc (unat c') (t + (\<Sum>u \<leftarrow> us. unat (snd u))) \<longrightarrow>
      UpdateChecksumWithIncrement (FoldChecksum c) (\<Sum>(old, new) \<leftarrow> us. ChecksumIncrement32 old new) =
      FoldChecksum c'"
    by (intro impI list assms(3,4))
  show "oc (unat c) (t + unat old32) \<longrightarrow> oc (unat c') (t + unat new32) \<longrightarrow>
      UpdateChecksum32 (FoldChecksum c) old32 new32 = FoldChecksum c'"
    using list [of "[(old32, new32)]"] assms(2) by (simp add: UpdateChecksum32_def)
qed

theorem UpdateChecksum_recomputes_witness:
  "UpdateChecksum16 (FoldChecksum 0x1234) 0x234 0x5678 = FoldChecksum 0x6678 \<and>
   UpdateChecksumWithIncrement (FoldChecksum 0x1234) (ChecksumIncrement32 0x200 0x300 + ChecksumIncrement32 0x34 0)
     = FoldChecksum 0x1300"
  using UpdateChecksum_recomputes [of "0x1000" "0x5678" 1 "[]" "0x1234" "0x234" "0x6678" 0]
    UpdateChecksum_recomputes [of "0x1000" 1 1 "[(0x200, 0x300), (0x34, 0)]" "0x1234" 0 "0x1300" 0]
  by simp

end
