(* ===== verification/Go_Prelude.thy ===== *)
theory Go_Prelude
  imports Upf_Prelude
begin

text \<open>
  Shared vocabulary of the PFCP agent (\<^verbatim>\<open>pfcpiface/*.go\<close>): its errors as values
  (\<^verbatim>\<open>errors.go\<close> and the error variables of the handlers), the result type of fallible
  functions, the byte-order helpers of \<^verbatim>\<open>utils.go\<close> and the contract of an identifier
  allocator. A run-time panic has no result: such functions return \<open>None\<close>.
\<close>

section \<open>Errors\<close>

text \<open>
  The constructors of \<^verbatim>\<open>errors.go\<close> without the values they only format, then the errors other
  code returns as they are: of the flow-description parser, of \<^verbatim>\<open>strconv\<close> and \<^verbatim>\<open>net\<close>, of
  the decoders of information elements, and of the session handlers.
\<close>

datatype pfcp_error =
    ErrUnsupported string
  | ErrNotFound string
  | ErrNotFoundWithParam string string
  | ErrInvalidOperation
  | ErrInvalidArgument string
  | ErrInvalidArgumentWithReason string string
  | ErrOperationFailedWithReason string string
  | ErrOperationFailedWithParam string string
  | ErrNoIDRange
  | ErrBadFilterDesc
  | ErrSyntax
  | ErrIE
  | ErrWriteToDatapath
  | ErrAssocNotFound
  | ErrAllocateSession
  | ErrNodeIDMissing
  | ErrCPFSEIDMissing
  | ErrCauseMissing
  | ErrAssocReleasing

type_synonym 'a result = "pfcp_error + 'a"

definition bind_result :: "'a result \<Rightarrow> ('a \<Rightarrow> 'b result) \<Rightarrow> 'b result" where
  "bind_result r f = (case r of Inl e \<Rightarrow> Inl e | Inr x \<Rightarrow> f x)"

lemma bind_result_simps [simp]:
  "bind_result (Inl e) f = Inl e" "bind_result (Inr x) f = f x"
  by (simp_all add: bind_result_def)

lemma bind_result_Inr: "bind_result r f = Inr y \<longleftrightarrow> (\<exists>x. r = Inr x \<and> f x = Inr y)"
  by (cases r) simp_all

lemma bind_result_cong [fundef_cong]:
  "r = r' \<Longrightarrow> (\<And>x. r' = Inr x \<Longrightarrow> f x = f' x) \<Longrightarrow> bind_result r f = bind_result r' f'"
  by (cases r') simp_all

section \<open>Identifier allocators\<close>

text \<open>
  Allocation requests and releases, in any order, with what happened at each: an identifier
  was handed out, the request was refused, or an identifier was released. The specification
  of such a history is over the set of identifiers in use.
\<close>

datatype 'i id_op = AllocOp | FreeOp 'i

datatype 'i id_event = Got 'i | Refused | Freed 'i

fun id_run ::
  "('s \<Rightarrow> ('s \<times> 'i result) option) \<Rightarrow> ('i \<Rightarrow> 's \<Rightarrow> 's) \<Rightarrow> 'i id_op list \<Rightarrow> 's \<Rightarrow>
     ('s \<times> 'i id_event list) option" where
  "id_run alloc free [] s = Some (s, [])"
| "id_run alloc free (AllocOp # ops) s =
     do {
       (s, r) \<leftarrow> alloc s;
       (s, es) \<leftarrow> id_run alloc free ops s;
       Some (s, (case r of Inr i \<Rightarrow> Got i | Inl _ \<Rightarrow> Refused) # es)
     }"
| "id_run alloc free (FreeOp i # ops) s =
     do {
       (s, es) \<leftarrow> id_run alloc free ops (free i s);
       Some (s, Freed i # es)
     }"

fun in_use :: "'i id_event list \<Rightarrow> 'i set \<Rightarrow> 'i set" where
  "in_use [] L = L"
| "in_use (Got i # es) L = in_use es (insert i L)"
| "in_use (Refused # es) L = in_use es L"
| "in_use (Freed i # es) L = in_use es (L - {i})"

fun history_ok :: "'i set \<Rightarrow> 'i id_event list \<Rightarrow> 'i set \<Rightarrow> bool" where
  "history_ok valid [] L \<longleftrightarrow> True"
| "history_ok valid (Got i # es) L \<longleftrightarrow> i \<in> valid \<and> i \<notin> L \<and> history_ok valid es (insert i L)"
| "history_ok valid (Refused # es) L \<longleftrightarrow> valid \<subseteq> L \<and> history_ok valid es L"
| "history_ok valid (Freed i # es) L \<longleftrightarrow> history_ok valid es (L - {i})"

lemma id_run_length: "id_run alloc free ops s = Some (s', es) \<Longrightarrow> length es = length ops"
  by (induction alloc free ops s arbitrary: s' es rule: id_run.induct)
    (auto split: Option.bind_splits)

locale id_allocator =
  fixes alloc :: "'s \<Rightarrow> ('s \<times> 'i result) option"
    and free :: "'i \<Rightarrow> 's \<Rightarrow> 's"
    and live :: "'s \<Rightarrow> 'i set"
    and valid :: "'i set"
    and inv :: "'s \<Rightarrow> bool"
  assumes alloc_law: "inv s \<Longrightarrow> \<exists>s' r. alloc s = Some (s', r) \<and> inv s' \<and>
      (case r of Inr i \<Rightarrow> i \<in> valid \<and> i \<notin> live s \<and> live s' = insert i (live s)
       | Inl e \<Rightarrow> live s' = live s \<and> valid \<subseteq> live s)"
    and free_law: "inv s \<Longrightarrow> inv (free i s) \<and> live (free i s) = live s - {i}"
begin

lemma id_run_ok:
  "inv s \<Longrightarrow> \<exists>s' es. id_run alloc free ops s = Some (s', es) \<and> inv s' \<and>
     live s' = in_use es (live s) \<and> history_ok valid es (live s)"
proof (induction ops arbitrary: s)
  case (Cons op ops)
  show ?case
  proof (cases op)
    case AllocOp
    obtain s1 r where 1: "alloc s = Some (s1, r)" "inv s1"
      "case r of Inr i \<Rightarrow> i \<in> valid \<and> i \<notin> live s \<and> live s1 = insert i (live s)
       | Inl e \<Rightarrow> live s1 = live s \<and> valid \<subseteq> live s" using alloc_law [OF Cons.prems] by blast
    from Cons.IH [OF 1(2)] 1 AllocOp show ?thesis by (cases r) auto
  next
    case (FreeOp i)
    with Cons.IH free_law [OF Cons.prems, of i] show ?thesis by fastforce
  qed
qed simp

end

section \<open>Pools that lease addresses to sessions\<close>

text \<open>
  Requests for the address of a session and releases, with what happened at each. The
  specification of such a history is over the table of leases: a session that has a lease
  gets the same address again, a new lease is of an address of the pool that no other
  session holds, and a request fails only when every address is leased.
\<close>

datatype 'k lease_op = LeaseOp 'k | ReturnOp 'k

datatype ('k, 'a) lease_event = Leased 'k 'a | Exhausted 'k | Returned 'k bool

fun lease_run ::
  "('k \<Rightarrow> 's \<Rightarrow> ('s \<times> 'a result) option) \<Rightarrow> ('k \<Rightarrow> 's \<Rightarrow> 's \<times> bool) \<Rightarrow> 'k lease_op list \<Rightarrow> 's \<Rightarrow>
     ('s \<times> ('k, 'a) lease_event list) option" where
  "lease_run lease return [] s = Some (s, [])"
| "lease_run lease return (LeaseOp k # ops) s =
     do {
       (s, r) \<leftarrow> lease k s;
       (s, es) \<leftarrow> lease_run lease return ops s;
       Some (s, (case r of Inr a \<Rightarrow> Leased k a | Inl _ \<Rightarrow> Exhausted k) # es)
     }"
| "lease_run lease return (ReturnOp k # ops) s =
     do {
       (s', es) \<leftarrow> lease_run lease return ops (fst (return k s));
       Some (s', Returned k (snd (return k s)) # es)
     }"

fun leases_after :: "('k, 'a) lease_event list \<Rightarrow> ('k \<rightharpoonup> 'a) \<Rightarrow> ('k \<rightharpoonup> 'a)" where
  "leases_after [] L = L"
| "leases_after (Leased k a # es) L = leases_after es (L(k \<mapsto> a))"
| "leases_after (Exhausted k # es) L = leases_after es L"
| "leases_after (Returned k b # es) L = leases_after es (L(k := None))"

fun leases_ok :: "'a set \<Rightarrow> ('k, 'a) lease_event list \<Rightarrow> ('k \<rightharpoonup> 'a) \<Rightarrow> bool" where
  "leases_ok A [] L \<longleftrightarrow> True"
| "leases_ok A (Leased k a # es) L \<longleftrightarrow>
     (L k = Some a \<or> L k = None \<and> a \<in> A \<and> a \<notin> ran L) \<and> leases_ok A es (L(k \<mapsto> a))"
| "leases_ok A (Exhausted k # es) L \<longleftrightarrow> L k = None \<and> A \<subseteq> ran L \<and> leases_ok A es L"
| "leases_ok A (Returned k b # es) L \<longleftrightarrow> (b \<longleftrightarrow> L k \<noteq> None) \<and> leases_ok A es (L(k := None))"

locale lease_pool =
  fixes lease :: "'k \<Rightarrow> 's \<Rightarrow> ('s \<times> 'a result) option"
    and return :: "'k \<Rightarrow> 's \<Rightarrow> 's \<times> bool"
    and leases :: "'s \<Rightarrow> 'k \<rightharpoonup> 'a"
    and inv :: "'a set \<Rightarrow> 's \<Rightarrow> bool"
  assumes lease_law: "inv A s \<Longrightarrow> \<exists>s' r. lease k s = Some (s', r) \<and> inv A s' \<and>
      (case r of
         Inr a \<Rightarrow> (leases s k = Some a \<or> leases s k = None \<and> a \<in> A \<and> a \<notin> ran (leases s)) \<and>
           leases s' = (leases s)(k \<mapsto> a)
       | Inl e \<Rightarrow> leases s k = None \<and> A \<subseteq> ran (leases s) \<and> leases s' = leases s)"
    and return_law: "inv A s \<Longrightarrow> \<exists>s'. return k s = (s', leases s k \<noteq> None) \<and> inv A s' \<and>
      leases s' = (leases s)(k := None)"
begin

lemma lease_run_ok:
  "inv A s \<Longrightarrow> \<exists>s' es. lease_run lease return ops s = Some (s', es) \<and> inv A s' \<and>
     leases s' = leases_after es (leases s) \<and> leases_ok A es (leases s)"
proof (induction ops arbitrary: s)
  case (Cons op ops)
  show ?case
  proof (cases op)
    case (LeaseOp k)
    obtain s1 r where 1: "lease k s = Some (s1, r)" "inv A s1"
      "case r of
         Inr a \<Rightarrow> (leases s k = Some a \<or> leases s k = None \<and> a \<in> A \<and> a \<notin> ran (leases s)) \<and>
           leases s1 = (leases s)(k \<mapsto> a)
       | Inl e \<Rightarrow> leases s k = None \<and> A \<subseteq> ran (leases s) \<and> leases s1 = leases s"
      using lease_law [OF Cons.prems] by blast
    from Cons.IH [OF 1(2)] 1 LeaseOp show ?thesis by (cases r) (auto simp: fun_upd_def)
  next
    case (ReturnOp k)
    obtain s1 where 1: "return k s = (s1, leases s k \<noteq> None)" "inv A s1"
      "leases s1 = (leases s)(k := None)" using return_law [OF Cons.prems] by blast
    from Cons.IH [OF 1(2)] 1 ReturnOp show ?thesis by (auto simp: fun_upd_def)
  qed
qed simp

end

end
