(* ===== verification/Fteid.thy ===== *)
theory Fteid
  imports Go_Prelude
begin

text \<open>
  Model of \<^verbatim>\<open>pfcpiface/fteid.go\<close>, the generator of tunnel endpoint identifiers. The mutex
  is taken by every method for its whole run, so each method is one atomic step; the search
  loop of Allocate may in principle not end and is a partial function.
\<close>

record fteid_generator =
  offset :: u32
  usedMap :: "u32 \<rightharpoonup> bool"

definition minValue :: u32 where
  "minValue = 1"

definition maxValue :: u32 where
  "maxValue = 0xFFFFFFFF"

definition NewFTEIDGenerator :: fteid_generator where
  "NewFTEIDGenerator = \<lparr>offset = 0, usedMap = Map.empty\<rparr>"

definition updateOffset :: "fteid_generator \<Rightarrow> fteid_generator" where
  "updateOffset g = g\<lparr>offset := (offset g + 1) mod maxValue\<rparr>"

text \<open>The loop ends with a free offset (True) or back where it began (False).\<close>

partial_function (option) allocate_loop ::
  "u32 \<Rightarrow> fteid_generator \<Rightarrow> (fteid_generator \<times> bool) option" where
  "allocate_loop offsetBegin g =
     (if usedMap g (offset g) \<noteq> None
      then let g = updateOffset g
           in if offset g = offsetBegin then Some (g, False) else allocate_loop offsetBegin g
      else Some (g, True))"

definition Allocate :: "fteid_generator \<Rightarrow> (fteid_generator \<times> u32 result) option" where
  "Allocate g =
     do {
       (g, ok) \<leftarrow> allocate_loop (offset g) g;
       if \<not> ok then Some (g, Inl ErrNoIDRange)
       else
         let g = g\<lparr>usedMap := (usedMap g)(offset g \<mapsto> True)\<rparr>;
             ident = offset g + minValue
         in Some (updateOffset g, Inr ident)
     }"

definition FreeID :: "u32 \<Rightarrow> fteid_generator \<Rightarrow> fteid_generator" where
  "FreeID ident g =
     (if ident < minValue then g else g\<lparr>usedMap := (usedMap g)(ident - minValue := None)\<rparr>)"

definition IsAllocated :: "u32 \<Rightarrow> fteid_generator \<Rightarrow> bool" where
  "IsAllocated ident g = (if ident < minValue then False else usedMap g (ident - minValue) \<noteq> None)"

section \<open>Correctness\<close>

text \<open>The offset stays below the modulus, so that the search comes back to its start.\<close>

definition generator_inv :: "fteid_generator \<Rightarrow> bool" where
  "generator_inv g \<longleftrightarrow> offset g < maxValue \<and> dom (usedMap g) \<subseteq> {x. x < maxValue}"

lemma NewFTEIDGenerator_inv: "generator_inv NewFTEIDGenerator"
  by (simp add: generator_inv_def NewFTEIDGenerator_def maxValue_def)

lemma offset_step:
  assumes "x < maxValue"
  shows "unat ((x + 1) mod maxValue) = (unat x + 1) mod 4294967295" "(x + 1) mod maxValue < maxValue"
proof -
  have x: "unat x < 4294967295" using assms by (simp add: maxValue_def word_less_nat_alt)
  then have "unat (x + 1) = unat x + 1" by (simp add: unat_word_ariths)
  then show "unat ((x + 1) mod maxValue) = (unat x + 1) mod 4294967295"
    by (simp add: unat_mod maxValue_def)
  then show "(x + 1) mod maxValue < maxValue" by (simp add: word_less_nat_alt maxValue_def)
qed

lemma updateOffset_simps [simp]:
  "offset (updateOffset g) = (offset g + 1) mod maxValue" "usedMap (updateOffset g) = usedMap g"
  "(updateOffset g)\<lparr>offset := x\<rparr> = g\<lparr>offset := x\<rparr>"
  by (simp_all add: updateOffset_def)

text \<open>
  What the search finds, by induction on the number of offsets it has not seen: a free
  offset, or none exists.
\<close>

lemma allocate_loop_result:
  assumes "b < 4294967295" and "k < 4294967295" and "unat (offset g) = (b + k) mod 4294967295"
    and "\<forall>j<k. usedMap g (of_nat ((b + j) mod 4294967295)) \<noteq> None" and "unat start = b"
  shows "\<exists>o' ok. allocate_loop start g = Some (g\<lparr>offset := o'\<rparr>, ok) \<and> o' < maxValue \<and>
    (if ok then usedMap g o' = None
     else \<forall>j<4294967295. usedMap g (of_nat ((b + j) mod 4294967295)) \<noteq> None)"
  using assms
proof (induction "4294967295 - k" arbitrary: k g rule: less_induct)
  case less
  have off: "offset g < maxValue" using less.prems(3) by (simp add: word_less_nat_alt maxValue_def)
  show ?case
  proof (cases "usedMap g (offset g) = None")
    case True
    then have "allocate_loop start g = Some (g, True)" by (simp add: allocate_loop.simps)
    then show ?thesis using True off by (intro exI [of _ "offset g"]) auto
  next
    case False
    have oo: "offset g = of_nat ((b + k) mod 4294967295)" 
      using arg_cong [OF less.prems(3), of "of_nat :: nat \<Rightarrow> u32"] by simp
    have seen: "\<forall>j<Suc k. usedMap g (of_nat ((b + j) mod 4294967295)) \<noteq> None"
      using less.prems(4) False oo by (auto simp: less_Suc_eq)
    have nx: "unat (offset (updateOffset g)) = (b + Suc k) mod 4294967295"
      using offset_step(1) [OF off] less.prems(3) by (simp add: mod_simps)
    show ?thesis
    proof (cases "offset (updateOffset g) = start")
      case True
      then have "(b + Suc k) mod 4294967295 = b" using nx less.prems(5) by simp
      then have "Suc k = 4294967295"
        using less.prems(1,2) by (cases "b + Suc k < 4294967295") (auto simp: le_mod_geq)
      with seen have "\<forall>j<4294967295. usedMap g (of_nat ((b + j) mod 4294967295)) \<noteq> None" by simp
      moreover have "allocate_loop start g = Some (updateOffset g, False)"
        using False True by (simp add: allocate_loop.simps Let_def)
      ultimately show ?thesis using offset_step(2) [OF off]
        by (intro exI [of _ "(offset g + 1) mod maxValue"] exI [of _ False]) (simp add: updateOffset_def)
    next
      case ne: False
      have "Suc k \<noteq> 4294967295"
      proof
        assume "Suc k = 4294967295"
        then have "unat (offset (updateOffset g)) = unat start" using nx less.prems(1,5) by simp
        with ne show False by (simp add: word_unat_eq_iff)
      qed
      with less.prems(2) have k: "Suc k < 4294967295" by simp
      have loop: "allocate_loop start g = allocate_loop start (updateOffset g)"
        using False ne by (subst allocate_loop.simps) (simp add: Let_def)
      have "\<exists>o' ok. allocate_loop start (updateOffset g) = Some ((updateOffset g)\<lparr>offset := o'\<rparr>, ok) \<and>
          o' < maxValue \<and> (if ok then usedMap (updateOffset g) o' = None
            else \<forall>j<4294967295. usedMap (updateOffset g) (of_nat ((b + j) mod 4294967295)) \<noteq> None)"
        using k seen nx less.prems(1,2,5) by (intro less.hyps [of "Suc k"]) auto
      then show ?thesis unfolding loop by (simp only: updateOffset_simps)
    qed
  qed
qed

lemma all_offsets:
  assumes "\<forall>j<4294967295. P (of_nat ((b + j) mod 4294967295) :: u32)" and "b < 4294967295"
    and x: "x < maxValue"
  shows "P x"
proof -
  have x': "unat x < 4294967295" using x by (simp add: maxValue_def word_less_nat_alt)
  define j where "j = (if unat x < b then unat x + 4294967295 - b else unat x - b)"
  have "j < 4294967295" "(b + j) mod 4294967295 = unat x"
    using x' assms(2) by (auto simp: j_def le_mod_geq)
  with assms(1) have "P (of_nat (unat x))" by metis
  then show ?thesis by simp
qed

text \<open>The identifiers in use.\<close>

definition allocated :: "fteid_generator \<Rightarrow> u32 set" where
  "allocated g = {i. IsAllocated i g}"

lemma minValue_le: "(i < minValue) = (i = 0)"
  by (simp add: minValue_def word_less_nat_alt word_unat_eq_iff)

lemma allocated_iff: "i \<in> allocated g \<longleftrightarrow> i \<noteq> 0 \<and> usedMap g (i - 1) \<noteq> None"
  by (auto simp: allocated_def IsAllocated_def minValue_le) (simp_all add: minValue_def)

lemma pred_less_max: "i - 1 < maxValue \<longleftrightarrow> i \<noteq> 0"
proof
  assume "i \<noteq> 0"
  then have "0 < unat i" by (simp add: unat_gt_0)
  then have "unat (i - 1) = unat i - 1" by (simp add: unat_sub word_le_nat_alt)
  moreover have "unat i < 4294967296" using unsigned_less [of i, where 'a = nat] by simp
  ultimately show "i - 1 < maxValue" using \<open>0 < unat i\<close> by (simp add: word_less_nat_alt maxValue_def)
next
  show "i \<noteq> 0" if "i - 1 < maxValue" using that by (auto simp: maxValue_def)
qed

lemma Allocate_law:
  assumes "generator_inv g"
  shows "\<exists>g' r. Allocate g = Some (g', r) \<and> generator_inv g' \<and>
    (case r of Inr i \<Rightarrow> i \<in> {i. i \<noteq> 0} \<and> i \<notin> allocated g \<and> allocated g' = insert i (allocated g)
     | Inl e \<Rightarrow> allocated g' = allocated g \<and> {i. i \<noteq> 0} \<subseteq> allocated g)"
proof -
  have inv: "offset g < maxValue" "dom (usedMap g) \<subseteq> {x. x < maxValue}"
    using assms by (auto simp: generator_inv_def)
  have b: "unat (offset g) < 4294967295" using inv(1) by (simp add: maxValue_def word_less_nat_alt)
  obtain o' ok where l: "allocate_loop (offset g) g = Some (g\<lparr>offset := o'\<rparr>, ok)" "o' < maxValue"
    and r: "if ok then usedMap g o' = None
      else \<forall>j<4294967295. usedMap g (of_nat ((unat (offset g) + j) mod 4294967295)) \<noteq> None"
    using allocate_loop_result [OF b, of 0 g "offset g"] b by auto
  show ?thesis
  proof (cases ok)
    case True
    have "o' + 1 \<noteq> 0" using pred_less_max [of "o' + 1"] l(2) by simp
    then show ?thesis
      using True l r inv offset_step(2) [OF l(2)]
      by (auto simp: Allocate_def generator_inv_def allocated_iff minValue_def split: if_splits)
  next
    case False
    have "{i. i \<noteq> 0} \<subseteq> allocated g"
    proof
      fix i :: u32
      assume "i \<in> {i. i \<noteq> 0}"
      then have "i \<noteq> 0" "i - 1 < maxValue" by (simp_all add: pred_less_max)
      with all_offsets [where P = "\<lambda>x. usedMap g x \<noteq> None", OF _ b] r False
      show "i \<in> allocated g" by (simp add: allocated_iff)
    qed
    then show ?thesis
      using False l inv by (auto simp: Allocate_def generator_inv_def allocated_iff)
  qed
qed

lemma FreeID_law:
  assumes "generator_inv g"
  shows "generator_inv (FreeID i g) \<and> allocated (FreeID i g) = allocated g - {i}"
proof (cases "i = 0")
  case True
  then show ?thesis using assms by (auto simp: FreeID_def minValue_le allocated_iff)
next
  case False
  then show ?thesis
    using assms by (auto simp: FreeID_def minValue_le allocated_iff generator_inv_def minValue_def
        split: if_splits)
qed

interpretation fteids: id_allocator Allocate FreeID allocated "{i. i \<noteq> 0}" generator_inv
  by unfold_locales (fact Allocate_law, fact FreeID_law)

text \<open>
  C11. Every history of allocations and releases of a new generator ends each call, hands
  out only identifiers from 1 to 2^32 - 1 that are not in use, refuses only when all of them
  are in use, and IsAllocated reports exactly the identifiers in use.
\<close>

theorem FTEIDGenerator_correct:
  "\<exists>g es. id_run Allocate FreeID ops NewFTEIDGenerator = Some (g, es) \<and> length es = length ops \<and>
     history_ok {i. i \<noteq> 0} es {} \<and> (\<forall>i. IsAllocated i g \<longleftrightarrow> i \<in> in_use es {})"
proof -
  have "allocated NewFTEIDGenerator = {}" by (auto simp: allocated_iff NewFTEIDGenerator_def)
  then obtain g es where r: "id_run Allocate FreeID ops NewFTEIDGenerator = Some (g, es)"
    and "allocated g = in_use es {}" "history_ok {i. i \<noteq> 0} es {}"
    using fteids.id_run_ok [OF NewFTEIDGenerator_inv, of ops] by auto
  moreover have "length es = length ops" using id_run_length [OF r] .
  ultimately show ?thesis by (auto simp: allocated_def)
qed

end
