(* ===== verification/Rule_Module.thy ===== *)
theory Rule_Module
  imports Upf_Prelude
begin

text \<open>
  The interface between the driver and a lookup module. The driver thinks of a module as a table
  from the arguments of its commands to entries; the module keeps rules under keys of its own. The
  laws are what a module promises for a command it answers with success; from them the module
  follows the table of the driver.
\<close>

locale rule_module =
  fixes inv :: "'s \<Rightarrow> bool"
    and rules :: "'s \<Rightarrow> 'k \<rightharpoonup> 'd"
    and key :: "'s \<Rightarrow> 'l \<Rightarrow> 'k option"
    and datum :: "'s \<Rightarrow> 'l \<Rightarrow> 'e \<Rightarrow> 'd option"
    and add :: "'s \<Rightarrow> 'l \<Rightarrow> 'e \<Rightarrow> 's option"
    and del :: "'s \<Rightarrow> 'l \<Rightarrow> 's option"
    and clear :: "'s \<Rightarrow> 's option"
  assumes key_inject: "inv s \<Longrightarrow> key s l = Some k \<Longrightarrow> key s l' = Some k \<Longrightarrow> l' = l"
    and add_post: "inv s \<Longrightarrow> add s l e = Some s' \<Longrightarrow> inv s' \<and> key s' = key s \<and> datum s' = datum s \<and>
      (\<exists>k d. key s l = Some k \<and> datum s l e = Some d \<and> rules s' = (rules s)(k \<mapsto> d))"
    and del_post: "inv s \<Longrightarrow> del s l = Some s' \<Longrightarrow> inv s' \<and> key s' = key s \<and> datum s' = datum s \<and>
      (\<exists>k. key s l = Some k \<and> rules s' = (rules s)(k := None))"
    and clear_post: "inv s \<Longrightarrow> clear s = Some s' \<Longrightarrow> inv s' \<and> key s' = key s \<and> datum s' = datum s \<and> rules s' = Map.empty"
begin

definition holds :: "'s \<Rightarrow> ('l \<rightharpoonup> 'e) \<Rightarrow> bool" where
  "holds s tb \<longleftrightarrow> (\<forall>l k. key s l = Some k \<longrightarrow> rules s k = Option.bind (tb l) (datum s l))"

lemma holdsD: "holds s tb \<Longrightarrow> key s l = Some k \<Longrightarrow> rules s k = Option.bind (tb l) (datum s l)"
  by (simp add: holds_def)

lemma update_holds:
  assumes "inv s" "holds s tb" "key s' = key s" "datum s' = datum s" "key s l = Some k"
    "rules s' = (rules s)(k := x)" "Option.bind (tb' l) (datum s l) = x" "\<forall>l'. l' \<noteq> l \<longrightarrow> tb' l' = tb l'"
  shows "holds s' tb'"
  unfolding holds_def assms(3,4)
proof (intro allI impI)
  fix l' k' assume k': "key s l' = Some k'"
  show "rules s' k' = Option.bind (tb' l') (datum s l')"
  proof (cases "k' = k")
    case True
    then have "l' = l" using key_inject [OF assms(1,5)] k' by simp
    then show ?thesis using True assms(6,7) by simp
  next
    case False
    then have "l' \<noteq> l" using k' assms(5) by auto
    then show ?thesis using False assms(6,8) holdsD [OF assms(2) k'] by simp
  qed
qed

lemma add_holds:
  assumes "inv s" "holds s tb" "add s l e = Some s'"
  shows "inv s' \<and> holds s' (tb(l \<mapsto> e))"
proof -
  obtain k d where kd: "key s l = Some k" "datum s l e = Some d" "rules s' = (rules s)(k \<mapsto> d)"
    and same: "inv s'" "key s' = key s" "datum s' = datum s"
    using add_post [OF assms(1,3)] by blast
  show ?thesis using update_holds [OF assms(1,2) same(2,3) kd(1,3)] kd(2) same(1) by simp
qed

lemma del_holds:
  assumes "inv s" "holds s tb" "del s l = Some s'"
  shows "inv s' \<and> holds s' (tb(l := None))"
proof -
  obtain k where k: "key s l = Some k" "rules s' = (rules s)(k := None)"
    and same: "inv s'" "key s' = key s" "datum s' = datum s"
    using del_post [OF assms(1,3)] by blast
  show ?thesis using update_holds [OF assms(1,2) same(2,3) k] same(1) by simp
qed

lemma clear_holds: "inv s \<Longrightarrow> clear s = Some s' \<Longrightarrow> inv s' \<and> holds s' Map.empty"
  using clear_post [of s s'] by (simp add: holds_def)

end

end
