(* ===== verification/Packet.thy ===== *)
theory Packet
  imports Upf_Prelude
begin

text \<open>
  Model of a packet buffer: \<^verbatim>\<open>bess/core/packet.h\<close> with the layout of \<^verbatim>\<open>snbuf_layout.h\<close>, the
  metadata accessors of \<^verbatim>\<open>module.h\<close> and the byte order helpers of \<^verbatim>\<open>utils/endian.h\<close>. A packet is
  the 2560 bytes of its object and the three counters of the mbuf that the code changes. A load
  or a store that leaves the object has no result. Packets of several segments are not modelled.
\<close>

section \<open>Layout\<close>

definition SNBUF_METADATA :: nat where "SNBUF_METADATA = 128"
definition SNBUF_METADATA_OFF :: nat where "SNBUF_METADATA_OFF = 192"
definition SNBUF_HEADROOM :: nat where "SNBUF_HEADROOM = 128"
definition SNBUF_HEADROOM_OFF :: nat where "SNBUF_HEADROOM_OFF = 384"
definition SNBUF_DATA :: nat where "SNBUF_DATA = 2048"
definition SNBUF_SIZE :: nat where "SNBUF_SIZE = 2560"

lemmas snbuf_defs = SNBUF_METADATA_def SNBUF_METADATA_OFF_def SNBUF_HEADROOM_def SNBUF_HEADROOM_OFF_def
  SNBUF_DATA_def SNBUF_SIZE_def

record packet =
  mem :: "u8 list"
  data_off :: u16
  data_len :: u16
  pkt_len :: u32

text \<open>The position of a byte of the head segment in the object.\<close>

definition head_data :: "packet \<Rightarrow> nat \<Rightarrow> nat" where
  "head_data p off = SNBUF_HEADROOM_OFF + unat (data_off p) + off"

definition prepend :: "u16 \<Rightarrow> packet \<Rightarrow> packet option" where
  "prepend n p =
     (if data_off p < n then None
      else Some (p\<lparr>data_off := data_off p - n, data_len := data_len p + n, pkt_len := pkt_len p + ucast n\<rparr>))"

definition adj :: "u16 \<Rightarrow> packet \<Rightarrow> packet option" where
  "adj n p =
     (if data_len p < n then None
      else Some (p\<lparr>data_off := data_off p + n, data_len := data_len p - n, pkt_len := pkt_len p - ucast n\<rparr>))"

definition mt_offset_to_databuf_offset :: "int \<Rightarrow> int" where
  "mt_offset_to_databuf_offset off = off + int SNBUF_METADATA_OFF - int SNBUF_HEADROOM_OFF"

section \<open>Loads and stores\<close>

definition load_bytes :: "nat \<Rightarrow> nat \<Rightarrow> packet \<Rightarrow> u8 list option" where
  "load_bytes n a p = (if a + n \<le> length (mem p) then Some (take n (drop a (mem p))) else None)"

definition store_bytes :: "nat \<Rightarrow> u8 list \<Rightarrow> packet \<Rightarrow> packet option" where
  "store_bytes a bs p =
     (if a + length bs \<le> length (mem p)
      then Some (p\<lparr>mem := take a (mem p) @ bs @ drop (a + length bs) (mem p)\<rparr>) else None)"

text \<open>Big-endian and little-endian values of fields.\<close>

definition be16 :: "u8 list \<Rightarrow> u16" where
  "be16 bs = push_bit 8 (ucast (bs ! 0)) OR ucast (bs ! 1)"

definition be32 :: "u8 list \<Rightarrow> u32" where
  "be32 bs = push_bit 16 (ucast (be16 bs)) OR ucast (be16 (drop 2 bs))"

definition to_be16 :: "u16 \<Rightarrow> u8 list" where
  "to_be16 w = [ucast (drop_bit 8 w), ucast w]"

definition to_be32 :: "u32 \<Rightarrow> u8 list" where
  "to_be32 w = to_be16 (ucast (drop_bit 16 w)) @ to_be16 (ucast w)"

definition le16 :: "u8 list \<Rightarrow> u16" where
  "le16 bs = be16 [bs ! 1, bs ! 0]"

definition le32 :: "u8 list \<Rightarrow> u32" where
  "le32 bs = be32 [bs ! 3, bs ! 2, bs ! 1, bs ! 0]"

section \<open>Metadata attributes\<close>

definition IsValidOffset :: "int \<Rightarrow> bool" where
  "IsValidOffset off \<longleftrightarrow> off \<ge> 0"

text \<open>The bytes of an attribute of a given size at an offset; zero if the offset is not valid.\<close>

definition get_attr_with_offset :: "nat \<Rightarrow> int \<Rightarrow> packet \<Rightarrow> u8 list option" where
  "get_attr_with_offset n off p =
     (if IsValidOffset off then load_bytes n (SNBUF_METADATA_OFF + nat off) p else Some (replicate n 0))"

definition set_attr_with_offset :: "int \<Rightarrow> u8 list \<Rightarrow> packet \<Rightarrow> packet option" where
  "set_attr_with_offset off bs p =
     (if IsValidOffset off then store_bytes (SNBUF_METADATA_OFF + nat off) bs p else Some p)"

section \<open>Batches\<close>

datatype emitted = Emit packet nat | Drop packet

definition process_batch :: "(packet \<Rightarrow> 'a option) \<Rightarrow> packet list \<Rightarrow> 'a list option" where
  "process_batch f ps = those (map f ps)"

section \<open>The data of a packet\<close>

definition pkt_ok :: "packet \<Rightarrow> bool" where
  "pkt_ok p \<longleftrightarrow> length (mem p) = SNBUF_SIZE \<and> head_data p (unat (data_len p)) \<le> SNBUF_SIZE"

definition pkt_data :: "packet \<Rightarrow> u8 list" where
  "pkt_data p = take (unat (data_len p)) (drop (head_data p 0) (mem p))"

lemma length_pkt_data: "pkt_ok p \<Longrightarrow> length (pkt_data p) = unat (data_len p)"
  by (auto simp: pkt_ok_def pkt_data_def head_data_def)

lemma head_data_add: "head_data p i = head_data p 0 + i"
  by (simp add: head_data_def)

lemma load_data:
  assumes "pkt_ok p" "i + n \<le> unat (data_len p)"
  shows "load_bytes n (head_data p i) p = Some (take n (drop i (pkt_data p)))"
  using assms
  by (auto simp: load_bytes_def pkt_data_def pkt_ok_def head_data_def drop_take ac_simps)

lemma splice:
  assumes "h + n \<le> length m" "i + length bs \<le> n"
  shows "take n (drop h (take (h + i) m @ bs @ drop (h + i + length bs) m)) =
    take i (take n (drop h m)) @ bs @ drop (i + length bs) (take n (drop h m))"
  (is "?l = ?r")
proof (rule nth_equalityI)
  show "length ?l = length ?r" using assms by simp
  show "?l ! k = ?r ! k" if "k < length ?l" for k
    using that assms by (simp add: nth_append)
qed

lemma store_data:
  assumes "pkt_ok p" "i + length bs \<le> unat (data_len p)"
  obtains p' where "store_bytes (head_data p i) bs p = Some p'" "pkt_ok p'"
    "pkt_data p' = take i (pkt_data p) @ bs @ drop (i + length bs) (pkt_data p)"
    "data_off p' = data_off p" "data_len p' = data_len p" "pkt_len p' = pkt_len p"
proof -
  let ?h = "head_data p 0" and ?n = "unat (data_len p)"
  let ?p' = "p\<lparr>mem := take (?h + i) (mem p) @ bs @ drop (?h + i + length bs) (mem p)\<rparr>"
  have le: "?h + ?n \<le> length (mem p)" using assms(1) by (simp add: pkt_ok_def head_data_def)
  have "store_bytes (head_data p i) bs p = Some ?p'"
    using le assms(2) by (simp add: store_bytes_def head_data_add [of p i] ac_simps)
  moreover have "pkt_ok ?p'" using assms le by (simp add: pkt_ok_def head_data_def)
  moreover have "pkt_data ?p' = take i (pkt_data p) @ bs @ drop (i + length bs) (pkt_data p)"
    using splice [OF le assms(2)] by (simp add: pkt_data_def head_data_def)
  ultimately show thesis by (intro that [of ?p']) simp_all
qed

lemma prepend_data:
  assumes "pkt_ok p" "n \<le> data_off p"
  obtains p' junk where "prepend n p = Some p'" "pkt_ok p'" "length junk = unat n"
    "pkt_data p' = junk @ pkt_data p" "data_off p' = data_off p - n"
    "unat (data_len p') = unat (data_len p) + unat n" "pkt_len p' = pkt_len p + ucast n" "mem p' = mem p"
proof -
  let ?p' = "p\<lparr>data_off := data_off p - n, data_len := data_len p + n, pkt_len := pkt_len p + ucast n\<rparr>"
  have off: "unat (data_off p - n) = unat (data_off p) - unat n" "unat n \<le> unat (data_off p)"
    using assms(2) by (simp_all add: unat_sub word_le_nat_alt)
  have "unat (data_len p) + unat n < 65536"
    using assms(1) off(2) by (simp add: pkt_ok_def head_data_def snbuf_defs)
  then have len: "unat (data_len p + n) = unat (data_len p) + unat n" by (simp add: unat_word_ariths)
  have "prepend n p = Some ?p'" using assms(2) by (simp add: prepend_def linorder_not_less)
  moreover have "pkt_ok ?p'" using assms(1) off len by (simp add: pkt_ok_def head_data_def)
  moreover have "pkt_data ?p' = take (unat n) (drop (head_data p 0 - unat n) (mem p)) @ pkt_data p"
  proof -
    have h: "head_data ?p' 0 = head_data p 0 - unat n" "unat n \<le> head_data p 0"
      using off by (simp_all add: head_data_def)
    have "pkt_data ?p' = take (unat n + unat (data_len p)) (drop (head_data p 0 - unat n) (mem p))"
      unfolding pkt_data_def h(1) by (simp add: len) (simp add: add.commute)
    then show ?thesis using h(2) by (simp add: take_add pkt_data_def)
  qed
  moreover have "length (take (unat n) (drop (head_data p 0 - unat n) (mem p))) = unat n"
    using assms(1) off(2) by (auto simp: pkt_ok_def head_data_def)
  ultimately show thesis using len by (intro that [of ?p']) simp_all
qed

lemma adj_data:
  assumes "pkt_ok p" "n \<le> data_len p"
  obtains p' where "adj n p = Some p'" "pkt_ok p'" "pkt_data p' = drop (unat n) (pkt_data p)"
    "unat (data_off p') = unat (data_off p) + unat n" "unat (data_len p') = unat (data_len p) - unat n"
    "pkt_len p' = pkt_len p - ucast n" "mem p' = mem p"
proof -
  let ?p' = "p\<lparr>data_off := data_off p + n, data_len := data_len p - n, pkt_len := pkt_len p - ucast n\<rparr>"
  have len: "unat (data_len p - n) = unat (data_len p) - unat n" "unat n \<le> unat (data_len p)"
    using assms(2) by (simp_all add: unat_sub word_le_nat_alt)
  have "unat (data_off p) + unat n < 65536"
    using assms(1) len(2) by (simp add: pkt_ok_def head_data_def snbuf_defs)
  then have off: "unat (data_off p + n) = unat (data_off p) + unat n" by (simp add: unat_word_ariths)
  have "adj n p = Some ?p'" using assms(2) by (simp add: adj_def linorder_not_less)
  moreover have "pkt_ok ?p'" using assms(1) off len by (simp add: pkt_ok_def head_data_def)
  moreover have "pkt_data ?p' = drop (unat n) (pkt_data p)"
    by (simp add: pkt_data_def head_data_def off len drop_take) (simp add: ac_simps)
  ultimately show thesis using off len by (intro that [of ?p']) simp_all
qed

section \<open>Byte order\<close>

lemma be16_to_be16 [simp]: "be16 (to_be16 w @ r) = w" "be16 (to_be16 w) = w"
  by (rule bit_word_eqI; auto simp: be16_def to_be16_def bit_simps)+

lemma length_to_be [simp]: "length (to_be16 w) = 2" "length (to_be32 v) = 4"
  by (simp_all add: to_be16_def to_be32_def)

lemma be32_to_be32 [simp]: "be32 (to_be32 w @ r) = w" "be32 (to_be32 w) = w"
proof -
  have d: "drop 2 (to_be16 a @ s) = s" for a s by (simp add: to_be16_def)
  have "push_bit 16 (ucast (ucast (drop_bit 16 w) :: u16)) OR ucast (ucast w :: u16) = w"
    by (rule bit_word_eqI) (auto simp: bit_simps)
  then show "be32 (to_be32 w @ r) = w" "be32 (to_be32 w) = w"
    by (simp_all add: be32_def to_be32_def d)
qed

end
