(* ===== verification/Module_Attrs.thy ===== *)
theory Module_Attrs
  imports Packet
begin

text \<open>
  What modules share: the attributes a module declares (\<^verbatim>\<open>Module::AddMetadataAttr\<close>), the registry
  of attribute sizes of a pipeline (\<^verbatim>\<open>RegisterAttribute\<close> and \<^verbatim>\<open>DeregisterAttribute\<close> of
  \<^verbatim>\<open>metadata.cc\<close>), the values of command arguments (the protobuf message \<^verbatim>\<open>FieldData\<close>) with
  \<^verbatim>\<open>uint64_to_bin\<close> of \<^verbatim>\<open>utils/endian.cc\<close>, and the answers to commands.
\<close>

section \<open>Answers\<close>

datatype errno = EINVAL | ENOSPC | EEXIST | ENOENT | ENOMEM | EBUSY

type_synonym 'a response = "errno + 'a"

definition bind_response :: "'a response \<Rightarrow> ('a \<Rightarrow> 'b response) \<Rightarrow> 'b response" where
  "bind_response r f = (case r of Inl e \<Rightarrow> Inl e | Inr v \<Rightarrow> f v)"

lemma bind_response_simps [simp]:
  "bind_response (Inl e) f = Inl e"
  "bind_response (Inr v) f = f v"
  by (simp_all add: bind_response_def)

lemma bind_response_Inr: "bind_response r f = Inr y \<longleftrightarrow> (\<exists>x. r = Inr x \<and> f x = Inr y)"
  by (cases r) auto

section \<open>Attributes\<close>

datatype access_mode = kRead | kWrite | kUpdate

record attribute =
  attr_name :: string
  attr_size :: nat
  attr_mode :: access_mode

type_synonym registry = "string \<rightharpoonup> nat \<times> nat"

definition kMetadataAttrMaxSize :: nat where "kMetadataAttrMaxSize = 32"
definition kMaxAttrsPerModule :: nat where "kMaxAttrsPerModule = 16"

definition RegisterAttribute :: "string \<Rightarrow> nat \<Rightarrow> registry \<Rightarrow> registry response" where
  "RegisterAttribute name sz reg =
     (case reg name of
        None \<Rightarrow> Inr (reg(name \<mapsto> (sz, 1)))
      | Some (registered_size, count) \<Rightarrow>
          if registered_size = sz then Inr (reg(name \<mapsto> (registered_size, count + 1))) else Inl EINVAL)"

definition DeregisterAttribute :: "string \<Rightarrow> registry \<Rightarrow> registry" where
  "DeregisterAttribute name reg =
     (case reg name of
        None \<Rightarrow> reg
      | Some (sz, count) \<Rightarrow> if count - 1 = 0 then reg(name := None) else reg(name \<mapsto> (sz, count - 1)))"

definition AddMetadataAttr ::
    "string \<Rightarrow> nat \<Rightarrow> access_mode \<Rightarrow> registry \<times> attribute list \<Rightarrow> (nat \<times> registry \<times> attribute list) response" where
  "AddMetadataAttr name sz mode st =
     (let (reg, attrs) = st
      in if length attrs \<ge> kMaxAttrsPerModule then Inl ENOSPC
         else if name = [] then Inl EINVAL
         else if sz < 1 \<or> sz > kMetadataAttrMaxSize then Inl EINVAL
         else if \<exists>it\<in>set attrs. attr_name it = name then Inl EEXIST
         else bind_response (RegisterAttribute name sz reg) (\<lambda>reg'.
           Inr (length attrs, reg', attrs @ [\<lparr>attr_name = name, attr_size = sz, attr_mode = mode\<rparr>])))"

section \<open>Values of arguments\<close>

datatype field_data = ValueInt u64 | ValueBin "u8 list" | NoValue

text \<open>The bytes written, from the last to the first or from the first to the last, and what is left.\<close>

fun bin_loop :: "nat \<Rightarrow> u64 \<Rightarrow> u8 list \<times> u64" where
  "bin_loop 0 val = ([], val)"
| "bin_loop (Suc n) val = (let (bs, left) = bin_loop n (drop_bit 8 val) in (ucast val # bs, left))"

definition uint64_to_bin :: "u64 \<Rightarrow> nat \<Rightarrow> bool \<Rightarrow> u8 list option" where
  "uint64_to_bin val sz big_endian =
     (let (bs, left) = bin_loop sz val
      in if left \<noteq> 0 then None else Some (if big_endian then rev bs else bs))"

lemma length_bin_loop [simp]: "length (fst (bin_loop n v)) = n"
  by (induction n arbitrary: v) (auto split: prod.splits simp: Let_def, metis fst_conv)

lemma bin_loop_left: "snd (bin_loop n v) = drop_bit (8 * n) v"
proof (induction n arbitrary: v)
  case (Suc n)
  then show ?case by (simp add: case_prod_unfold Let_def drop_bit_drop_bit add.commute)
qed simp

lemma uint64_to_bin_length: "uint64_to_bin v n be = Some bs \<Longrightarrow> length bs = n"
  by (auto simp: uint64_to_bin_def case_prod_unfold Let_def split: if_splits)

text \<open>The value of a byte list, least significant byte first.\<close>

fun bytes_value :: "u8 list \<Rightarrow> nat" where
  "bytes_value [] = 0"
| "bytes_value (b # bs) = unat b + 256 * bytes_value bs"

lemma bin_loop_value: "bytes_value (fst (bin_loop n v)) + 256 ^ n * unat (snd (bin_loop n v)) = unat v"
proof (induction n arbitrary: v)
  case (Suc n)
  have "unat (ucast v :: u8) + 256 * unat (drop_bit 8 v) = unat v"
    by (simp add: unsigned_ucast_eq unat_drop_bit take_bit_eq_mod)
  with Suc [of "drop_bit 8 v"] show ?case by (simp add: case_prod_unfold Let_def algebra_simps)
qed simp

lemma uint64_to_bin_value:
  assumes "uint64_to_bin v n be = Some bs"
  shows "bytes_value (if be then rev bs else bs) = unat v"
  using assms bin_loop_value [of n v] by (auto simp: uint64_to_bin_def case_prod_unfold Let_def split: if_splits)

section \<open>Writing a field in an object\<close>

definition put_field :: "nat \<Rightarrow> u8 list \<Rightarrow> u8 list \<Rightarrow> u8 list" where
  "put_field pos bs hdr = take pos hdr @ bs @ drop (pos + length bs) hdr"

lemma length_put_field [simp]: "pos + length bs \<le> length hdr \<Longrightarrow> length (put_field pos bs hdr) = length hdr"
  by (simp add: put_field_def)

lemma nth_put_field:
  assumes "pos + length bs \<le> length hdr" "i < length hdr"
  shows "put_field pos bs hdr ! i = (if pos \<le> i \<and> i < pos + length bs then bs ! (i - pos) else hdr ! i)"
  using assms by (auto simp: put_field_def nth_append min_def)

end
