(* ===== verification/Dpdk_Hash.thy ===== *)
theory Dpdk_Hash
  imports Upf_Prelude "HOL-Library.AList"
begin

text \<open>
  The hash tables of DPDK that \<^verbatim>\<open>CuckooMap\<close> forwards to when it is given parameters
  (\<^verbatim>\<open>insert_dpdk\<close>, \<^verbatim>\<open>find_dpdk\<close>, \<^verbatim>\<open>Remove\<close>, \<^verbatim>\<open>Clear\<close>, \<^verbatim>\<open>Count\<close> and \<^verbatim>\<open>Iterate\<close> of \<^verbatim>\<open>cuckoo_map.h\<close>). The tables are not
  part of the repository: the functions are a parameter of the modules that use them, and
  \<open>hash_laws\<close> is what their documentation promises. A key is the list of the bytes compared.
\<close>

record ('h, 'v) hash_api =
  hash_create :: "nat \<Rightarrow> u32 \<Rightarrow> 'h option"
  hash_add :: "'h \<Rightarrow> u8 list \<Rightarrow> 'v \<Rightarrow> 'h option"
  hash_lookup :: "'h \<Rightarrow> u8 list \<Rightarrow> 'v option"
  hash_del :: "'h \<Rightarrow> u8 list \<Rightarrow> 'h"
  hash_reset :: "'h \<Rightarrow> 'h"
  hash_count :: "'h \<Rightarrow> nat"
  hash_items :: "'h \<Rightarrow> (u8 list \<times> 'v) list"

definition hash_laws :: "('h, 'v) hash_api \<Rightarrow> bool" where
  "hash_laws api \<longleftrightarrow>
     (\<forall>n e h. hash_create api n e = Some h \<longrightarrow> hash_lookup api h = Map.empty) \<and>
     (\<forall>h k v h'. hash_add api h k v = Some h' \<longrightarrow> hash_lookup api h' = (hash_lookup api h)(k \<mapsto> v)) \<and>
     (\<forall>h k. hash_lookup api (hash_del api h k) = (hash_lookup api h)(k := None)) \<and>
     (\<forall>h. hash_lookup api (hash_reset api h) = Map.empty) \<and>
     (\<forall>h. hash_count api h = 0 \<longleftrightarrow> hash_lookup api h = Map.empty) \<and>
     (\<forall>h. distinct (map fst (hash_items api h)) \<and> map_of (hash_items api h) = hash_lookup api h)"

lemma hash_lawsD:
  assumes "hash_laws api"
  shows "hash_create api n e = Some h \<Longrightarrow> hash_lookup api h = Map.empty"
    "hash_add api h k v = Some h' \<Longrightarrow> hash_lookup api h' = (hash_lookup api h)(k \<mapsto> v)"
    "hash_lookup api (hash_del api h k) = (hash_lookup api h)(k := None)"
    "hash_count api h = 0 \<longleftrightarrow> hash_lookup api h = Map.empty"
    "hash_lookup api (hash_reset api h) = Map.empty"
    "distinct (map fst (hash_items api h))" "map_of (hash_items api h) = hash_lookup api h"
  using assms unfolding hash_laws_def by blast+

text \<open>An association list of bounded length satisfies the laws.\<close>

definition list_hash :: "nat \<Rightarrow> ((u8 list \<times> 'v) list, 'v) hash_api" where
  "list_hash cap = \<lparr>
     hash_create = (\<lambda>n e. Some []),
     hash_add = (\<lambda>h k v. if map_of h k = None \<and> length h \<ge> cap then None else Some (AList.update k v h)),
     hash_lookup = map_of,
     hash_del = (\<lambda>h k. AList.delete k h),
     hash_reset = (\<lambda>h. []),
     hash_count = (\<lambda>h. length h),
     hash_items = AList.clearjunk\<rparr>"

lemma list_hash_laws: "hash_laws (list_hash cap)"
  by (auto simp: hash_laws_def list_hash_def update_conv' delete_conv' distinct_clearjunk map_of_clearjunk
    split: if_splits)

end
