(* ===== verification/Wildcard_Match.thy ===== *)
theory Wildcard_Match
  imports Module_Attrs Common_Utils Dpdk_Hash "HOL-Library.Product_Lexorder" "HOL-Library.List_Lexorder"
begin

text \<open>
  Model of the module \<^verbatim>\<open>WildcardMatch\<close> (\<^verbatim>\<open>bess/core/modules/wildcard_match.h\<close> and \<^verbatim>\<open>.cc\<close>), the
  classifier that holds the packet detection rules. Rules with the same mask share a slot, a
  \<^verbatim>\<open>WmTuple\<close>, with a hash table from masked keys to results; a lookup masks the key of a packet
  with the mask of every occupied slot and keeps the result of highest priority. The hash tables
  are DPDK's, the parameter \<open>api\<close>. Keys are the 64 bytes of a \<^verbatim>\<open>wm_hkey_t\<close>. A copy that
  leaves its object has no result. Workers that read while a command runs are not modelled.
\<close>

section \<open>Data\<close>

definition MAX_TUPLES :: nat where "MAX_TUPLES = 16"
definition MAX_FIELD_SIZE :: int where "MAX_FIELD_SIZE = 8"
definition HASH_KEY_SIZE :: nat where "HASH_KEY_SIZE = 64"
definition MAX_GATES :: u16 where "MAX_GATES = 8192"
definition DROP_GATE :: u16 where "DROP_GATE = MAX_GATES"
definition INT_MIN :: int where "INT_MIN = - 2147483648"

type_synonym hkey = "u8 list"

record wm_field =
  wf_attr :: "nat option"
  wf_offset :: nat
  wf_pos :: nat
  wf_size :: nat

record wm_data =
  wd_priority :: int
  wd_ogate :: u16
  wd_keyv :: hkey

record 'h wm_tuple =
  occupied :: bool
  ht :: "'h option"
  wt_mask :: hkey

record 'h wildcard_match =
  wm_fields :: "wm_field list"
  wm_values :: "wm_field list"
  wm_tuples :: "'h wm_tuple list"
  default_gate :: u16
  total_key_size :: nat
  total_value_size :: nat
  wm_entries :: u64

text \<open>The messages \<^verbatim>\<open>Field\<close>, \<^verbatim>\<open>WildcardMatchCommandAddArg\<close> and \<^verbatim>\<open>WildcardMatchCommandDeleteArg\<close>.\<close>

datatype field_position = AtOffset u32 | AtAttr string | NoPosition

type_synonym field_arg = "field_position \<times> u32"

record wm_rule =
  r_gate :: u64
  r_priority :: int
  r_values :: "field_data list"
  r_masks :: "field_data list"
  r_valuesv :: "field_data list"

section \<open>Masks and gates\<close>

definition mask_key :: "hkey \<Rightarrow> hkey \<Rightarrow> nat \<Rightarrow> hkey" where
  "mask_key src m len = map2 (AND) (take len src) (take len m)"

definition is_valid_gate :: "u16 \<Rightarrow> bool" where
  "is_valid_gate gate \<longleftrightarrow> gate < MAX_GATES \<or> gate = DROP_GATE"

section \<open>Initialisation\<close>

definition WildcardMatch_AddFieldOne ::
    "field_arg \<Rightarrow> nat \<Rightarrow> access_mode \<Rightarrow> registry \<times> attribute list \<Rightarrow>
     (wm_field \<times> registry \<times> attribute list) response" where
  "WildcardMatch_AddFieldOne field pos mode st =
     (let sz = sint (snd field)
      in if sz < 1 \<or> sz > MAX_FIELD_SIZE then Inl EINVAL
         else case fst field of
           AtOffset off \<Rightarrow>
             if sint off < 0 \<or> sint off > 1024 then Inl EINVAL
             else Inr (\<lparr>wf_attr = None, wf_offset = nat (sint off), wf_pos = pos, wf_size = nat sz\<rparr>, st)
         | AtAttr attr \<Rightarrow>
             bind_response (AddMetadataAttr attr (nat sz) mode st) (\<lambda>(i, st).
               Inr (\<lparr>wf_attr = Some i, wf_offset = 0, wf_pos = pos, wf_size = nat sz\<rparr>, st))
         | NoPosition \<Rightarrow> Inl EINVAL)"

fun add_fields ::
    "access_mode \<Rightarrow> field_arg list \<Rightarrow> nat \<Rightarrow> registry \<times> attribute list \<Rightarrow>
     (wm_field list \<times> nat \<times> registry \<times> attribute list) response" where
  "add_fields mode [] size_acc st = Inr ([], size_acc, st)"
| "add_fields mode (field # fs) size_acc st =
     bind_response (WildcardMatch_AddFieldOne field size_acc mode st) (\<lambda>(f, st).
       bind_response (add_fields mode fs (size_acc + wf_size f) st) (\<lambda>(r, n, st). Inr (f # r, n, st)))"

definition new_tuple :: "'h wm_tuple" where
  "new_tuple = \<lparr>occupied = False, ht = None, wt_mask = replicate HASH_KEY_SIZE 0\<rparr>"

definition WildcardMatch_Init ::
    "field_arg list \<Rightarrow> field_arg list \<Rightarrow> u64 \<Rightarrow> registry \<times> attribute list \<Rightarrow>
     ('h wildcard_match \<times> registry \<times> attribute list) response" where
  "WildcardMatch_Init fds vds entries st =
     bind_response (add_fields kRead fds 0 st) (\<lambda>(fs, n, st).
     bind_response (add_fields kWrite vds 0 st) (\<lambda>(vs, k, st).
       Inr (\<lparr>wm_fields = fs, wm_values = vs, wm_tuples = replicate MAX_TUPLES new_tuple,
              default_gate = DROP_GATE, total_key_size = unat (align_ceil (of_nat n) 8),
              total_value_size = unat (align_ceil (of_nat k) 8), wm_entries = entries\<rparr>, st)))"

section \<open>The bytes of a rule\<close>

text \<open>The eight bytes of a \<^verbatim>\<open>uint64_t\<close> filled from an argument.\<close>

definition field_word :: "field_data \<Rightarrow> nat \<Rightarrow> bool \<Rightarrow> u8 list response" where
  "field_word d sz big_endian =
     (case d of
        ValueInt v \<Rightarrow>
          (case uint64_to_bin v sz big_endian of
             None \<Rightarrow> Inl EINVAL
           | Some bs \<Rightarrow> Inr (bs @ replicate (8 - sz) 0))
      | ValueBin bs \<Rightarrow> if length bs > 8 then Inl EINVAL else Inr (bs @ replicate (8 - length bs) 0)
      | NoValue \<Rightarrow> Inr (replicate 8 0))"

definition outside_mask :: "u8 list \<Rightarrow> u8 list \<Rightarrow> bool" where
  "outside_mask v m = list_ex (\<lambda>(a, b). a AND NOT b \<noteq> 0) (zip v m)"

fun key_mask_loop ::
    "wm_field list \<Rightarrow> field_data list \<Rightarrow> field_data list \<Rightarrow> hkey \<times> hkey \<Rightarrow> (hkey \<times> hkey) response option" where
  "key_mask_loop (f # fs) (vd # vs) (md # ms) (key, m) =
     (case field_word vd (wf_size f) True of
        Inl e \<Rightarrow> Some (Inl e)
      | Inr v8 \<Rightarrow>
          (case field_word md (wf_size f) True of
             Inl e \<Rightarrow> Some (Inl e)
           | Inr m8 \<Rightarrow>
               if outside_mask v8 m8 then Some (Inl EINVAL)
               else if wf_pos f + wf_size f > HASH_KEY_SIZE then None
               else key_mask_loop fs vs ms
                 (put_field (wf_pos f) (take (wf_size f) v8) key, put_field (wf_pos f) (take (wf_size f) m8) m)))"
| "key_mask_loop _ _ _ km = Some (Inr km)"

definition ExtractKeyMask ::
    "'h wildcard_match \<Rightarrow> field_data list \<Rightarrow> field_data list \<Rightarrow> (hkey \<times> hkey) response option" where
  "ExtractKeyMask wm vs ms =
     (if length vs \<noteq> length (wm_fields wm) then Some (Inl EINVAL)
      else if length ms \<noteq> length (wm_fields wm) then Some (Inl EINVAL)
      else key_mask_loop (wm_fields wm) vs ms (replicate HASH_KEY_SIZE 0, replicate HASH_KEY_SIZE 0))"

fun value_loop :: "wm_field list \<Rightarrow> field_data list \<Rightarrow> hkey \<Rightarrow> hkey response option" where
  "value_loop (f # fs) (vd # vs) keyv =
     (case field_word vd (wf_size f) False of
        Inl e \<Rightarrow> Some (Inl e)
      | Inr v8 \<Rightarrow>
          if wf_pos f + wf_size f > HASH_KEY_SIZE then None
          else value_loop fs vs (put_field (wf_pos f) (take (wf_size f) v8) keyv))"
| "value_loop _ _ keyv = Some (Inr keyv)"

definition ExtractValue :: "'h wildcard_match \<Rightarrow> field_data list \<Rightarrow> hkey response option" where
  "ExtractValue wm vs =
     (if length vs \<noteq> length (wm_values wm) then Some (Inl EINVAL)
      else value_loop (wm_values wm) vs (replicate HASH_KEY_SIZE 0))"

section \<open>Slots\<close>

definition same_mask :: "'h wildcard_match \<Rightarrow> hkey \<Rightarrow> hkey \<Rightarrow> bool" where
  "same_mask wm m m' \<longleftrightarrow> take (total_key_size wm) m = take (total_key_size wm) m'"

definition find_slot :: "'h wildcard_match \<Rightarrow> ('h wm_tuple \<Rightarrow> bool) \<Rightarrow> nat option" where
  "find_slot wm P = find (\<lambda>i. P (wm_tuples wm ! i)) [0..<MAX_TUPLES]"

definition set_slot :: "nat \<Rightarrow> 'h wm_tuple \<Rightarrow> 'h wildcard_match \<Rightarrow> 'h wildcard_match" where
  "set_slot i t wm = wm\<lparr>wm_tuples := (wm_tuples wm)[i := t]\<rparr>"

definition FindTuple :: "'h wildcard_match \<Rightarrow> hkey \<Rightarrow> nat option" where
  "FindTuple wm m = find_slot wm (\<lambda>t. occupied t \<and> same_mask wm (wt_mask t) m)"

definition AddTuple ::
    "('h, wm_data) hash_api \<Rightarrow> 'h wildcard_match \<Rightarrow> hkey \<Rightarrow> 'h wildcard_match \<times> nat response" where
  "AddTuple api wm m =
     (case find_slot wm (\<lambda>t. \<not> occupied t \<and> ht t \<noteq> None \<and> same_mask wm (wt_mask t) m) of
        Some i \<Rightarrow> (set_slot i ((wm_tuples wm ! i)\<lparr>occupied := True\<rparr>) wm, Inr i)
      | None \<Rightarrow>
     (case find_slot wm (\<lambda>t. \<not> occupied t \<and> ht t = None) of
        Some i \<Rightarrow>
          (let t = (wm_tuples wm ! i)\<lparr>wt_mask := m\<rparr>
           in case hash_create api (total_key_size wm)
                     (if wm_entries wm \<noteq> 0 then ucast (wm_entries wm) else 32768) of
                None \<Rightarrow> (set_slot i t wm, Inl ENOSPC)
              | Some h \<Rightarrow> (set_slot i (t\<lparr>ht := Some h, occupied := True\<rparr>) wm, Inr i))
      | None \<Rightarrow>
     (case find_slot wm (\<lambda>t. \<not> occupied t \<and> ht t \<noteq> None) of
        Some i \<Rightarrow> (set_slot i ((wm_tuples wm ! i)\<lparr>wt_mask := m, occupied := True\<rparr>) wm, Inr i)
      | None \<Rightarrow> (wm, Inl ENOSPC))))"

text \<open>The table compares as many bytes as the keys have.\<close>

abbreviation table_key :: "'h wildcard_match \<Rightarrow> hkey \<Rightarrow> hkey" where
  "table_key wm key \<equiv> take (total_key_size wm) key"

definition DelEntry ::
    "('h, wm_data) hash_api \<Rightarrow> 'h wildcard_match \<Rightarrow> nat \<Rightarrow> hkey \<Rightarrow> 'h wildcard_match option" where
  "DelEntry api wm idx key = do {
     let t = wm_tuples wm ! idx;
     h \<leftarrow> ht t;
     let h' = hash_del api h (table_key wm key);
     Some (set_slot idx (t\<lparr>ht := Some h', occupied := occupied t \<and> hash_count api h' \<noteq> 0\<rparr>) wm)
   }"

section \<open>Commands\<close>

definition CommandAdd ::
    "('h, wm_data) hash_api \<Rightarrow> 'h wildcard_match \<Rightarrow> wm_rule \<Rightarrow> ('h wildcard_match \<times> unit response) option" where
  "CommandAdd api wm arg = do {
     let gate = (ucast (r_gate arg) :: u16);
     let prio = sint (of_int (r_priority arg) :: u32);
     km \<leftarrow> ExtractKeyMask wm (r_values arg) (r_masks arg);
     (case km of
        Inl e \<Rightarrow> Some (wm, Inl e)
      | Inr (key, m) \<Rightarrow>
          if \<not> is_valid_gate gate then Some (wm, Inl EINVAL)
          else do {
            kv \<leftarrow> ExtractValue wm (r_valuesv arg);
            (case kv of
               Inl e \<Rightarrow> Some (wm, Inl e)
             | Inr keyv \<Rightarrow> do {
                 let (wm1, idx) = (case FindTuple wm m of Some i \<Rightarrow> (wm, Inr i) | None \<Rightarrow> AddTuple api wm m);
                 (case idx of
                    Inl e \<Rightarrow> Some (wm1, Inl e)
                  | Inr i \<Rightarrow> do {
                      let t = wm_tuples wm1 ! i;
                      h \<leftarrow> ht t;
                      (case hash_add api h (table_key wm1 key)
                              \<lparr>wd_priority = prio, wd_ogate = gate, wd_keyv = keyv\<rparr> of
                         None \<Rightarrow> Some (wm1, Inl EINVAL)
                       | Some h' \<Rightarrow> Some (set_slot i (t\<lparr>ht := Some h'\<rparr>) wm1, Inr ()))
                    })
               })
          })
   }"

definition CommandDelete ::
    "('h, wm_data) hash_api \<Rightarrow> 'h wildcard_match \<Rightarrow> field_data list \<Rightarrow> field_data list \<Rightarrow>
     ('h wildcard_match \<times> unit response) option" where
  "CommandDelete api wm vs ms = do {
     km \<leftarrow> ExtractKeyMask wm vs ms;
     (case km of
        Inl e \<Rightarrow> Some (wm, Inl e)
      | Inr (key, m) \<Rightarrow>
          (case FindTuple wm m of
             None \<Rightarrow> Some (wm, Inl ENOENT)
           | Some i \<Rightarrow> map_option (\<lambda>wm. (wm, Inr ())) (DelEntry api wm i key)))
   }"

definition clear_tuple :: "'h wm_tuple \<Rightarrow> 'h wm_tuple option" where
  "clear_tuple t =
     (if occupied t \<or> ht t \<noteq> None
      then (case ht t of None \<Rightarrow> None | Some h \<Rightarrow> Some (t\<lparr>ht := None, occupied := False\<rparr>))
      else Some t)"

definition WildcardMatch_Clear :: "'h wildcard_match \<Rightarrow> 'h wildcard_match option" where
  "WildcardMatch_Clear wm = do {
     ts \<leftarrow> those (map clear_tuple (wm_tuples wm));
     Some (wm\<lparr>wm_tuples := ts\<rparr>)
   }"

definition CommandSetDefaultGate :: "u64 \<Rightarrow> 'h wildcard_match \<Rightarrow> 'h wildcard_match" where
  "CommandSetDefaultGate gate wm = wm\<lparr>default_gate := ucast gate\<rparr>"

definition GetInitialArg :: "attribute list \<Rightarrow> 'h wildcard_match \<Rightarrow> field_arg list option" where
  "GetInitialArg attrs wm = those (map (\<lambda>f.
     (case wf_attr f of
        Some i \<Rightarrow> if i < length attrs then Some (AtAttr (attr_name (attrs ! i)), of_nat (wf_size f)) else None
      | None \<Rightarrow> Some (AtOffset (of_nat (wf_offset f)), of_nat (wf_size f)))) (wm_fields wm))"

definition rule_of_entry :: "'h wildcard_match \<Rightarrow> hkey \<Rightarrow> hkey \<times> wm_data \<Rightarrow> wm_rule" where
  "rule_of_entry wm m e =
     \<lparr>r_gate = ucast (wd_ogate (snd e)), r_priority = wd_priority (snd e),
      r_values = map (\<lambda>f. ValueBin (take (wf_size f) (drop (wf_pos f) (fst e)))) (wm_fields wm),
      r_masks = map (\<lambda>f. ValueBin (take (wf_size f) (drop (wf_pos f) m))) (wm_fields wm),
      r_valuesv = []\<rparr>"

fun bin :: "field_data \<Rightarrow> u8 list" where
  "bin (ValueBin bs) = bs"
| "bin _ = []"

definition rule_rank :: "wm_rule \<Rightarrow> int \<times> u64 \<times> u8 list list \<times> u8 list list" where
  "rule_rank r = (r_priority r, r_gate r, map bin (r_masks r), map bin (r_values r))"

definition GetRuntimeConfig :: "('h, wm_data) hash_api \<Rightarrow> 'h wildcard_match \<Rightarrow> (u64 \<times> wm_rule list) option" where
  "GetRuntimeConfig api wm = do {
     rs \<leftarrow> those (map (\<lambda>t. map_option (\<lambda>h. map (rule_of_entry wm (wt_mask t)) (hash_items api h)) (ht t))
             (filter occupied (wm_tuples wm)));
     Some (ucast (default_gate wm), sort_key rule_rank (concat rs))
   }"

fun add_rules ::
    "('h, wm_data) hash_api \<Rightarrow> 'h wildcard_match \<Rightarrow> wm_rule list \<Rightarrow> ('h wildcard_match \<times> unit response) option" where
  "add_rules api wm [] = Some (wm, Inr ())"
| "add_rules api wm (r # rs) = do {
     (wm, a) \<leftarrow> CommandAdd api wm r;
     (case a of Inl e \<Rightarrow> Some (wm, Inl e) | Inr _ \<Rightarrow> add_rules api wm rs)
   }"

definition SetRuntimeConfig ::
    "('h, wm_data) hash_api \<Rightarrow> 'h wildcard_match \<Rightarrow> u64 \<Rightarrow> wm_rule list \<Rightarrow>
     ('h wildcard_match \<times> unit response) option" where
  "SetRuntimeConfig api wm gate rs = do {
     wm \<leftarrow> WildcardMatch_Clear wm;
     add_rules api (wm\<lparr>default_gate := ucast gate\<rparr>) rs
   }"

definition WildcardMatch_DeInit :: "'h wildcard_match \<Rightarrow> 'h wildcard_match" where
  "WildcardMatch_DeInit wm = wm\<lparr>wm_tuples := map (\<lambda>t. t\<lparr>ht := None\<rparr>) (wm_tuples wm)\<rparr>"

definition GetDesc :: "('h, wm_data) hash_api \<Rightarrow> 'h wildcard_match \<Rightarrow> (nat \<times> nat) option" where
  "GetDesc api wm = do {
     ns \<leftarrow> those (map (\<lambda>t. map_option (hash_count api) (ht t)) (filter occupied (wm_tuples wm)));
     Some (length (wm_fields wm), sum_list ns)
   }"

section \<open>Lookup\<close>

text \<open>Writing the values of a result into the packet, by the order of the values.\<close>

definition set_value :: "(nat \<Rightarrow> int) \<Rightarrow> hkey \<Rightarrow> wm_field \<Rightarrow> packet \<Rightarrow> packet option" where
  "set_value attr_offset keyv f p =
     (if wf_pos f + wf_size f > length keyv then None
      else let buf = take (wf_size f) (drop (wf_pos f) keyv)
      in case wf_attr f of
        None \<Rightarrow> store_bytes (head_data p (wf_offset f)) buf p
      | Some i \<Rightarrow>
          if wf_size f \<in> {1, 2, 4, 8} then set_attr_with_offset (attr_offset i) buf p
          else if attr_offset i < 0 then None
          else store_bytes (SNBUF_METADATA_OFF + nat (attr_offset i)) buf p)"

fun set_values :: "(nat \<Rightarrow> int) \<Rightarrow> hkey \<Rightarrow> wm_field list \<Rightarrow> packet \<Rightarrow> packet option" where
  "set_values attr_offset keyv [] p = Some p"
| "set_values attr_offset keyv (f # fs) p = do {
     p \<leftarrow> set_value attr_offset keyv f p;
     set_values attr_offset keyv fs p
   }"

text \<open>\<^verbatim>\<open>LookupEntry\<close>: one packet.\<close>

fun best_entry ::
    "('h, wm_data) hash_api \<Rightarrow> nat \<Rightarrow> hkey \<Rightarrow> 'h wm_tuple list \<Rightarrow> wm_data \<Rightarrow> wm_data option" where
  "best_entry api n key [] result = Some result"
| "best_entry api n key (t # ts) result =
     (if \<not> occupied t then best_entry api n key ts result
      else do {
        h \<leftarrow> ht t;
        (case hash_lookup api h (mask_key key (wt_mask t) n) of
           Some e \<Rightarrow> best_entry api n key ts (if wd_priority e \<ge> wd_priority result then e else result)
         | None \<Rightarrow> best_entry api n key ts result)
      })"

definition LookupEntry ::
    "('h, wm_data) hash_api \<Rightarrow> (nat \<Rightarrow> int) \<Rightarrow> 'h wildcard_match \<Rightarrow> hkey \<Rightarrow> u16 \<Rightarrow> packet \<Rightarrow>
     (packet \<times> u16) option" where
  "LookupEntry api attr_offset wm key def_gate p = do {
     result \<leftarrow> best_entry api (total_key_size wm) key (wm_tuples wm)
       \<lparr>wd_priority = INT_MIN, wd_ogate = def_gate, wd_keyv = replicate HASH_KEY_SIZE 0\<rparr>;
     p \<leftarrow> (if wd_ogate result \<noteq> default_gate wm
           then set_values attr_offset (wd_keyv result) (wm_values wm) p else Some p);
     Some (p, wd_ogate result)
   }"

text \<open>
  \<^verbatim>\<open>LookupBulkEntry\<close>: a result for every packet of a batch. A packet whose bit of
  \<^verbatim>\<open>prev_hitmask\<close> is not set has no result yet.
\<close>

definition better :: "wm_data option \<Rightarrow> wm_data option \<Rightarrow> wm_data option" where
  "better result hit =
     (case hit of
        None \<Rightarrow> result
      | Some e \<Rightarrow>
          (case result of
             None \<Rightarrow> Some e
           | Some r \<Rightarrow> if wd_priority e \<ge> wd_priority r then Some e else Some r))"

fun bulk_results ::
    "('h, wm_data) hash_api \<Rightarrow> nat \<Rightarrow> hkey list \<Rightarrow> 'h wm_tuple list \<Rightarrow> wm_data option list \<Rightarrow>
     wm_data option list option" where
  "bulk_results api n keys [] results = Some results"
| "bulk_results api n keys (t # ts) results =
     (if \<not> occupied t then bulk_results api n keys ts results
      else do {
        h \<leftarrow> ht t;
        let hits = map (\<lambda>key. hash_lookup api h (mask_key key (wt_mask t) n)) keys;
        (if \<forall>e\<in>set hits. e = None then bulk_results api n keys ts results
         else bulk_results api n keys ts (map2 better results hits))
      })"

definition LookupBulkEntry ::
    "('h, wm_data) hash_api \<Rightarrow> (nat \<Rightarrow> int) \<Rightarrow> 'h wildcard_match \<Rightarrow> u16 \<Rightarrow> (hkey \<times> packet) list \<Rightarrow>
     (packet \<times> u16) list option" where
  "LookupBulkEntry api attr_offset wm def_gate batch = do {
     results \<leftarrow> bulk_results api (total_key_size wm) (map fst batch) (wm_tuples wm) (replicate (length batch) None);
     those (map2 (\<lambda>(key, p) result.
       (case result of
          None \<Rightarrow> Some (p, def_gate)
        | Some r \<Rightarrow> do {
            p \<leftarrow> set_values attr_offset (wd_keyv r) (wm_values wm) p;
            Some (p, wd_ogate r)
          })) batch results)
   }"

section \<open>Processing a batch\<close>

text \<open>
  The key of a packet: the last word is set to zero, then every field brings eight bytes to its
  position. The rest is what the stack holds, \<open>stack\<close>.
\<close>

definition field_bytes :: "(nat \<Rightarrow> int) \<Rightarrow> wm_field \<Rightarrow> packet \<Rightarrow> u8 list option" where
  "field_bytes attr_offset f p =
     (case wf_attr f of
        None \<Rightarrow> load_bytes 8 (head_data p (wf_offset f)) p
      | Some i \<Rightarrow> load_bytes 8 (nat (int SNBUF_HEADROOM_OFF + mt_offset_to_databuf_offset (attr_offset i))) p)"

fun fill_key :: "(nat \<Rightarrow> int) \<Rightarrow> wm_field list \<Rightarrow> packet \<Rightarrow> hkey \<Rightarrow> hkey option" where
  "fill_key attr_offset [] p key = Some key"
| "fill_key attr_offset (f # fs) p key = do {
     bs \<leftarrow> field_bytes attr_offset f p;
     (if wf_pos f + 8 > length key then None else fill_key attr_offset fs p (put_field (wf_pos f) bs key))
   }"

definition make_key :: "(nat \<Rightarrow> int) \<Rightarrow> 'h wildcard_match \<Rightarrow> hkey \<Rightarrow> packet \<Rightarrow> hkey option" where
  "make_key attr_offset wm stack p =
     (if total_key_size wm = 0 \<or> total_key_size wm > HASH_KEY_SIZE then None
      else fill_key attr_offset (wm_fields wm) p
             (put_field ((total_key_size wm - 1) div 8 * 8) (replicate 8 0) stack))"

function bulk_chunks :: "((hkey \<times> packet) list \<Rightarrow> 'a list option) \<Rightarrow> (hkey \<times> packet) list \<Rightarrow> 'a list option" where
  "bulk_chunks f batch =
     (if batch = [] then Some []
      else do {
        r \<leftarrow> f (take 64 batch);
        rs \<leftarrow> bulk_chunks f (drop 64 batch);
        Some (r @ rs)
      })"
  by pat_completeness auto
termination by (relation "measure (\<lambda>(_, b). length b)") auto

declare bulk_chunks.simps [simp del]

definition WildcardMatch_ProcessBatch ::
    "('h, wm_data) hash_api \<Rightarrow> (nat \<Rightarrow> int) \<Rightarrow> 'h wildcard_match \<Rightarrow> (nat \<Rightarrow> hkey) \<Rightarrow> packet list \<Rightarrow>
     (packet \<times> u16) list option" where
  "WildcardMatch_ProcessBatch api attr_offset wm stack pkts = do {
     keys \<leftarrow> those (map (\<lambda>(i, p). make_key attr_offset wm (stack i) p) (enumerate 0 pkts));
     let lookup = LookupBulkEntry api attr_offset wm (default_gate wm);
     (if length pkts > 64 then bulk_chunks lookup (zip keys pkts) else lookup (zip keys pkts))
   }"

end
