(* ===== verification/Wildcard_Correct.thy ===== *)
theory Wildcard_Correct
  imports Wildcard_Match
begin

text \<open>
  What the slots of a \<^verbatim>\<open>WildcardMatch\<close> stand for: a table from a mask and a masked key to a
  result. The invariant says that no two occupied slots have the same mask, that an occupied slot
  has a hash table and that the table of a released slot is empty. Every command keeps it and
  changes the table by the one rule it names.
\<close>

lemma those_eq_Some: "those xs = Some ys \<longleftrightarrow> xs = map Some ys"
proof (induction xs arbitrary: ys)
  case (Cons x xs)
  then show ?case by (cases ys) (auto split: option.splits)
qed auto

section \<open>Invariant and abstraction\<close>

definition tuple_ok :: "('h, wm_data) hash_api \<Rightarrow> 'h wm_tuple \<Rightarrow> bool" where
  "tuple_ok api t \<longleftrightarrow> length (wt_mask t) = HASH_KEY_SIZE \<and>
     (case ht t of None \<Rightarrow> \<not> occupied t | Some h \<Rightarrow> occupied t \<or> hash_lookup api h = Map.empty)"

definition wm_inv :: "('h, wm_data) hash_api \<Rightarrow> 'h wildcard_match \<Rightarrow> bool" where
  "wm_inv api wm \<longleftrightarrow> length (wm_tuples wm) = MAX_TUPLES \<and>
     (\<forall>t\<in>set (wm_tuples wm). tuple_ok api t) \<and>
     (\<forall>i<MAX_TUPLES. \<forall>j<MAX_TUPLES. occupied (wm_tuples wm ! i) \<and> occupied (wm_tuples wm ! j) \<and>
        same_mask wm (wt_mask (wm_tuples wm ! i)) (wt_mask (wm_tuples wm ! j)) \<longrightarrow> i = j)"

definition slot_of :: "'h wildcard_match \<Rightarrow> hkey \<Rightarrow> nat option" where
  "slot_of wm m = find_slot wm (\<lambda>t. occupied t \<and> table_key wm (wt_mask t) = m)"

definition wm_rules :: "('h, wm_data) hash_api \<Rightarrow> 'h wildcard_match \<Rightarrow> hkey \<times> hkey \<Rightarrow> wm_data option" where
  "wm_rules api wm = (\<lambda>(m, k).
     (case slot_of wm m of
        None \<Rightarrow> None
      | Some i \<Rightarrow> (case ht (wm_tuples wm ! i) of None \<Rightarrow> None | Some h \<Rightarrow> hash_lookup api h k)))"

lemma FindTuple_slot_of: "FindTuple wm m = slot_of wm (table_key wm m)"
  by (simp add: FindTuple_def slot_of_def same_mask_def)

lemma find_slot_Some:
  assumes "find_slot wm P = Some i"
  shows "i < MAX_TUPLES" "P (wm_tuples wm ! i)"
  using find_upt_Some [OF assms [unfolded find_slot_def]] by auto

lemma find_slot_None: "find_slot wm P = None \<longleftrightarrow> (\<forall>i<MAX_TUPLES. \<not> P (wm_tuples wm ! i))"
  by (simp add: find_slot_def find_upt_None)

lemma slot_ofD:
  assumes "slot_of wm m = Some i"
  shows "i < MAX_TUPLES" "occupied (wm_tuples wm ! i)" "table_key wm (wt_mask (wm_tuples wm ! i)) = m"
  using find_slot_Some [OF assms [unfolded slot_of_def]] by auto

lemma slot_of_None:
  "slot_of wm m = None \<longleftrightarrow>
     (\<forall>i<MAX_TUPLES. occupied (wm_tuples wm ! i) \<longrightarrow> table_key wm (wt_mask (wm_tuples wm ! i)) \<noteq> m)"
  by (auto simp: slot_of_def find_slot_None)

lemma wm_invD:
  assumes "wm_inv api wm" "i < MAX_TUPLES"
  shows "tuple_ok api (wm_tuples wm ! i)"
    "\<lbrakk>j < MAX_TUPLES; occupied (wm_tuples wm ! i); occupied (wm_tuples wm ! j);
      table_key wm (wt_mask (wm_tuples wm ! i)) = table_key wm (wt_mask (wm_tuples wm ! j))\<rbrakk> \<Longrightarrow> i = j"
  using assms by (auto simp: wm_inv_def same_mask_def)

lemma slot_of_unique:
  assumes "wm_inv api wm" "i < MAX_TUPLES" "occupied (wm_tuples wm ! i)"
  shows "slot_of wm (table_key wm (wt_mask (wm_tuples wm ! i))) = Some i"
proof (cases "slot_of wm (table_key wm (wt_mask (wm_tuples wm ! i)))")
  case None
  then show ?thesis using assms by (auto simp: slot_of_None)
next
  case (Some j)
  have "i = j" by (rule wm_invD(2) [OF assms(1,2) slot_ofD(1) [OF Some] assms(3) slot_ofD(2) [OF Some]])
      (simp add: slot_ofD(3) [OF Some])
  with Some show ?thesis by simp
qed

section \<open>Changing one slot\<close>

lemma set_slot_simps [simp]:
  "total_key_size (set_slot i t wm) = total_key_size wm" "wm_fields (set_slot i t wm) = wm_fields wm"
  "wm_values (set_slot i t wm) = wm_values wm" "default_gate (set_slot i t wm) = default_gate wm"
  "wm_entries (set_slot i t wm) = wm_entries wm" "wm_tuples (set_slot i t wm) = (wm_tuples wm)[i := t]"
  by (simp_all add: set_slot_def)

definition other_slots_differ :: "'h wildcard_match \<Rightarrow> nat \<Rightarrow> hkey \<Rightarrow> bool" where
  "other_slots_differ wm i m \<longleftrightarrow> (\<forall>j<MAX_TUPLES. j \<noteq> i \<and> occupied (wm_tuples wm ! j) \<longrightarrow>
     table_key wm (wt_mask (wm_tuples wm ! j)) \<noteq> m)"

lemma set_slot_inv:
  assumes "wm_inv api wm" "i < MAX_TUPLES" "tuple_ok api t"
    "occupied t \<Longrightarrow> other_slots_differ wm i (table_key wm (wt_mask t))"
  shows "wm_inv api (set_slot i t wm)"
proof -
  have len: "length (wm_tuples wm) = MAX_TUPLES" using assms(1) by (simp add: wm_inv_def)
  have "x = y" if "x < MAX_TUPLES" "y < MAX_TUPLES" "occupied ((wm_tuples wm)[i := t] ! x)" "occupied ((wm_tuples wm)[i := t] ! y)"
    "table_key wm (wt_mask ((wm_tuples wm)[i := t] ! x)) = table_key wm (wt_mask ((wm_tuples wm)[i := t] ! y))" for x y
    using that assms(2,4) len wm_invD(2) [OF assms(1) that(1,2)]
    by (cases "x = i"; cases "y = i") (auto simp: other_slots_differ_def)
  moreover have "\<forall>u\<in>set ((wm_tuples wm)[i := t]). tuple_ok api u"
    using assms(1,3) set_update_subset_insert [of "wm_tuples wm" i t] by (auto simp: wm_inv_def)
  ultimately show ?thesis using len by (simp add: wm_inv_def same_mask_def)
qed

lemma slot_of_set_slot:
  assumes "wm_inv api wm" "i < MAX_TUPLES" "tuple_ok api t"
    "occupied t \<Longrightarrow> other_slots_differ wm i (table_key wm (wt_mask t))"
  shows "slot_of (set_slot i t wm) m =
    (if occupied t \<and> table_key wm (wt_mask t) = m then Some i
     else if slot_of wm m = Some i then None else slot_of wm m)"
proof -
  have len: "i < length (wm_tuples wm)" using assms(1,2) by (simp add: wm_inv_def)
  note inv' = set_slot_inv [OF assms]
  consider (new) "occupied t \<and> table_key wm (wt_mask t) = m"
    | (gone) "\<not> (occupied t \<and> table_key wm (wt_mask t) = m)" "slot_of wm m = Some i"
    | (none) "\<not> (occupied t \<and> table_key wm (wt_mask t) = m)" "slot_of wm m = None"
    | (same) j where "\<not> (occupied t \<and> table_key wm (wt_mask t) = m)" "slot_of wm m = Some j" "j \<noteq> i"
    by (metis option.exhaust)
  then show ?thesis
  proof cases
    case new
    then show ?thesis using slot_of_unique [OF inv' assms(2)] len by simp
  next
    case gone
    have "slot_of (set_slot i t wm) m = None"
      using gone slot_ofD [OF gone(2)] wm_invD(2) [OF assms(1)] len
      by (auto simp: slot_of_None nth_list_update)
    then show ?thesis using gone by simp
  next
    case none
    then have "slot_of (set_slot i t wm) m = None" using len by (auto simp: slot_of_None nth_list_update)
    then show ?thesis using none by simp
  next
    case same
    then show ?thesis using slot_of_unique [OF inv' slot_ofD(1) [OF same(2)]] slot_ofD [OF same(2)] by simp
  qed
qed

text \<open>A slot that keeps or gets the mask \<open>m\<close> replaces the rules with that mask.\<close>

lemma set_slot_rules:
  assumes "wm_inv api wm" "i < MAX_TUPLES" "ht t = Some h" "tuple_ok api t" "table_key wm (wt_mask t) = m"
    "slot_of wm m = Some i \<or> slot_of wm m = None \<and> \<not> occupied (wm_tuples wm ! i)"
  shows "wm_inv api (set_slot i t wm)"
    "wm_rules api (set_slot i t wm) = (\<lambda>(m', k). if m' = m then hash_lookup api h k else wm_rules api wm (m', k))"
proof -
  have diff: "other_slots_differ wm i m"
    using assms(6) slot_ofD [of wm m i] wm_invD(2) [OF assms(1)]
    by (auto simp: other_slots_differ_def slot_of_None)
  show inv': "wm_inv api (set_slot i t wm)" using set_slot_inv [OF assms(1,2,4)] diff assms(5) by simp
  have len: "i < length (wm_tuples wm)" using assms(1,2) by (simp add: wm_inv_def)
  have other: "slot_of wm m' \<noteq> Some i" if "m' \<noteq> m" for m'
    using assms(6) that slot_ofD [of wm m' i] slot_ofD [of wm m i] by auto
  have "wm_rules api (set_slot i t wm) (m', k) = (if m' = m then hash_lookup api h k else wm_rules api wm (m', k))" for m' k
    using slot_of_set_slot [OF assms(1,2,4), of m'] diff assms(3,4,5,6) other [of m'] len
    by (auto simp: wm_rules_def tuple_ok_def nth_list_update split: option.splits)
  then show "wm_rules api (set_slot i t wm) = (\<lambda>(m', k). if m' = m then hash_lookup api h k else wm_rules api wm (m', k))"
    by auto
qed

text \<open>A slot that stays free changes nothing.\<close>

lemma set_slot_free:
  assumes "wm_inv api wm" "i < MAX_TUPLES" "tuple_ok api t" "\<not> occupied t" "\<not> occupied (wm_tuples wm ! i)"
  shows "wm_inv api (set_slot i t wm)" "wm_rules api (set_slot i t wm) = wm_rules api wm"
proof -
  show "wm_inv api (set_slot i t wm)" using set_slot_inv [OF assms(1-3)] assms(4) by simp
  have "slot_of wm m \<noteq> Some i" for m using assms(5) slot_ofD(2) by metis
  then have "slot_of (set_slot i t wm) m = slot_of wm m" for m
    using slot_of_set_slot [OF assms(1-3)] assms(4) by simp
  moreover have "(wm_tuples wm)[i := t] ! j = wm_tuples wm ! j" if "slot_of wm m = Some j" for j m
    using that assms(5) slot_ofD(2) [OF that] by (metis nth_list_update_neq)
  ultimately show "wm_rules api (set_slot i t wm) = wm_rules api wm"
    by (auto simp: wm_rules_def fun_eq_iff split: option.splits)
qed

section \<open>Commands\<close>

definition same_config :: "'h wildcard_match \<Rightarrow> 'h wildcard_match \<Rightarrow> bool" where
  "same_config wm wm' \<longleftrightarrow> wm_fields wm' = wm_fields wm \<and> wm_values wm' = wm_values wm \<and>
     total_key_size wm' = total_key_size wm \<and> wm_entries wm' = wm_entries wm"

lemma same_config_refl [simp]: "same_config wm wm"
  by (simp add: same_config_def)

lemma same_config_trans: "same_config a b \<Longrightarrow> same_config b c \<Longrightarrow> same_config a c"
  by (simp add: same_config_def)

lemma same_config_set_slot [simp]: "same_config wm (set_slot i t wm') \<longleftrightarrow> same_config wm wm'"
  by (simp add: same_config_def)

lemma Extract_config:
  assumes "same_config wm wm'"
  shows "ExtractKeyMask wm' = ExtractKeyMask wm" "ExtractValue wm' = ExtractValue wm"
  using assms by (auto simp: same_config_def ExtractKeyMask_def ExtractValue_def fun_eq_iff)

lemma length_field_word: "field_word d n be = Inr v \<Longrightarrow> n \<le> 8 \<Longrightarrow> length v = 8"
  by (auto simp: field_word_def split: field_data.splits option.splits if_splits dest: uint64_to_bin_length)

lemma key_mask_loop_step:
  "key_mask_loop (f # fs) (vd # vs) (md # ms) (key, m) = Some (Inr r) \<longleftrightarrow>
     (\<exists>v8 m8. field_word vd (wf_size f) True = Inr v8 \<and> field_word md (wf_size f) True = Inr m8 \<and>
        \<not> outside_mask v8 m8 \<and> wf_pos f + wf_size f \<le> HASH_KEY_SIZE \<and>
        key_mask_loop fs vs ms (put_field (wf_pos f) (take (wf_size f) v8) key,
          put_field (wf_pos f) (take (wf_size f) m8) m) = Some (Inr r))"
  by (auto split: sum.splits)

lemma key_mask_loop_length:
  assumes "key_mask_loop fs vs ms (key, m) = Some (Inr (key', m'))"
    "length key = HASH_KEY_SIZE" "length m = HASH_KEY_SIZE"
  shows "length key' = HASH_KEY_SIZE" "length m' = HASH_KEY_SIZE"
proof -
  have "length key' = HASH_KEY_SIZE \<and> length m' = HASH_KEY_SIZE"
    using assms
  proof (induction fs vs ms "(key, m)" arbitrary: key m rule: key_mask_loop.induct)
    case (1 f fs vd vs md ms key m)
    obtain v8 m8 where st: "field_word vd (wf_size f) True = Inr v8" "field_word md (wf_size f) True = Inr m8"
      "\<not> outside_mask v8 m8" "wf_pos f + wf_size f \<le> HASH_KEY_SIZE"
      "key_mask_loop fs vs ms (put_field (wf_pos f) (take (wf_size f) v8) key,
         put_field (wf_pos f) (take (wf_size f) m8) m) = Some (Inr (key', m'))"
      using 1(2) unfolding key_mask_loop_step by blast
    have "wf_pos f + length (take (wf_size f) x) \<le> HASH_KEY_SIZE" for x :: "u8 list" using st(4) by simp
    then show ?case using 1(1) [OF st(1,2,3) _ st(5)] st(4) 1(3,4) by simp
  qed auto
  then show "length key' = HASH_KEY_SIZE" "length m' = HASH_KEY_SIZE" by auto
qed

lemma ExtractKeyMask_length:
  assumes "ExtractKeyMask wm vs ms = Some (Inr (key, m))"
  shows "length key = HASH_KEY_SIZE" "length m = HASH_KEY_SIZE"
  using assms key_mask_loop_length [of "wm_fields wm" vs ms "replicate HASH_KEY_SIZE 0" "replicate HASH_KEY_SIZE 0" key m]
  by (auto simp: ExtractKeyMask_def split: if_splits)

lemma tuple_ok_simps:
  "tuple_ok api (t\<lparr>occupied := True\<rparr>) \<longleftrightarrow> length (wt_mask t) = HASH_KEY_SIZE \<and> ht t \<noteq> None"
  "tuple_ok api (t\<lparr>wt_mask := m, occupied := True\<rparr>) \<longleftrightarrow> length m = HASH_KEY_SIZE \<and> ht t \<noteq> None"
  "tuple_ok api (t\<lparr>wt_mask := m, ht := Some h, occupied := True\<rparr>) \<longleftrightarrow> length m = HASH_KEY_SIZE"
  by (auto simp: tuple_ok_def split: option.splits)

text \<open>Taking a free slot for a mask that has none: the rules are the same, none of them with this mask.\<close>

lemma take_slot:
  assumes "wm_inv api wm" "i < MAX_TUPLES" "\<not> occupied (wm_tuples wm ! i)" "slot_of wm (table_key wm m) = None"
    "occupied t" "ht t = Some h" "hash_lookup api h = Map.empty" "wt_mask t = m \<or> table_key wm (wt_mask t) = table_key wm m"
    "length (wt_mask t) = HASH_KEY_SIZE"
  shows "wm_inv api (set_slot i t wm)" "wm_rules api (set_slot i t wm) = wm_rules api wm"
    "slot_of (set_slot i t wm) (table_key wm m) = Some i"
proof -
  have mask: "table_key wm (wt_mask t) = table_key wm m" using assms(8) by auto
  have ok: "tuple_ok api t" using assms(5,6,9) by (simp add: tuple_ok_def)
  have free: "slot_of wm (table_key wm m) = Some i \<or> slot_of wm (table_key wm m) = None \<and> \<not> occupied (wm_tuples wm ! i)"
    using assms(3,4) by simp
  note set = set_slot_rules [OF assms(1,2,6) ok mask free]
  show "wm_inv api (set_slot i t wm)" by (rule set(1))
  show "wm_rules api (set_slot i t wm) = wm_rules api wm"
    unfolding set(2) using assms(4,7) by (auto simp: wm_rules_def fun_eq_iff)
  show "slot_of (set_slot i t wm) (table_key wm m) = Some i"
    using slot_of_unique [OF set(1) assms(2)] assms(1,2,5) mask by (simp add: wm_inv_def)
qed

text \<open>The number of entries a new table is created for.\<close>

abbreviation table_entries :: "'h wildcard_match \<Rightarrow> u32" where
  "table_entries wm \<equiv> (if wm_entries wm \<noteq> 0 then ucast (wm_entries wm) else 32768)"

lemma AddTuple_post:
  assumes "hash_laws api" "wm_inv api wm" "slot_of wm (table_key wm m) = None" "length m = HASH_KEY_SIZE"
    "AddTuple api wm m = (wm', r)"
  shows "wm_inv api wm'" "wm_rules api wm' = wm_rules api wm" "same_config wm wm'"
    "r = Inr i \<Longrightarrow> slot_of wm' (table_key wm m) = Some i"
    "r = Inl e \<Longrightarrow> e = ENOSPC \<and> ((\<forall>i<MAX_TUPLES. occupied (wm_tuples wm ! i)) \<or> hash_create api (total_key_size wm) (table_entries wm) = None)"
proof -
  let ?P = "\<lambda>t. \<not> occupied t \<and> ht t \<noteq> None \<and> same_mask wm (wt_mask t) m"
  let ?Q = "\<lambda>t. \<not> occupied t \<and> ht t = None"
  let ?R = "\<lambda>t. \<not> occupied t \<and> ht t \<noteq> None"
  have empty: "hash_lookup api h = Map.empty" "length (wt_mask (wm_tuples wm ! i)) = HASH_KEY_SIZE"
    if "i < MAX_TUPLES" "\<not> occupied (wm_tuples wm ! i)" "ht (wm_tuples wm ! i) = Some h" for i h
    using wm_invD(1) [OF assms(2) that(1)] that(2,3) by (simp_all add: tuple_ok_def)
  consider (again) j where "find_slot wm ?P = Some j"
      "wm' = set_slot j ((wm_tuples wm ! j)\<lparr>occupied := True\<rparr>) wm" "r = Inr j"
    | (fail) j where "find_slot wm ?Q = Some j" "hash_create api (total_key_size wm) (table_entries wm) = None"
      "wm' = set_slot j ((wm_tuples wm ! j)\<lparr>wt_mask := m\<rparr>) wm" "r = Inl ENOSPC"
    | (fresh) j h where "find_slot wm ?Q = Some j" "hash_create api (total_key_size wm) (table_entries wm) = Some h"
      "wm' = set_slot j ((wm_tuples wm ! j)\<lparr>wt_mask := m, ht := Some h, occupied := True\<rparr>) wm" "r = Inr j"
    | (released) j where "find_slot wm ?R = Some j"
      "wm' = set_slot j ((wm_tuples wm ! j)\<lparr>wt_mask := m, occupied := True\<rparr>) wm" "r = Inr j"
    | (full) "find_slot wm ?Q = None" "find_slot wm ?R = None" "wm' = wm" "r = Inl ENOSPC"
    using assms(5) by (fastforce simp: AddTuple_def Let_def split: option.splits)
  then have "wm_inv api wm' \<and> wm_rules api wm' = wm_rules api wm \<and> same_config wm wm' \<and>
    (case r of Inr i \<Rightarrow> slot_of wm' (table_key wm m) = Some i
     | Inl e \<Rightarrow> e = ENOSPC \<and> ((\<forall>i<MAX_TUPLES. occupied (wm_tuples wm ! i)) \<or> hash_create api (total_key_size wm) (table_entries wm) = None))"
  proof cases
    case again
    note j = find_slot_Some [OF again(1)]
    then obtain h where h: "ht (wm_tuples wm ! j) = Some h" by auto
    show ?thesis
      using take_slot [OF assms(2) j(1) _ assms(3), of "(wm_tuples wm ! j)\<lparr>occupied := True\<rparr>" h] j h
        empty [OF j(1) _ h] again by (simp add: same_mask_def)
  next
    case fail
    note j = find_slot_Some [OF fail(1)]
    then have "tuple_ok api ((wm_tuples wm ! j)\<lparr>wt_mask := m\<rparr>)" using assms(4) by (simp add: tuple_ok_def)
    then show ?thesis using set_slot_free [OF assms(2) j(1), of "(wm_tuples wm ! j)\<lparr>wt_mask := m\<rparr>"] j fail by auto
  next
    case fresh
    note j = find_slot_Some [OF fresh(1)]
    show ?thesis
      using take_slot [OF assms(2) j(1) _ assms(3), of "(wm_tuples wm ! j)\<lparr>wt_mask := m, ht := Some h, occupied := True\<rparr>" h] j
        hash_lawsD(1) [OF assms(1) fresh(2)] fresh assms(4) by simp
  next
    case released
    note j = find_slot_Some [OF released(1)]
    then obtain h where h: "ht (wm_tuples wm ! j) = Some h" by auto
    show ?thesis
      using take_slot [OF assms(2) j(1) _ assms(3), of "(wm_tuples wm ! j)\<lparr>wt_mask := m, occupied := True\<rparr>" h] j h
        empty [OF j(1) _ h] released assms(4) by simp
  next
    case full
    then have "\<forall>i<MAX_TUPLES. occupied (wm_tuples wm ! i)" unfolding find_slot_None by blast
    then show ?thesis using full assms(2) by simp
  qed
  then show "wm_inv api wm'" "wm_rules api wm' = wm_rules api wm" "same_config wm wm'"
    "r = Inr i \<Longrightarrow> slot_of wm' (table_key wm m) = Some i"
    "r = Inl e \<Longrightarrow> e = ENOSPC \<and> ((\<forall>i<MAX_TUPLES. occupied (wm_tuples wm ! i)) \<or> hash_create api (total_key_size wm) (table_entries wm) = None)"
    by auto
qed

text \<open>The rule an argument names.\<close>

definition rule_key :: "'h wildcard_match \<Rightarrow> field_data list \<Rightarrow> field_data list \<Rightarrow> (hkey \<times> hkey) option" where
  "rule_key wm vs ms =
     (case ExtractKeyMask wm vs ms of
        Some (Inr (key, m)) \<Rightarrow> Some (table_key wm m, table_key wm key)
      | _ \<Rightarrow> None)"

definition rule_data :: "'h wildcard_match \<Rightarrow> wm_rule \<Rightarrow> wm_data option" where
  "rule_data wm arg =
     (case ExtractValue wm (r_valuesv arg) of
        Some (Inr keyv) \<Rightarrow>
          Some \<lparr>wd_priority = sint (of_int (r_priority arg) :: u32), wd_ogate = ucast (r_gate arg), wd_keyv = keyv\<rparr>
      | _ \<Rightarrow> None)"

lemma rule_config:
  assumes "same_config wm wm'"
  shows "rule_key wm' = rule_key wm" "rule_data wm' = rule_data wm"
  using assms Extract_config [OF assms]
  by (auto simp: rule_key_def rule_data_def fun_eq_iff same_config_def split: option.splits sum.splits)

lemma insert_rule:
  assumes "hash_laws api" "wm_inv api wm" "slot_of wm m = Some i" "ht (wm_tuples wm ! i) = Some h"
    "hash_add api h k d = Some h'"
  shows "wm_inv api (set_slot i ((wm_tuples wm ! i)\<lparr>ht := Some h'\<rparr>) wm)"
    "wm_rules api (set_slot i ((wm_tuples wm ! i)\<lparr>ht := Some h'\<rparr>) wm) = (wm_rules api wm)((m, k) \<mapsto> d)"
proof -
  note i = slot_ofD [OF assms(3)]
  have ok: "tuple_ok api ((wm_tuples wm ! i)\<lparr>ht := Some h'\<rparr>)"
    using wm_invD(1) [OF assms(2) i(1)] i(2) by (simp add: tuple_ok_def split: option.splits)
  note set = set_slot_rules [OF assms(2) i(1) _ ok, of h' m]
  show "wm_inv api (set_slot i ((wm_tuples wm ! i)\<lparr>ht := Some h'\<rparr>) wm)" using set(1) i assms(3) by simp
  have "wm_rules api (set_slot i ((wm_tuples wm ! i)\<lparr>ht := Some h'\<rparr>) wm) =
      (\<lambda>(m', k). if m' = m then hash_lookup api h' k else wm_rules api wm (m', k))" using set(2) i assms(3) by simp
  then show "wm_rules api (set_slot i ((wm_tuples wm ! i)\<lparr>ht := Some h'\<rparr>) wm) = (wm_rules api wm)((m, k) \<mapsto> d)"
    using hash_lawsD(2) [OF assms(1,5)] assms(3,4) by (auto simp: wm_rules_def fun_eq_iff)
qed

lemma CommandAdd_post:
  assumes "hash_laws api" "wm_inv api wm" "CommandAdd api wm arg = Some (wm', r)"
  shows "wm_inv api wm' \<and> same_config wm wm' \<and> default_gate wm' = default_gate wm \<and>
    (case r of
       Inl e \<Rightarrow> wm_rules api wm' = wm_rules api wm
     | Inr _ \<Rightarrow> \<exists>mk d. rule_key wm (r_values arg) (r_masks arg) = Some mk \<and> rule_data wm arg = Some d \<and>
         wm_rules api wm' = (wm_rules api wm)(mk \<mapsto> d))"
proof -
  obtain km where km: "ExtractKeyMask wm (r_values arg) (r_masks arg) = Some km"
    using assms(3) by (auto simp: CommandAdd_def Let_def Option.bind_eq_Some_conv)
  show ?thesis
  proof (cases "\<exists>key m keyv. km = Inr (key, m) \<and> is_valid_gate (ucast (r_gate arg)) \<and>
      ExtractValue wm (r_valuesv arg) = Some (Inr keyv)")
    case False
    then have "wm' = wm \<and> (\<exists>e. r = Inl e)" using assms(3) km
      by (cases km; cases "ExtractValue wm (r_valuesv arg)")
        (auto simp: CommandAdd_def Let_def split: if_splits sum.splits prod.splits)
    then show ?thesis using assms(2) by auto
  next
    case True
    then obtain key m keyv where ex: "km = Inr (key, m)" "is_valid_gate (ucast (r_gate arg))"
      "ExtractValue wm (r_valuesv arg) = Some (Inr keyv)" by blast
    obtain wm1 idx where st: "(case FindTuple wm m of Some i \<Rightarrow> (wm, Inr i) | None \<Rightarrow> AddTuple api wm m) = (wm1, idx)"
      by fastforce
    have one: "wm_inv api wm1" "wm_rules api wm1 = wm_rules api wm" "same_config wm wm1"
      "idx = Inr i \<Longrightarrow> slot_of wm1 (table_key wm m) = Some i" for i
      using st assms(2) AddTuple_post [OF assms(1,2) _ ExtractKeyMask_length(2) [OF km [unfolded ex(1)]], of wm1 idx]
      by (auto simp: FindTuple_slot_of split: option.splits)
    have gate: "default_gate wm1 = default_gate wm"
      using st by (auto simp: AddTuple_def Let_def split: option.splits)
    define d where "d = \<lparr>wd_priority = sint (of_int (r_priority arg) :: u32), wd_ogate = ucast (r_gate arg) :: u16,
      wd_keyv = keyv\<rparr>"
    have names: "rule_key wm (r_values arg) (r_masks arg) = Some (table_key wm m, table_key wm key)" "rule_data wm arg = Some d"
      using km ex by (simp_all add: rule_key_def rule_data_def d_def)
    have run: "CommandAdd api wm arg =
      (case idx of Inl e \<Rightarrow> Some (wm1, Inl e)
       | Inr i \<Rightarrow> do { h \<leftarrow> ht (wm_tuples wm1 ! i);
           (case hash_add api h (table_key wm1 key) d of
              None \<Rightarrow> Some (wm1, Inl EINVAL)
            | Some h' \<Rightarrow> Some (set_slot i ((wm_tuples wm1 ! i)\<lparr>ht := Some h'\<rparr>) wm1, Inr ())) })"
      unfolding d_def using km ex st by (simp add: CommandAdd_def Let_def)
    show ?thesis
    proof (cases idx)
      case (Inl e)
      then show ?thesis using run assms(3) one(1-3) gate by simp
    next
      case (Inr i)
      obtain h where h: "ht (wm_tuples wm1 ! i) = Some h"
        using run assms(3) Inr by (cases "ht (wm_tuples wm1 ! i)") auto
      have key: "table_key wm1 key = table_key wm key" using one(3) by (simp add: same_config_def)
      show ?thesis
      proof (cases "hash_add api h (table_key wm key) d")
        case None
        then show ?thesis using run assms(3) Inr h key one(1-3) gate by simp
      next
        case (Some h')
        then have "wm' = set_slot i ((wm_tuples wm1 ! i)\<lparr>ht := Some h'\<rparr>) wm1" "r = Inr ()"
          using run assms(3) Inr h key by simp_all
        then show ?thesis
          using insert_rule [OF assms(1) one(1) one(4) [OF Inr] h Some] one(2,3) names gate by auto
      qed
    qed
  qed
qed

lemma CommandDelete_post:
  assumes "hash_laws api" "wm_inv api wm" "CommandDelete api wm vs ms = Some (wm', r)"
  shows "wm_inv api wm' \<and> same_config wm wm' \<and> default_gate wm' = default_gate wm \<and>
    (case r of
       Inl e \<Rightarrow> wm' = wm
     | Inr _ \<Rightarrow> \<exists>mk. rule_key wm vs ms = Some mk \<and> wm_rules api wm' = (wm_rules api wm)(mk := None))"
proof -
  obtain km where km: "ExtractKeyMask wm vs ms = Some km"
    using assms(3) by (auto simp: CommandDelete_def Option.bind_eq_Some_conv)
  show ?thesis
  proof (cases "\<exists>key m i. km = Inr (key, m) \<and> slot_of wm (table_key wm m) = Some i")
    case False
    then have "wm' = wm \<and> (\<exists>e. r = Inl e)" using assms(3) km
      by (cases km) (auto simp: CommandDelete_def FindTuple_slot_of split: option.splits prod.splits)
    then show ?thesis using assms(2) by auto
  next
    case True
    then obtain key m i where ex: "km = Inr (key, m)" "slot_of wm (table_key wm m) = Some i" by blast
    note i = slot_ofD [OF ex(2)]
    obtain h where h: "ht (wm_tuples wm ! i) = Some h" using wm_invD(1) [OF assms(2) i(1)] i(2)
      by (auto simp: tuple_ok_def split: option.splits)
    define h' where "h' = hash_del api h (table_key wm key)"
    define t where "t = (wm_tuples wm ! i)\<lparr>ht := Some h', occupied := hash_count api h' \<noteq> 0\<rparr>"
    have res: "wm' = set_slot i t wm" "r = Inr ()"
      using assms(3) km ex h i(2) by (auto simp: CommandDelete_def FindTuple_slot_of DelEntry_def h'_def t_def Let_def)
    have ok: "tuple_ok api t" using wm_invD(1) [OF assms(2) i(1)] hash_lawsD(4) [OF assms(1), of h']
      by (auto simp: tuple_ok_def t_def split: option.splits)
    have set: "wm_inv api wm'"
      "wm_rules api wm' = (\<lambda>(m', k). if m' = table_key wm m then hash_lookup api h' k else wm_rules api wm (m', k))"
      unfolding res(1) using set_slot_rules [OF assms(2) i(1) _ ok, of h' "table_key wm m"] ex(2) i(3) by (auto simp: t_def)
    have "wm_rules api wm' = (wm_rules api wm)((table_key wm m, table_key wm key) := None)"
      unfolding set(2) using hash_lawsD(3) [OF assms(1), of h "table_key wm key"] ex(2) h
      by (auto simp: h'_def wm_rules_def fun_eq_iff)
    then show ?thesis using set(1) res km ex by (simp add: rule_key_def)
  qed
qed

lemma Clear_post:
  assumes "wm_inv api wm"
  shows "\<exists>wm'. WildcardMatch_Clear wm = Some wm' \<and> wm_inv api wm' \<and> same_config wm wm' \<and>
    default_gate wm' = default_gate wm \<and> wm_rules api wm' = Map.empty \<and> (\<forall>t\<in>set (wm_tuples wm'). ht t = None)"
proof -
  let ?f = "\<lambda>t. t\<lparr>ht := None, occupied := False\<rparr> :: 'a wm_tuple"
  have "clear_tuple t = Some (?f t)" if "t \<in> set (wm_tuples wm)" for t
    using that assms by (auto simp: wm_inv_def tuple_ok_def clear_tuple_def split: option.splits)
  then have "map clear_tuple (wm_tuples wm) = map Some (map ?f (wm_tuples wm))" by simp
  then have "those (map clear_tuple (wm_tuples wm)) = Some (map ?f (wm_tuples wm))" unfolding those_eq_Some .
  then have run: "WildcardMatch_Clear wm = Some (wm\<lparr>wm_tuples := map ?f (wm_tuples wm)\<rparr>)"
    by (simp add: WildcardMatch_Clear_def)
  define wm' where "wm' = wm\<lparr>wm_tuples := map ?f (wm_tuples wm)\<rparr>"
  have len: "length (wm_tuples wm) = MAX_TUPLES" using assms by (simp add: wm_inv_def)
  then have "slot_of wm' m = None" for m by (simp add: slot_of_None wm'_def)
  then have "wm_rules api wm' = Map.empty" by (auto simp: wm_rules_def)
  moreover have "wm_inv api wm'" using assms by (auto simp: wm_inv_def wm'_def tuple_ok_def)
  ultimately show ?thesis using run by (intro exI [of _ wm']) (auto simp: wm'_def same_config_def)
qed

end
