(* ===== verification/Wildcard_Properties.thy ===== *)
theory Wildcard_Properties
  imports Wildcard_Correct
begin

text \<open>
  The properties of \<^verbatim>\<open>WildcardMatch\<close>: its commands implement a table of rules, a packet leaves by
  the gate of a matching rule of highest priority, and a rule matches a packet when every field of
  the packet has the rule's value under the rule's mask.
\<close>

section \<open>Commands return\<close>

definition config_ok :: "'h wildcard_match \<Rightarrow> bool" where
  "config_ok wm \<longleftrightarrow> (\<forall>f\<in>set (wm_fields wm) \<union> set (wm_values wm). wf_pos f + wf_size f \<le> HASH_KEY_SIZE)"

lemma key_mask_loop_returns:
  "\<forall>f\<in>set fs. wf_pos f + wf_size f \<le> HASH_KEY_SIZE \<Longrightarrow> \<exists>r. key_mask_loop fs vs ms km = Some r"
  by (induction fs vs ms km rule: key_mask_loop.induct) (auto split: sum.splits)

lemma value_loop_returns:
  "\<forall>f\<in>set fs. wf_pos f + wf_size f \<le> HASH_KEY_SIZE \<Longrightarrow> \<exists>r. value_loop fs vs keyv = Some r"
  by (induction fs vs keyv rule: value_loop.induct) (auto split: sum.splits)

lemma Extract_returns:
  assumes "config_ok wm"
  shows "\<exists>r. ExtractKeyMask wm vs ms = Some r" "\<exists>r. ExtractValue wm vs = Some r"
  using assms key_mask_loop_returns [of "wm_fields wm"] value_loop_returns [of "wm_values wm"]
  by (auto simp: config_ok_def ExtractKeyMask_def ExtractValue_def)

lemma slot_of_table:
  assumes "wm_inv api wm" "slot_of wm m = Some i"
  shows "\<exists>h. ht (wm_tuples wm ! i) = Some h"
  using wm_invD(1) [OF assms(1) slot_ofD(1) [OF assms(2)]] slot_ofD(2) [OF assms(2)]
  by (auto simp: tuple_ok_def split: option.splits)

lemma CommandAdd_returns:
  assumes "hash_laws api" "wm_inv api wm" "config_ok wm"
  shows "\<exists>wm' r. CommandAdd api wm arg = Some (wm', r)"
proof -
  obtain km where km: "ExtractKeyMask wm (r_values arg) (r_masks arg) = Some km" using Extract_returns(1) [OF assms(3)] by blast
  obtain kv where kv: "ExtractValue wm (r_valuesv arg) = Some kv" using Extract_returns(2) [OF assms(3)] by blast
  show ?thesis
  proof (cases "\<exists>key m keyv. km = Inr (key, m) \<and> is_valid_gate (ucast (r_gate arg)) \<and> kv = Inr keyv")
    case False
    then show ?thesis using km kv by (cases km; cases kv) (auto simp: CommandAdd_def Let_def)
  next
    case True
    then obtain key m keyv where ex: "km = Inr (key, m)" "is_valid_gate (ucast (r_gate arg))" "kv = Inr keyv" by blast
    obtain wm1 idx where st: "(case FindTuple wm m of Some i \<Rightarrow> (wm, Inr i) | None \<Rightarrow> AddTuple api wm m) = (wm1, idx)"
      by fastforce
    have "\<exists>h. ht (wm_tuples wm1 ! i) = Some h" if "idx = Inr i" for i
    proof (cases "slot_of wm (table_key wm m)")
      case None
      then have "AddTuple api wm m = (wm1, Inr i)" using st that by (simp add: FindTuple_slot_of)
      then show ?thesis using AddTuple_post(1,4) [OF assms(1,2) None ExtractKeyMask_length(2) [OF km [unfolded ex(1)]]]
        slot_of_table by blast
    next
      case (Some j)
      then show ?thesis using st that slot_of_table [OF assms(2)] by (auto simp: FindTuple_slot_of)
    qed
    then show ?thesis using km kv ex st by (cases idx) (auto simp: CommandAdd_def Let_def split: option.splits)
  qed
qed

lemma CommandDelete_returns:
  assumes "wm_inv api wm" "config_ok wm"
  shows "\<exists>wm' r. CommandDelete api wm vs ms = Some (wm', r)"
proof -
  obtain km where km: "ExtractKeyMask wm vs ms = Some km" using Extract_returns(1) [OF assms(2)] by blast
  then show ?thesis
    using slot_of_table [OF assms(1)]
    by (cases km) (fastforce simp: CommandDelete_def FindTuple_slot_of DelEntry_def Let_def split: option.splits)+
qed

section \<open>Runs of commands\<close>

datatype wm_command =
    WmAdd wm_rule
  | WmDelete "field_data list" "field_data list"
  | WmClear
  | WmSetDefaultGate u64

fun wm_step :: "('h, wm_data) hash_api \<Rightarrow> 'h wildcard_match \<Rightarrow> wm_command \<Rightarrow> ('h wildcard_match \<times> unit response) option" where
  "wm_step api wm (WmAdd arg) = CommandAdd api wm arg"
| "wm_step api wm (WmDelete vs ms) = CommandDelete api wm vs ms"
| "wm_step api wm WmClear = map_option (\<lambda>wm. (wm, Inr ())) (WildcardMatch_Clear wm)"
| "wm_step api wm (WmSetDefaultGate g) = Some (CommandSetDefaultGate g wm, Inr ())"

fun wm_run :: "('h, wm_data) hash_api \<Rightarrow> 'h wildcard_match \<Rightarrow> wm_command list \<Rightarrow> ('h wildcard_match \<times> unit response list) option" where
  "wm_run api wm [] = Some (wm, [])"
| "wm_run api wm (c # cs) = do {
     (wm1, a) \<leftarrow> wm_step api wm c;
     (wm2, as) \<leftarrow> wm_run api wm1 cs;
     Some (wm2, a # as)
   }"

text \<open>The contract: a table of rules, changed by the commands that were answered with success.\<close>

fun spec_command :: "'h wildcard_match \<Rightarrow> wm_command \<Rightarrow> (hkey \<times> hkey \<rightharpoonup> wm_data) \<Rightarrow> (hkey \<times> hkey \<rightharpoonup> wm_data)" where
  "spec_command wm (WmAdd arg) R = R(the (rule_key wm (r_values arg) (r_masks arg)) \<mapsto> the (rule_data wm arg))"
| "spec_command wm (WmDelete vs ms) R = R(the (rule_key wm vs ms) := None)"
| "spec_command wm WmClear R = Map.empty"
| "spec_command wm (WmSetDefaultGate g) R = R"

fun spec_rules ::
    "'h wildcard_match \<Rightarrow> wm_command list \<Rightarrow> unit response list \<Rightarrow> (hkey \<times> hkey \<rightharpoonup> wm_data) \<Rightarrow> (hkey \<times> hkey \<rightharpoonup> wm_data)" where
  "spec_rules wm (c # cs) (Inr _ # as) R = spec_rules wm cs as (spec_command wm c R)"
| "spec_rules wm (c # cs) (Inl _ # as) R = spec_rules wm cs as R"
| "spec_rules wm _ _ R = R"

lemma spec_rules_config:
  assumes "same_config wm wm'"
  shows "spec_rules wm' cs as R = spec_rules wm cs as R"
proof -
  have "spec_command wm' c R = spec_command wm c R" for c R
    using rule_config [OF assms] by (cases c) simp_all
  then show ?thesis
  proof (induction cs arbitrary: as R)
    case (Cons c cs)
    then show ?case
    proof (cases as)
      case (Cons a bs)
      then show ?thesis using Cons.IH Cons.prems by (cases a) simp_all
    qed simp
  qed simp
qed

lemma config_ok_config: "same_config wm wm' \<Longrightarrow> config_ok wm' = config_ok wm"
  by (simp add: config_ok_def same_config_def)

lemma wm_step_post:
  assumes "hash_laws api" "wm_inv api wm" "config_ok wm"
  shows "\<exists>wm' a. wm_step api wm c = Some (wm', a) \<and> wm_inv api wm' \<and> same_config wm wm' \<and>
    wm_rules api wm' = spec_rules wm [c] [a] (wm_rules api wm)"
proof (cases c)
  case (WmAdd arg)
  obtain wm' r where run: "CommandAdd api wm arg = Some (wm', r)" using CommandAdd_returns [OF assms] by blast
  show ?thesis using CommandAdd_post [OF assms(1,2) run] run WmAdd by (cases r) auto
next
  case (WmDelete vs ms)
  obtain wm' r where run: "CommandDelete api wm vs ms = Some (wm', r)" using CommandDelete_returns [OF assms(2,3)] by blast
  show ?thesis using CommandDelete_post [OF assms(1,2) run] run WmDelete by (cases r) auto
next
  case WmClear
  then show ?thesis using Clear_post [OF assms(2)] by auto
next
  case (WmSetDefaultGate g)
  have "wm_rules api (CommandSetDefaultGate g wm) = wm_rules api wm" "wm_inv api (CommandSetDefaultGate g wm) = wm_inv api wm"
    by (auto simp: CommandSetDefaultGate_def wm_rules_def slot_of_def find_slot_def wm_inv_def same_mask_def fun_eq_iff split: option.splits)
  then show ?thesis using assms(2) WmSetDefaultGate by (simp add: CommandSetDefaultGate_def same_config_def)
qed

lemma wm_run_post:
  assumes "hash_laws api" "wm_inv api wm" "config_ok wm"
  shows "\<exists>wm' as. wm_run api wm cs = Some (wm', as) \<and> wm_inv api wm' \<and> same_config wm wm' \<and>
    length as = length cs \<and> wm_rules api wm' = spec_rules wm cs as (wm_rules api wm)"
  using assms(2,3)
proof (induction cs arbitrary: wm)
  case (Cons c cs)
  obtain wm1 a where one: "wm_step api wm c = Some (wm1, a)" "wm_inv api wm1" "same_config wm wm1"
    "wm_rules api wm1 = spec_rules wm [c] [a] (wm_rules api wm)"
    using wm_step_post [OF assms(1) Cons.prems] by blast
  obtain wm2 as where two: "wm_run api wm1 cs = Some (wm2, as)" "wm_inv api wm2" "same_config wm1 wm2"
    "length as = length cs" "wm_rules api wm2 = spec_rules wm1 cs as (wm_rules api wm1)"
    using Cons.IH [OF one(2)] config_ok_config [OF one(3)] Cons.prems(2) by blast
  have "spec_rules wm (c # cs) (a # as) (wm_rules api wm) = spec_rules wm cs as (spec_rules wm [c] [a] (wm_rules api wm))"
    by (cases a) simp_all
  then show ?case
    using one two spec_rules_config [OF one(3)] same_config_trans [OF one(3) two(3)] by auto
qed simp

lemma WildcardMatch_Init_inv:
  assumes "WildcardMatch_Init fds vds entries st = Inr (wm, st')"
  shows "wm_inv api wm" "wm_rules api wm = Map.empty"
proof -
  have ts: "wm_tuples wm = replicate MAX_TUPLES new_tuple"
    using assms by (auto simp: WildcardMatch_Init_def bind_response_Inr)
  then show "wm_inv api wm" by (auto simp: wm_inv_def tuple_ok_def new_tuple_def)
  have "slot_of wm m = None" for m by (simp add: slot_of_None ts new_tuple_def)
  then show "wm_rules api wm = Map.empty" by (auto simp: wm_rules_def)
qed

text \<open>
  C4. Whatever commands a freshly initialised \<^verbatim>\<open>WildcardMatch\<close> gets, it answers all of them,
  keeps its invariant (no two slots in use have the same mask, released slots are empty), and holds
  exactly the rules that the commands answered with success leave in a table from mask and key to
  result: an added rule replaces the one with the same mask and key and no other.
\<close>

theorem WildcardMatch_refines:
  assumes "hash_laws api" "WildcardMatch_Init fds vds entries st = Inr (wm, st')" "config_ok wm"
  shows "\<exists>wm' as. wm_run api wm cs = Some (wm', as) \<and> wm_inv api wm' \<and> length as = length cs \<and>
    wm_rules api wm' = spec_rules wm cs as Map.empty"
  using wm_run_post [OF assms(1) WildcardMatch_Init_inv(1) [OF assms(2)] assms(3)] WildcardMatch_Init_inv(2) [OF assms(2)] by metis

definition sample_fields :: "field_arg list" where
  "sample_fields = [(AtOffset 26, 4), (AtOffset 30, 2)]"

definition sample_matcher :: "(hkey \<times> wm_data) list wildcard_match" where
  "sample_matcher = \<lparr>wm_fields = [\<lparr>wf_attr = None, wf_offset = 26, wf_pos = 0, wf_size = 4\<rparr>,
       \<lparr>wf_attr = None, wf_offset = 30, wf_pos = 4, wf_size = 2\<rparr>], wm_values = [],
     wm_tuples = replicate MAX_TUPLES new_tuple, default_gate = DROP_GATE, total_key_size = 8,
     total_value_size = 0, wm_entries = 0\<rparr>"

lemma sample_matcher_Init: "WildcardMatch_Init sample_fields [] 0 (Map.empty, []) = Inr (sample_matcher, Map.empty, [])"
  by (simp add: WildcardMatch_Init_def sample_fields_def sample_matcher_def WildcardMatch_AddFieldOne_def MAX_FIELD_SIZE_def
    align_ceil_def align_floor_def)

lemma sample_matcher_ok: "config_ok sample_matcher"
  by (simp add: config_ok_def sample_matcher_def HASH_KEY_SIZE_def)

theorem WildcardMatch_refines_witness:
  "\<exists>wm' as. wm_run (list_hash 4) sample_matcher
      [WmAdd \<lparr>r_gate = 3, r_priority = 7, r_values = [ValueInt 1, ValueInt 2], r_masks = [ValueInt 255, ValueInt 255],
        r_valuesv = []\<rparr>, WmClear] = Some (wm', as) \<and> wm_inv (list_hash 4) wm' \<and> length as = 2"
  using WildcardMatch_refines [OF list_hash_laws sample_matcher_Init sample_matcher_ok,
    of 4 "[WmAdd \<lparr>r_gate = 3, r_priority = 7, r_values = [ValueInt 1, ValueInt 2], r_masks = [ValueInt 255, ValueInt 255],
        r_valuesv = []\<rparr>, WmClear]"] by auto

end
