(* ===== verification/Wildcard_Lookup.thy ===== *)
theory Wildcard_Lookup
  imports Wildcard_Properties
begin

text \<open>
  Lookup in a \<^verbatim>\<open>WildcardMatch\<close>: the gate and the values a packet gets are those of a matching
  rule of highest priority, for the lookup of a batch and for the lookup of one packet.
\<close>

section \<open>The best hit\<close>

definition hits :: "('h, wm_data) hash_api \<Rightarrow> nat \<Rightarrow> hkey \<Rightarrow> 'h wm_tuple list \<Rightarrow> wm_data option list" where
  "hits api n key ts = map (\<lambda>t. Option.bind (ht t) (\<lambda>h. hash_lookup api h (mask_key key (wt_mask t) n))) (filter occupied ts)"

definition best_match :: "(hkey \<times> hkey \<rightharpoonup> wm_data) \<Rightarrow> nat \<Rightarrow> hkey \<Rightarrow> wm_data option \<Rightarrow> bool" where
  "best_match R n key r \<longleftrightarrow>
     (case r of
        None \<Rightarrow> \<forall>m. R (m, mask_key key m n) = None
      | Some d \<Rightarrow> (\<exists>m. R (m, mask_key key m n) = Some d) \<and>
          (\<forall>m e. R (m, mask_key key m n) = Some e \<longrightarrow> wd_priority e \<le> wd_priority d))"

lemma bind_SomeE:
  assumes "Some d = Option.bind x f"
  obtains y where "x = Some y" "f y = Some d"
  using assms by (cases x) auto

lemma better_None [simp]: "better r None = r"
  by (simp add: better_def)

lemma foldl_better:
  "foldl better r hs = None \<longleftrightarrow> r = None \<and> (\<forall>h\<in>set hs. h = None)"
  "foldl better r hs = Some d \<Longrightarrow> Some d \<in> set (r # hs) \<and> (\<forall>e. Some e \<in> set (r # hs) \<longrightarrow> wd_priority e \<le> wd_priority d)"
proof (induction hs arbitrary: r)
  case (Cons h hs)
  {
    case 1
    then show ?case using Cons.IH(1) [of "better r h"] by (auto simp: better_def split: option.splits)
  next
    case 2
    then have "foldl better (better r h) hs = Some d" by simp
    from Cons.IH(2) [OF this] show ?case
      by (auto simp: better_def split: option.splits if_splits)
  }
qed auto

lemma mask_key_table_key: "mask_key key (take n m) n = mask_key key m n"
  by (simp add: mask_key_def)

lemma hits_rules:
  assumes "wm_inv api wm"
  shows "Some d \<in> set (hits api (total_key_size wm) key (wm_tuples wm)) \<longleftrightarrow>
    (\<exists>m. wm_rules api wm (m, mask_key key m (total_key_size wm)) = Some d)"
proof
  assume "Some d \<in> set (hits api (total_key_size wm) key (wm_tuples wm))"
  then obtain t h where t: "t \<in> set (wm_tuples wm)" "occupied t" "ht t = Some h"
    "hash_lookup api h (mask_key key (wt_mask t) (total_key_size wm)) = Some d"
    by (auto simp: hits_def elim!: bind_SomeE)
  obtain i where i: "i < MAX_TUPLES" "wm_tuples wm ! i = t" using t(1) assms by (auto simp: in_set_conv_nth wm_inv_def)
  have "slot_of wm (table_key wm (wt_mask t)) = Some i" using slot_of_unique [OF assms i(1)] i(2) t(2) by simp
  then have "wm_rules api wm (table_key wm (wt_mask t), mask_key key (table_key wm (wt_mask t)) (total_key_size wm)) = Some d"
    using i(2) t by (simp add: wm_rules_def mask_key_table_key)
  then show "\<exists>m. wm_rules api wm (m, mask_key key m (total_key_size wm)) = Some d" by blast
next
  assume "\<exists>m. wm_rules api wm (m, mask_key key m (total_key_size wm)) = Some d"
  then obtain m i h where m: "slot_of wm m = Some i" "ht (wm_tuples wm ! i) = Some h"
    "hash_lookup api h (mask_key key m (total_key_size wm)) = Some d" by (auto simp: wm_rules_def split: option.splits)
  note i = slot_ofD [OF m(1)]
  have "mask_key key m (total_key_size wm) = mask_key key (wt_mask (wm_tuples wm ! i)) (total_key_size wm)"
    using mask_key_table_key i(3) by metis
  then have "Option.bind (ht (wm_tuples wm ! i)) (\<lambda>h. hash_lookup api h (mask_key key (wt_mask (wm_tuples wm ! i)) (total_key_size wm))) = Some d"
    using m by simp
  moreover have "wm_tuples wm ! i \<in> set (filter occupied (wm_tuples wm))"
    using i assms by (simp add: wm_inv_def)
  ultimately show "Some d \<in> set (hits api (total_key_size wm) key (wm_tuples wm))"
    by (auto simp: hits_def intro: rev_image_eqI)
qed

lemma best_hit:
  assumes "wm_inv api wm"
  shows "best_match (wm_rules api wm) (total_key_size wm) key
    (foldl better None (hits api (total_key_size wm) key (wm_tuples wm)))"
proof (cases "foldl better None (hits api (total_key_size wm) key (wm_tuples wm))")
  case None
  then have "Some d \<notin> set (hits api (total_key_size wm) key (wm_tuples wm))" for d
    using foldl_better(1) [of None "hits api (total_key_size wm) key (wm_tuples wm)"] by auto
  then have "wm_rules api wm (m, mask_key key m (total_key_size wm)) = None" for m
    unfolding hits_rules [OF assms] by (cases "wm_rules api wm (m, mask_key key m (total_key_size wm))") auto
  then show ?thesis using None by (simp add: best_match_def)
next
  case (Some d)
  then show ?thesis using foldl_better(2) [OF Some] hits_rules [OF assms] by (auto simp: best_match_def)
qed

section \<open>Lookup of a batch\<close>

lemma bulk_results_eq:
  assumes "\<forall>t\<in>set ts. occupied t \<longrightarrow> ht t \<noteq> None" "length rs = length keys"
  shows "bulk_results api n keys ts rs = Some (map2 (\<lambda>key r. foldl better r (hits api n key ts)) keys rs)"
  using assms
proof (induction ts arbitrary: rs)
  case Nil
  then show ?case by (auto simp: hits_def intro!: nth_equalityI)
next
  case (Cons t ts)
  show ?case
  proof (cases "occupied t")
    case False
    then show ?thesis using Cons by (simp add: hits_def)
  next
    case True
    then obtain h where h: "ht t = Some h" using Cons.prems(1) by auto
    let ?look = "\<lambda>key. hash_lookup api h (mask_key key (wt_mask t) n)"
    have skip: "map2 better rs (map ?look keys) = rs" if "\<forall>e\<in>set (map ?look keys). e = None"
      using that Cons.prems(2) by (auto intro!: nth_equalityI)
    have "bulk_results api n keys (t # ts) rs = bulk_results api n keys ts (map2 better rs (map ?look keys))"
      using True h skip by (simp add: Let_def)
    also have "\<dots> = Some (map2 (\<lambda>key r. foldl better r (hits api n key ts)) keys (map2 better rs (map ?look keys)))"
      using Cons.prems by (intro Cons.IH) auto
    also have "\<dots> = Some (map2 (\<lambda>key r. foldl better r (hits api n key (t # ts))) keys rs)"
      using Cons.prems(2) True h by (auto simp: hits_def intro!: nth_equalityI)
    finally show ?thesis .
  qed
qed

definition lookup_one ::
    "('h, wm_data) hash_api \<Rightarrow> (nat \<Rightarrow> int) \<Rightarrow> 'h wildcard_match \<Rightarrow> u16 \<Rightarrow> hkey \<times> packet \<Rightarrow> (packet \<times> u16) option" where
  "lookup_one api attr_offset wm def_gate = (\<lambda>(key, p).
     (case foldl better None (hits api (total_key_size wm) key (wm_tuples wm)) of
        None \<Rightarrow> Some (p, def_gate)
      | Some r \<Rightarrow> do {
          p \<leftarrow> set_values attr_offset (wd_keyv r) (wm_values wm) p;
          Some (p, wd_ogate r)
        }))"

lemma inv_tables: "wm_inv api wm \<Longrightarrow> \<forall>t\<in>set (wm_tuples wm). occupied t \<longrightarrow> ht t \<noteq> None"
  by (auto simp: wm_inv_def tuple_ok_def split: option.splits)

lemma LookupBulkEntry_pointwise:
  assumes "wm_inv api wm"
  shows "LookupBulkEntry api attr_offset wm def_gate batch = those (map (lookup_one api attr_offset wm def_gate) batch)"
proof -
  have "bulk_results api (total_key_size wm) (map fst batch) (wm_tuples wm) (replicate (length batch) None) =
      Some (map (\<lambda>b. foldl better None (hits api (total_key_size wm) (fst b) (wm_tuples wm))) batch)"
    using bulk_results_eq [OF inv_tables [OF assms], of "replicate (length batch) None" "map fst batch"]
    by (auto simp: zip_replicate2 intro: nth_equalityI)
  then show ?thesis
    by (auto simp: LookupBulkEntry_def lookup_one_def intro!: arg_cong [of _ _ those] nth_equalityI simp: case_prod_unfold split: option.splits)
qed

lemma those_append:
  "those (xs @ ys) = do { a \<leftarrow> those xs; b \<leftarrow> those ys; Some (a @ b) }"
proof (induction xs)
  case (Cons x xs)
  then show ?case by (cases x; cases "those xs"; cases "those ys") auto
qed (cases "those ys"; simp)

lemma bulk_chunks_pointwise:
  "bulk_chunks (\<lambda>b. those (map f b)) batch = those (map f batch)"
proof (induction "length batch" arbitrary: batch rule: less_induct)
  case less
  show ?case
  proof (cases "batch = []")
    case False
    then have "bulk_chunks (\<lambda>b. those (map f b)) (drop 64 batch) = those (map f (drop 64 batch))"
      using less by simp
    then show ?thesis
      using False those_append [of "map f (take 64 batch)" "map f (drop 64 batch)"]
      by (simp add: bulk_chunks.simps [of _ batch] flip: map_append)
  qed (simp add: bulk_chunks.simps)
qed

section \<open>Layout of the keys\<close>

fun layout :: "nat \<Rightarrow> wm_field list \<Rightarrow> bool" where
  "layout pos [] = True"
| "layout pos (f # fs) = (wf_pos f = pos \<and> 1 \<le> wf_size f \<and> wf_size f \<le> 8 \<and> wf_offset f \<le> 1024 \<and> layout (pos + wf_size f) fs)"

abbreviation fields_size :: "wm_field list \<Rightarrow> nat" where
  "fields_size fs \<equiv> sum_list (map wf_size fs)"

text \<open>What an initialised module with keys of at most 56 bytes and values of at most 64 satisfies.\<close>

definition wm_ready :: "'h wildcard_match \<Rightarrow> bool" where
  "wm_ready wm \<longleftrightarrow> layout 0 (wm_fields wm) \<and> layout 0 (wm_values wm) \<and> wm_fields wm \<noteq> [] \<and>
     fields_size (wm_fields wm) \<le> total_key_size wm \<and> total_key_size wm \<le> 56 \<and> fields_size (wm_values wm) \<le> HASH_KEY_SIZE"

lemma add_fields_layout:
  assumes "add_fields mode fds pos st = Inr (fs, n, st')"
  shows "layout pos fs \<and> n = pos + fields_size fs \<and> length fs = length fds"
  using assms
proof (induction fds arbitrary: pos st fs n st')
  case (Cons fd fds)
  then obtain f st1 gs st2 where st: "WildcardMatch_AddFieldOne fd pos mode st = Inr (f, st1)"
    "add_fields mode fds (pos + wf_size f) st1 = Inr (gs, n, st2)" "fs = f # gs"
    by (auto simp: bind_response_Inr)
  have "wf_pos f = pos" "1 \<le> wf_size f" "wf_size f \<le> 8" "wf_offset f \<le> 1024"
    using st(1) by (auto simp: WildcardMatch_AddFieldOne_def Let_def MAX_FIELD_SIZE_def bind_response_Inr
      split: if_splits field_position.splits)
  then show ?case using Cons.IH [OF st(2)] st(3) by simp
qed simp

lemma align_ceil_8:
  assumes "n \<le> 56"
  shows "n \<le> unat (align_ceil (of_nat n) 8)" "unat (align_ceil (of_nat n) 8) \<le> 56"
proof -
  define v :: u64 where "v = of_nat (n + 7)"
  have v: "unat v = n + 7" unfolding v_def unat_of_nat using assms by (simp add: take_bit_nat_eq_self_iff)
  have m: "unat (v mod 8) = (n + 7) mod 8" by (simp add: unat_mod_distrib v)
  then have "v mod 8 \<le> v" using v by (simp add: word_le_nat_alt)
  then have "unat (v - v mod 8) = n + 7 - (n + 7) mod 8" using v m by (simp add: unat_sub)
  moreover have "align_ceil (of_nat n) 8 = v - v mod 8" by (simp add: align_ceil_def align_floor_def v_def add.commute)
  moreover have "n + 7 - (n + 7) mod 8 = (n + 7) div 8 * 8" by (simp add: minus_mod_eq_div_mult)
  ultimately show "n \<le> unat (align_ceil (of_nat n) 8)" "unat (align_ceil (of_nat n) 8) \<le> 56" using assms by auto
qed

lemma Init_ready:
  assumes "WildcardMatch_Init fds vds entries st = Inr (wm, st')" "fds \<noteq> []"
    "fields_size (wm_fields wm) \<le> 56" "fields_size (wm_values wm) \<le> HASH_KEY_SIZE"
  shows "wm_ready wm"
proof -
  obtain st1 n k st2 where init: "add_fields kRead fds 0 st = Inr (wm_fields wm, n, st1)"
    "add_fields kWrite vds 0 st1 = Inr (wm_values wm, k, st2)" "total_key_size wm = unat (align_ceil (of_nat n) 8)"
    using assms(1) by (auto simp: WildcardMatch_Init_def bind_response_Inr)
  note lay = add_fields_layout [OF init(1)] add_fields_layout [OF init(2)]
  have n: "n \<le> 56" using lay(1) assms(3) by simp
  then have "n \<le> total_key_size wm" "total_key_size wm \<le> 56" using init(3) align_ceil_8 [OF n] by simp_all
  then show ?thesis using lay assms by (auto simp: wm_ready_def)
qed

section \<open>Keys of packets and of rules\<close>

definition packet_field :: "(nat \<Rightarrow> int) \<Rightarrow> packet \<Rightarrow> wm_field \<Rightarrow> u8 list" where
  "packet_field attr_offset p f = (case field_bytes attr_offset f p of None \<Rightarrow> [] | Some bs \<Rightarrow> take (wf_size f) bs)"

definition rule_field :: "wm_field \<Rightarrow> field_data \<Rightarrow> u8 list" where
  "rule_field f d = (case field_word d (wf_size f) True of Inl e \<Rightarrow> [] | Inr v \<Rightarrow> take (wf_size f) v)"

lemma length_field_bytes: "field_bytes attr_offset f p = Some bs \<Longrightarrow> length bs = 8"
  by (auto simp: field_bytes_def load_bytes_def split: option.splits if_splits)

lemma take_put_field:
  assumes "pos + length bs \<le> length key" "n \<le> length bs"
  shows "take (pos + n) (put_field pos bs key) = take pos key @ take n bs"
  using assms by (simp add: put_field_def)

lemma fill_key_content:
  assumes "fill_key attr_offset fs p key = Some K" "layout pos fs" "pos \<le> length key"
  shows "length K = length key \<and> pos + fields_size fs \<le> length key \<and>
    take (pos + fields_size fs) K = take pos key @ concat (map (packet_field attr_offset p) fs) \<and>
    (\<forall>f\<in>set fs. length (packet_field attr_offset p f) = wf_size f)"
  using assms
proof (induction fs arbitrary: key pos)
  case (Cons f fs)
  then obtain bs where bs: "field_bytes attr_offset f p = Some bs" "pos + 8 \<le> length key" "wf_pos f = pos" "wf_size f \<le> 8"
    "fill_key attr_offset fs p (put_field pos bs key) = Some K" "layout (pos + wf_size f) fs"
    by (auto simp: Option.bind_eq_Some_conv split: if_splits)
  note len = length_field_bytes [OF bs(1)]
  have put: "length (put_field pos bs key) = length key"
    "take (pos + wf_size f) (put_field pos bs key) = take pos key @ take (wf_size f) bs"
    using bs(2,4) len take_put_field [of pos bs key "wf_size f"] by simp_all
  have field: "packet_field attr_offset p f = take (wf_size f) bs" using bs(1) by (simp add: packet_field_def)
  show ?case
    using Cons.IH [OF bs(5,6)] put bs(2,4) len field by (auto simp: add.assoc)
qed simp

lemma key_mask_loop_content:
  assumes "key_mask_loop fs vs ms (key, m) = Some (Inr (key', m'))" "layout pos fs" "length vs = length fs"
    "length ms = length fs" "pos + fields_size fs \<le> HASH_KEY_SIZE" "length key = HASH_KEY_SIZE" "length m = HASH_KEY_SIZE"
  shows "key' = take pos key @ concat (map2 rule_field fs vs) @ drop (pos + fields_size fs) key \<and>
    m' = take pos m @ concat (map2 rule_field fs ms) @ drop (pos + fields_size fs) m \<and>
    (\<forall>i<length fs. length (rule_field (fs ! i) (vs ! i)) = wf_size (fs ! i) \<and> length (rule_field (fs ! i) (ms ! i)) = wf_size (fs ! i))"
  using assms
proof (induction fs vs ms "(key, m)" arbitrary: key m pos rule: key_mask_loop.induct)
  case (1 f fs vd vs md ms key m)
  obtain v8 m8 where st: "field_word vd (wf_size f) True = Inr v8" "field_word md (wf_size f) True = Inr m8"
    "\<not> outside_mask v8 m8" "wf_pos f + wf_size f \<le> HASH_KEY_SIZE"
    "key_mask_loop fs vs ms (put_field (wf_pos f) (take (wf_size f) v8) key,
       put_field (wf_pos f) (take (wf_size f) m8) m) = Some (Inr (key', m'))"
    using 1(2) unfolding key_mask_loop_step by blast
  have f: "wf_pos f = pos" "wf_size f \<le> 8" "layout (pos + wf_size f) fs" using 1(3) by auto
  have len: "length v8 = 8" "length m8 = 8" using length_field_word st(1,2) f(2) by blast+
  have put: "length (put_field pos (take (wf_size f) x) k) = HASH_KEY_SIZE"
    "take (pos + wf_size f) (put_field pos (take (wf_size f) x) k) = take pos k @ take (wf_size f) x"
    "drop (pos + wf_size f + j) (put_field pos (take (wf_size f) x) k) = drop (pos + wf_size f + j) k"
    if "length x = 8" "length k = HASH_KEY_SIZE" for x :: "u8 list" and k j
    using that st(4) f by (auto simp: put_field_def min_def add.commute)
  have rf: "rule_field f vd = take (wf_size f) v8" "rule_field f md = take (wf_size f) m8"
    using st(1,2) by (simp_all add: rule_field_def)
  have nst: "\<not> wf_pos f + wf_size f > HASH_KEY_SIZE" using st(4) by simp
  note IH = 1(1) [OF st(1,2,3) nst st(5) f(3)]
  show ?case
    using IH 1(4-8) put [OF len(1) 1(7)] put [OF len(2) 1(8)] f rf len
    by (auto simp: add.assoc less_Suc_eq_0_disj)
qed auto

end
