(* ===== verification/Wildcard_Classify.thy ===== *)
theory Wildcard_Classify
  imports Wildcard_Lookup
begin

text \<open>
  Which packets a rule of a \<^verbatim>\<open>WildcardMatch\<close> matches, and where the module sends the packets of
  a batch.
\<close>

section \<open>Matching\<close>

lemma map2_concat:
  assumes "length xs = length ys" "\<forall>i<length xs. length (xs ! i) = length (ys ! i)"
  shows "map2 f (concat xs) (concat ys) = concat (map2 (map2 f) xs ys)"
  using assms
proof (induction xs ys rule: list_induct2)
  case (Cons x xs y ys)
  have "length x = length y" using Cons.prems by force
  moreover have "\<forall>i<length xs. length (xs ! i) = length (ys ! i)" using Cons.prems by force
  ultimately show ?case using Cons.IH by (simp add: zip_append)
qed simp

lemma concat_eq_nth:
  assumes "length xs = length ys" "\<forall>i<length xs. length (xs ! i) = length (ys ! i)"
  shows "concat xs = concat ys \<longleftrightarrow> (\<forall>i<length xs. xs ! i = ys ! i)"
  using assms
proof (induction xs ys rule: list_induct2)
  case (Cons x xs y ys)
  have "length x = length y" using Cons.prems by force
  moreover have "\<forall>i<length xs. length (xs ! i) = length (ys ! i)" using Cons.prems by force
  ultimately show ?case using Cons.IH by (auto simp: less_Suc_eq_0_disj)
qed simp

lemma map2_and_zero: "length xs \<ge> n \<Longrightarrow> map2 (AND) xs (replicate n 0) = replicate n (0 :: u8)"
  by (auto intro!: nth_equalityI)

lemma layout_size: "layout pos fs \<Longrightarrow> (\<forall>f\<in>set fs. pos \<le> wf_pos f \<and> wf_pos f + wf_size f \<le> pos + fields_size fs)"
  by (induction fs arbitrary: pos) fastforce+

lemma rule_key_content:
  assumes "wm_ready wm" "rule_key wm vs ms = Some (m, k)"
  shows "length vs = length (wm_fields wm)" "length ms = length (wm_fields wm)"
    "k = concat (map2 rule_field (wm_fields wm) vs) @ replicate (total_key_size wm - fields_size (wm_fields wm)) 0"
    "m = concat (map2 rule_field (wm_fields wm) ms) @ replicate (total_key_size wm - fields_size (wm_fields wm)) 0"
    "i < length (wm_fields wm) \<Longrightarrow> length (rule_field (wm_fields wm ! i) (vs ! i)) = wf_size (wm_fields wm ! i)"
    "i < length (wm_fields wm) \<Longrightarrow> length (rule_field (wm_fields wm ! i) (ms ! i)) = wf_size (wm_fields wm ! i)"
proof -
  obtain key mm where ex: "ExtractKeyMask wm vs ms = Some (Inr (key, mm))" "m = table_key wm mm" "k = table_key wm key"
    using assms(2) by (auto simp: rule_key_def split: option.splits sum.splits)
  then have len: "length vs = length (wm_fields wm)" "length ms = length (wm_fields wm)" and
    loop: "key_mask_loop (wm_fields wm) vs ms (replicate HASH_KEY_SIZE 0, replicate HASH_KEY_SIZE 0) = Some (Inr (key, mm))"
    by (auto simp: ExtractKeyMask_def split: if_splits)
  have ready: "layout 0 (wm_fields wm)" "fields_size (wm_fields wm) \<le> total_key_size wm" "total_key_size wm \<le> 56"
    using assms(1) by (auto simp: wm_ready_def)
  have content: "key = concat (map2 rule_field (wm_fields wm) vs) @ replicate (64 - fields_size (wm_fields wm)) 0"
    "mm = concat (map2 rule_field (wm_fields wm) ms) @ replicate (64 - fields_size (wm_fields wm)) 0"
    "\<forall>i<length (wm_fields wm). length (rule_field (wm_fields wm ! i) (vs ! i)) = wf_size (wm_fields wm ! i) \<and>
      length (rule_field (wm_fields wm ! i) (ms ! i)) = wf_size (wm_fields wm ! i)"
    using key_mask_loop_content [OF loop ready(1) len] ready by (simp_all add: HASH_KEY_SIZE_def)
  show "length vs = length (wm_fields wm)" "length ms = length (wm_fields wm)" by (fact len)+
  show "i < length (wm_fields wm) \<Longrightarrow> length (rule_field (wm_fields wm ! i) (vs ! i)) = wf_size (wm_fields wm ! i)"
    "i < length (wm_fields wm) \<Longrightarrow> length (rule_field (wm_fields wm ! i) (ms ! i)) = wf_size (wm_fields wm ! i)"
    using content(3) by auto
  have sizes: "length (concat (map2 rule_field (wm_fields wm) ds)) = fields_size (wm_fields wm)"
    if "length ds = length (wm_fields wm)" "\<forall>i<length (wm_fields wm). length (rule_field (wm_fields wm ! i) (ds ! i)) = wf_size (wm_fields wm ! i)" for ds
    using that by (auto simp: length_concat intro!: arg_cong [of _ _ sum_list] nth_equalityI)
  show "k = concat (map2 rule_field (wm_fields wm) vs) @ replicate (total_key_size wm - fields_size (wm_fields wm)) 0"
    "m = concat (map2 rule_field (wm_fields wm) ms) @ replicate (total_key_size wm - fields_size (wm_fields wm)) 0"
    using sizes [OF len(1)] sizes [OF len(2)] content ready by (simp_all add: ex(2,3) min_def)
qed

lemma make_key_content:
  assumes "wm_ready wm" "make_key attr_offset wm stack p = Some key" "length stack = HASH_KEY_SIZE"
  shows "length key = HASH_KEY_SIZE"
    "take (fields_size (wm_fields wm)) key = concat (map (packet_field attr_offset p) (wm_fields wm))"
    "\<forall>f\<in>set (wm_fields wm). length (packet_field attr_offset p f) = wf_size f"
proof -
  define k0 where "k0 = put_field ((total_key_size wm - 1) div 8 * 8) (replicate 8 0) stack"
  have n: "0 < total_key_size wm" "total_key_size wm \<le> 56" using assms(2,1) by (auto simp: make_key_def wm_ready_def split: if_splits)
  have "(total_key_size wm - 1) div 8 * 8 + 8 \<le> 64" using n by linarith
  then have k0: "length k0 = HASH_KEY_SIZE" using assms(3) by (simp add: k0_def HASH_KEY_SIZE_def)
  have fill: "fill_key attr_offset (wm_fields wm) p k0 = Some key" using assms(2) by (simp add: make_key_def k0_def split: if_splits)
  from fill_key_content [OF fill, of 0] assms(1) k0
  show "length key = HASH_KEY_SIZE"
    "take (fields_size (wm_fields wm)) key = concat (map (packet_field attr_offset p) (wm_fields wm))"
    "\<forall>f\<in>set (wm_fields wm). length (packet_field attr_offset p f) = wf_size f"
    by (auto simp: wm_ready_def)
qed

text \<open>
  C21. A rule of a \<^verbatim>\<open>WildcardMatch\<close> applies to a packet, that is, the masked key of the packet is the
  key of the rule, exactly when every field of the packet has the rule's value under the rule's mask.
  What the padding of the key and the bytes read beyond a field hold does not matter.
\<close>

theorem rule_matches_packet:
  assumes "wm_ready wm" "length stack = HASH_KEY_SIZE" "make_key attr_offset wm stack p = Some key"
    "rule_key wm vs ms = Some (m, k)"
  shows "mask_key key m (total_key_size wm) = k \<longleftrightarrow>
    (\<forall>i<length (wm_fields wm). map2 (AND) (packet_field attr_offset p (wm_fields wm ! i)) (rule_field (wm_fields wm ! i) (ms ! i)) =
      rule_field (wm_fields wm ! i) (vs ! i))"
proof -
  let ?fs = "wm_fields wm" and ?n = "total_key_size wm"
  let ?z = "replicate (?n - fields_size ?fs) (0 :: u8)"
  let ?F = "map (packet_field attr_offset p) ?fs" and ?V = "map2 rule_field ?fs vs" and ?M = "map2 rule_field ?fs ms"
  note mk = make_key_content [OF assms(1,3,2)] and rk = rule_key_content [OF assms(1,4)]
  have n: "fields_size ?fs \<le> ?n" "?n \<le> 56" using assms(1) by (auto simp: wm_ready_def)
  have lenF: "length (concat ?F) = fields_size ?fs" using arg_cong [OF mk(2), of length] mk(1) n by (simp add: HASH_KEY_SIZE_def)
  have lenM: "length (concat ?M) = fields_size ?fs"
    using rk(1,2,6) by (auto simp: length_concat intro!: arg_cong [of _ _ sum_list] nth_equalityI)
  have lenV: "length (concat ?V) = fields_size ?fs"
    using rk(1,2,5) by (auto simp: length_concat intro!: arg_cong [of _ _ sum_list] nth_equalityI)
  have key: "take ?n key = concat ?F @ take (?n - fields_size ?fs) (drop (fields_size ?fs) key)"
    using mk(2) n take_add [of "fields_size ?fs" "?n - fields_size ?fs" key] by simp
  have "length (take (?n - fields_size ?fs) (drop (fields_size ?fs) key)) = ?n - fields_size ?fs"
    using n mk(1) by (simp add: HASH_KEY_SIZE_def)
  then have "mask_key key m ?n = map2 (AND) (concat ?F) (concat ?M) @ ?z"
    unfolding mask_key_def key using lenF lenM n map2_and_zero [of "?n - fields_size ?fs"] by (simp add: rk(4) zip_append)
  also have "map2 (AND) (concat ?F) (concat ?M) = concat (map2 (map2 (AND)) ?F ?M)"
    using mk(3) rk(2,6) by (intro map2_concat) auto
  finally have "mask_key key m ?n = concat (map2 (map2 (AND)) ?F ?M) @ ?z" .
  then have "mask_key key m ?n = k \<longleftrightarrow> concat (map2 (map2 (AND)) ?F ?M) = concat ?V" by (simp add: rk(3))
  also have "\<dots> \<longleftrightarrow> (\<forall>i<length ?fs. map2 (map2 (AND)) ?F ?M ! i = ?V ! i)"
    using mk(3) rk(1,2,5,6) by (subst concat_eq_nth) auto
  finally show ?thesis using rk(1,2) by simp
qed

section \<open>Lookups return\<close>

definition attrs_ok :: "(nat \<Rightarrow> int) \<Rightarrow> wm_field list \<Rightarrow> bool" where
  "attrs_ok attr_offset fs \<longleftrightarrow> (\<forall>f\<in>set fs. \<forall>i. wf_attr f = Some i \<longrightarrow> 0 \<le> attr_offset i \<and> attr_offset i \<le> 120)"

definition buffer_ok :: "packet \<Rightarrow> bool" where
  "buffer_ok p \<longleftrightarrow> length (mem p) = SNBUF_SIZE \<and> unat (data_off p) \<le> 1024"

lemma field_bytes_returns:
  assumes "buffer_ok p" "wf_offset f \<le> 1024" "attrs_ok attr_offset (f # fs)"
  shows "\<exists>bs. field_bytes attr_offset f p = Some bs"
  using assms
  by (auto simp: field_bytes_def load_bytes_def buffer_ok_def attrs_ok_def head_data_def snbuf_defs
    mt_offset_to_databuf_offset_def split: option.splits)

lemma fill_key_returns:
  assumes "buffer_ok p" "layout pos fs" "attrs_ok attr_offset fs" "pos + fields_size fs \<le> 56" "length key = HASH_KEY_SIZE"
  shows "\<exists>K. fill_key attr_offset fs p key = Some K"
  using assms(2-5)
proof (induction fs arbitrary: pos key)
  case (Cons f fs)
  obtain bs where bs: "field_bytes attr_offset f p = Some bs"
    using field_bytes_returns [OF assms(1) _ Cons.prems(2)] Cons.prems(1) by auto
  have "\<exists>K. fill_key attr_offset fs p (put_field pos bs key) = Some K"
    using Cons.prems length_field_bytes [OF bs] by (intro Cons.IH) (auto simp: attrs_ok_def HASH_KEY_SIZE_def)
  then show ?case using Cons.prems bs by (auto simp: HASH_KEY_SIZE_def)
qed simp

lemma make_key_returns:
  assumes "wm_ready wm" "attrs_ok attr_offset (wm_fields wm)" "buffer_ok p" "length stack = HASH_KEY_SIZE"
  shows "\<exists>key. make_key attr_offset wm stack p = Some key"
proof -
  have pos: "0 < total_key_size wm" "total_key_size wm \<le> 56" "fields_size (wm_fields wm) \<le> total_key_size wm"
    using assms(1) by (auto simp: wm_ready_def neq_Nil_conv)
  have "(total_key_size wm - 1) div 8 * 8 + 8 \<le> 64" using pos by linarith
  then have "length (put_field ((total_key_size wm - 1) div 8 * 8) (replicate 8 0) stack) = HASH_KEY_SIZE"
    using assms(4) by (simp add: HASH_KEY_SIZE_def)
  from fill_key_returns [OF assms(3) _ assms(2) _ this, of 0] show ?thesis
    using assms(1) pos by (simp add: make_key_def wm_ready_def HASH_KEY_SIZE_def)
qed

lemma store_bytes_buffer: "store_bytes a bs p = Some q \<Longrightarrow> buffer_ok p \<Longrightarrow> buffer_ok q"
  by (auto simp: store_bytes_def buffer_ok_def split: if_splits)

lemma set_value_returns:
  assumes "buffer_ok p" "wf_pos f + wf_size f \<le> length keyv" "wf_size f \<le> 8" "wf_offset f \<le> 1024" "attrs_ok attr_offset (f # fs)"
  shows "\<exists>q. set_value attr_offset keyv f p = Some q \<and> buffer_ok q"
proof -
  let ?buf = "take (wf_size f) (drop (wf_pos f) keyv)"
  have "\<exists>q. store_bytes a ?buf p = Some q \<and> buffer_ok q" if "a + 8 \<le> SNBUF_SIZE" for a
  proof -
    have "\<exists>q. store_bytes a ?buf p = Some q" using assms(1,3) that by (auto simp: store_bytes_def buffer_ok_def)
    then show ?thesis using store_bytes_buffer assms(1) by blast
  qed
  moreover have "head_data p (wf_offset f) + 8 \<le> SNBUF_SIZE"
    using assms(1,4) by (simp add: buffer_ok_def head_data_def snbuf_defs)
  moreover have "SNBUF_METADATA_OFF + nat (attr_offset i) + 8 \<le> SNBUF_SIZE" "\<not> attr_offset i < 0" if "wf_attr f = Some i" for i
    using that assms(5) by (auto simp: attrs_ok_def snbuf_defs)
  ultimately show ?thesis
    using assms(2) by (auto simp: set_value_def set_attr_with_offset_def IsValidOffset_def Let_def split: option.splits)
qed

lemma set_values_returns:
  assumes "buffer_ok p" "layout pos fs" "pos + fields_size fs \<le> length keyv" "attrs_ok attr_offset fs"
  shows "\<exists>q. set_values attr_offset keyv fs p = Some q \<and> buffer_ok q"
  using assms
proof (induction fs arbitrary: pos p)
  case (Cons f fs)
  obtain q where q: "set_value attr_offset keyv f p = Some q" "buffer_ok q"
    using set_value_returns [OF Cons.prems(1) _ _ _ Cons.prems(4), of keyv] Cons.prems(2,3) by auto
  have "attrs_ok attr_offset fs" using Cons.prems(4) by (simp add: attrs_ok_def)
  then show ?case using Cons.IH [OF q(2), of "pos + wf_size f"] Cons.prems(2,3) q(1) by (auto simp: add.assoc)
qed simp

section \<open>Processing a batch\<close>

lemma those_returns: "(\<And>x. x \<in> set xs \<Longrightarrow> \<exists>y. f x = Some y) \<Longrightarrow> those (map f xs) = Some (map (\<lambda>x. the (f x)) xs)"
  by (induction xs) fastforce+

text \<open>What becomes of a packet: its gate, and the values written into it.\<close>

definition leaves_as :: "(nat \<Rightarrow> int) \<Rightarrow> 'h wildcard_match \<Rightarrow> wm_data option \<Rightarrow> packet \<Rightarrow> packet \<times> u16 \<Rightarrow> bool" where
  "leaves_as attr_offset wm r p e \<longleftrightarrow>
     (case r of
        None \<Rightarrow> e = (p, default_gate wm)
      | Some d \<Rightarrow> set_values attr_offset (wd_keyv d) (wm_values wm) p = Some (fst e) \<and> snd e = wd_ogate d)"

lemma lookup_one_best:
  assumes "wm_inv api wm" "wm_ready wm" "attrs_ok attr_offset (wm_values wm)" "buffer_ok p"
    "\<forall>d\<in>ran (wm_rules api wm). length (wd_keyv d) = HASH_KEY_SIZE"
  shows "\<exists>e r. lookup_one api attr_offset wm (default_gate wm) (key, p) = Some e \<and>
    best_match (wm_rules api wm) (total_key_size wm) key r \<and> leaves_as attr_offset wm r p e"
proof -
  let ?r = "foldl better None (hits api (total_key_size wm) key (wm_tuples wm))"
  note best = best_hit [OF assms(1), of key]
  show ?thesis
  proof (cases ?r)
    case None
    then show ?thesis using best by (auto simp: lookup_one_def leaves_as_def intro!: exI [of _ None])
  next
    case (Some d)
    then have "d \<in> ran (wm_rules api wm)" using best by (auto simp: best_match_def ran_def)
    then obtain q where "set_values attr_offset (wd_keyv d) (wm_values wm) p = Some q"
      using set_values_returns [OF assms(4) _ _ assms(3), of 0 "wd_keyv d"] assms(2,5) by (auto simp: wm_ready_def)
    then show ?thesis using best Some by (auto simp: lookup_one_def leaves_as_def intro!: exI [of _ "Some d"])
  qed
qed

lemma ProcessBatch_best:
  assumes "wm_inv api wm" "wm_ready wm" "attrs_ok attr_offset (wm_fields wm)" "attrs_ok attr_offset (wm_values wm)"
    "\<forall>d\<in>ran (wm_rules api wm). length (wd_keyv d) = HASH_KEY_SIZE"
    "\<forall>p\<in>set pkts. buffer_ok p" "\<forall>i. length (stack i) = HASH_KEY_SIZE"
  shows "\<exists>outs. WildcardMatch_ProcessBatch api attr_offset wm stack pkts = Some outs \<and> length outs = length pkts \<and>
    (\<forall>i<length pkts. \<exists>key r. make_key attr_offset wm (stack i) (pkts ! i) = Some key \<and>
      best_match (wm_rules api wm) (total_key_size wm) key r \<and> leaves_as attr_offset wm r (pkts ! i) (outs ! i))"
proof -
  let ?mk = "\<lambda>(i, p). make_key attr_offset wm (stack i) p"
  define keys where "keys = map (\<lambda>x. the (?mk x)) (enumerate 0 pkts)"
  have mk: "those (map ?mk (enumerate 0 pkts)) = Some keys"
    unfolding keys_def using make_key_returns [OF assms(2,3)] assms(6,7)
    by (intro those_returns) (auto simp: in_set_enumerate_eq)
  let ?one = "lookup_one api attr_offset wm (default_gate wm)"
  define outs where "outs = map (\<lambda>x. the (?one x)) (zip keys pkts)"
  have one: "those (map ?one (zip keys pkts)) = Some outs"
    unfolding outs_def
  proof (rule those_returns)
    fix x assume "x \<in> set (zip keys pkts)"
    then have "buffer_ok (snd x)" using assms(6) set_zip_rightD [of "fst x" "snd x"] by simp
    then show "\<exists>y. ?one x = Some y" using lookup_one_best [OF assms(1,2,4) _ assms(5), of "snd x" "fst x"] by auto
  qed
  have lookup: "LookupBulkEntry api attr_offset wm (default_gate wm) = (\<lambda>b. those (map ?one b))"
    using LookupBulkEntry_pointwise [OF assms(1)] by blast
  have run: "WildcardMatch_ProcessBatch api attr_offset wm stack pkts = Some outs"
    by (simp add: WildcardMatch_ProcessBatch_def mk lookup bulk_chunks_pointwise one)
  have len: "length keys = length pkts" "length outs = length pkts" by (simp_all add: keys_def outs_def)
  have "\<exists>key r. make_key attr_offset wm (stack i) (pkts ! i) = Some key \<and>
      best_match (wm_rules api wm) (total_key_size wm) key r \<and> leaves_as attr_offset wm r (pkts ! i) (outs ! i)"
    if i: "i < length pkts" for i
  proof -
    have "make_key attr_offset wm (stack i) (pkts ! i) = Some (keys ! i)"
      using make_key_returns [OF assms(2,3), of "pkts ! i" "stack i"] assms(6,7) i
      by (auto simp: keys_def nth_enumerate_eq)
    moreover obtain e r where "?one (keys ! i, pkts ! i) = Some e"
      "best_match (wm_rules api wm) (total_key_size wm) (keys ! i) r" "leaves_as attr_offset wm r (pkts ! i) e"
      using lookup_one_best [OF assms(1,2,4) _ assms(5)] assms(6) nth_mem [OF i] by blast
    moreover have "outs ! i = the (?one (keys ! i, pkts ! i))" using i len(1) by (simp add: outs_def)
    ultimately show ?thesis by auto
  qed
  then show ?thesis using run len(2) by blast
qed

text \<open>
  C3. \<^verbatim>\<open>ProcessBatch\<close> of \<^verbatim>\<open>WildcardMatch\<close> emits every packet of a batch, in order: a packet that
  matches some rule leaves by the gate of a matching rule of highest priority and carries that
  rule's values, a packet that matches none leaves unchanged by the default gate.
\<close>

theorem WildcardMatch_classifies:
  assumes "wm_inv api wm" "wm_ready wm" "attrs_ok attr_offset (wm_fields wm)" "attrs_ok attr_offset (wm_values wm)"
    "\<forall>d\<in>ran (wm_rules api wm). length (wd_keyv d) = HASH_KEY_SIZE"
    "\<forall>p\<in>set pkts. buffer_ok p" "\<forall>i. length (stack i) = HASH_KEY_SIZE"
  shows "\<exists>outs. WildcardMatch_ProcessBatch api attr_offset wm stack pkts = Some outs \<and> length outs = length pkts \<and>
    (\<forall>i<length pkts. \<exists>key r. make_key attr_offset wm (stack i) (pkts ! i) = Some key \<and>
      best_match (wm_rules api wm) (total_key_size wm) key r \<and> leaves_as attr_offset wm r (pkts ! i) (outs ! i))"
  by (rule ProcessBatch_best [OF assms])

text \<open>A classifier with one rule, and a buffer.\<close>

definition sample_rule :: wm_rule where
  "sample_rule = \<lparr>r_gate = 3, r_priority = 7, r_values = [ValueInt 1, ValueInt 2],
     r_masks = [ValueInt 255, ValueInt 255], r_valuesv = []\<rparr>"

definition sample_classifier :: "(hkey \<times> wm_data) list wildcard_match" where
  "sample_classifier = fst (the (CommandAdd (list_hash 4) sample_matcher sample_rule))"

definition sample_buffer :: packet where
  "sample_buffer = \<lparr>mem = replicate 2560 0, data_off = 128, data_len = 64, pkt_len = 64\<rparr>"

lemma sample_add: "CommandAdd (list_hash 4) sample_matcher sample_rule = Some (sample_classifier, Inr ())"
proof -
  have "case CommandAdd (list_hash 4) sample_matcher sample_rule of Some (_, Inr _) \<Rightarrow> True | _ \<Rightarrow> False"
    by code_simp
  then show ?thesis by (auto simp: sample_classifier_def split: option.splits prod.splits sum.splits)
qed

lemma sample_matcher_ready: "wm_ready sample_matcher" "attrs_ok attr_offset (wm_fields sample_matcher)"
  "wm_values sample_matcher = []" "attrs_ok attr_offset []"
  by (simp_all add: wm_ready_def sample_matcher_def attrs_ok_def)

lemma sample_classifier_ok:
  "wm_inv (list_hash 4) sample_classifier" "wm_ready sample_classifier"
  "wm_fields sample_classifier = wm_fields sample_matcher" "wm_values sample_classifier = []"
  "\<forall>d\<in>ran (wm_rules (list_hash 4) sample_classifier). length (wd_keyv d) = HASH_KEY_SIZE"
proof -
  note post = CommandAdd_post [OF list_hash_laws WildcardMatch_Init_inv(1) [OF sample_matcher_Init] sample_add]
  show "wm_inv (list_hash 4) sample_classifier" using post by simp
  have "same_config sample_matcher sample_classifier" using post by simp
  then show "wm_ready sample_classifier" "wm_fields sample_classifier = wm_fields sample_matcher" "wm_values sample_classifier = []"
    using sample_matcher_ready by (simp_all add: same_config_def wm_ready_def)
  have "rule_data sample_matcher sample_rule = Some \<lparr>wd_priority = 7, wd_ogate = 3, wd_keyv = replicate HASH_KEY_SIZE 0\<rparr>"
    by (simp add: rule_data_def ExtractValue_def sample_matcher_def sample_rule_def)
  then show "\<forall>d\<in>ran (wm_rules (list_hash 4) sample_classifier). length (wd_keyv d) = HASH_KEY_SIZE"
    using post WildcardMatch_Init_inv(2) [OF sample_matcher_Init] by auto
qed

lemma sample_buffer_ok: "buffer_ok sample_buffer"
  by (simp add: buffer_ok_def sample_buffer_def snbuf_defs)

theorem WildcardMatch_classifies_witness:
  "\<exists>outs. WildcardMatch_ProcessBatch (list_hash 4) (\<lambda>_. 0) sample_classifier (\<lambda>_. replicate HASH_KEY_SIZE 0)
      [sample_buffer, sample_buffer] = Some outs \<and> length outs = 2"
  using WildcardMatch_classifies [OF sample_classifier_ok(1,2), of "\<lambda>_. 0" "[sample_buffer, sample_buffer]" "\<lambda>_. replicate HASH_KEY_SIZE 0"]
    sample_classifier_ok(3-5) sample_matcher_ready sample_buffer_ok by auto

theorem rule_matches_packet_witness:
  "\<exists>key m k. make_key (\<lambda>_. 0) sample_matcher (replicate HASH_KEY_SIZE 0) sample_buffer = Some key \<and>
     rule_key sample_matcher [ValueInt 1, ValueInt 2] [ValueInt 255, ValueInt 255] = Some (m, k) \<and>
     (mask_key key m 8 = k \<longleftrightarrow>
      (\<forall>i<2. map2 (AND) (packet_field (\<lambda>_. 0) sample_buffer (wm_fields sample_matcher ! i))
         (rule_field (wm_fields sample_matcher ! i) ([ValueInt 255, ValueInt 255] ! i)) =
         rule_field (wm_fields sample_matcher ! i) ([ValueInt 1, ValueInt 2] ! i)))"
proof -
  obtain key where key: "make_key (\<lambda>_. 0) sample_matcher (replicate HASH_KEY_SIZE 0) sample_buffer = Some key"
    using make_key_returns [OF sample_matcher_ready(1,2) sample_buffer_ok, of "replicate HASH_KEY_SIZE 0"] by auto
  have "rule_key sample_matcher [ValueInt 1, ValueInt 2] [ValueInt 255, ValueInt 255] \<noteq> None" by code_simp
  then obtain m k where mk: "rule_key sample_matcher [ValueInt 1, ValueInt 2] [ValueInt 255, ValueInt 255] = Some (m, k)" by auto
  have "length (wm_fields sample_matcher) = 2" "total_key_size sample_matcher = 8" by (simp_all add: sample_matcher_def)
  then show ?thesis using rule_matches_packet [OF sample_matcher_ready(1) _ key mk] key mk by auto
qed

section \<open>Lookup of one packet\<close>

lemma best_entry_foldl:
  "\<forall>t\<in>set ts. occupied t \<longrightarrow> ht t \<noteq> None \<Longrightarrow> best_entry api n key ts r = foldl better (Some r) (hits api n key ts)"
proof (induction ts arbitrary: r)
  case (Cons t ts)
  show ?case
  proof (cases "occupied t")
    case False
    then show ?thesis using Cons by (simp add: hits_def)
  next
    case True
    then obtain h where h: "ht t = Some h" using Cons.prems by auto
    let ?e = "hash_lookup api h (mask_key key (wt_mask t) n)"
    have "hits api n key (t # ts) = ?e # hits api n key ts" using True h by (simp add: hits_def)
    then show ?thesis using True h Cons.IH Cons.prems by (cases ?e) (simp_all add: better_def)
  qed
qed (simp add: hits_def)

lemma foldl_better_least:
  "\<forall>e. Some e \<in> set hs \<longrightarrow> wd_priority r \<le> wd_priority e \<Longrightarrow>
     foldl better (Some r) hs = (case foldl better None hs of None \<Rightarrow> Some r | Some d \<Rightarrow> Some d)"
proof (induction hs)
  case (Cons h hs)
  show ?case
  proof (cases h)
    case None
    then show ?thesis using Cons by simp
  next
    case (Some e)
    then have "better (Some r) h = Some e" "better None h = Some e" using Cons.prems by (simp_all add: better_def)
    moreover have "foldl better (Some e) hs \<noteq> None" using foldl_better(1) [of "Some e" hs] by simp
    ultimately show ?thesis by auto
  qed
qed simp

text \<open>
  The lookup of a batch agrees with \<^verbatim>\<open>LookupEntry\<close>, the lookup of one packet: the same gate,
  and the same values in the packet unless the gate found is the default gate, for which
  \<^verbatim>\<open>LookupEntry\<close> leaves the packet alone.
\<close>

lemma LookupBulkEntry_LookupEntry:
  assumes "wm_inv api wm" "\<forall>d\<in>ran (wm_rules api wm). INT_MIN \<le> wd_priority d"
    "LookupBulkEntry api attr_offset wm (default_gate wm) [(key, p)] = Some [(q, g)]"
  shows "LookupEntry api attr_offset wm key (default_gate wm) p = Some (if g = default_gate wm then p else q, g)"
proof -
  let ?hs = "hits api (total_key_size wm) key (wm_tuples wm)"
  let ?r0 = "\<lparr>wd_priority = INT_MIN, wd_ogate = default_gate wm, wd_keyv = replicate HASH_KEY_SIZE 0\<rparr>"
  have "\<forall>e. Some e \<in> set ?hs \<longrightarrow> wd_priority ?r0 \<le> wd_priority e"
    unfolding hits_rules [OF assms(1)] using assms(2) by (auto simp: ran_def)
  then have best: "best_entry api (total_key_size wm) key (wm_tuples wm) ?r0 =
      (case foldl better None ?hs of None \<Rightarrow> Some ?r0 | Some d \<Rightarrow> Some d)"
    using best_entry_foldl [OF inv_tables [OF assms(1)]] foldl_better_least by simp
  have one: "lookup_one api attr_offset wm (default_gate wm) (key, p) = Some (q, g)"
    using assms(3) LookupBulkEntry_pointwise [OF assms(1)] by (simp split: option.splits)
  show ?thesis
  proof (cases "foldl better None ?hs")
    case None
    then show ?thesis using best one by (simp add: LookupEntry_def lookup_one_def)
  next
    case (Some d)
    then have "set_values attr_offset (wd_keyv d) (wm_values wm) p = Some q" "wd_ogate d = g"
      using one by (auto simp: lookup_one_def Option.bind_eq_Some_conv)
    then show ?thesis using best Some by (simp add: LookupEntry_def)
  qed
qed

lemma sample_classifier_priority: "\<forall>d\<in>ran (wm_rules (list_hash 4) sample_classifier). INT_MIN \<le> wd_priority d"
proof -
  note post = CommandAdd_post [OF list_hash_laws WildcardMatch_Init_inv(1) [OF sample_matcher_Init] sample_add]
  have "rule_data sample_matcher sample_rule = Some \<lparr>wd_priority = 7, wd_ogate = 3, wd_keyv = replicate HASH_KEY_SIZE 0\<rparr>"
    by (simp add: rule_data_def ExtractValue_def sample_matcher_def sample_rule_def)
  then show ?thesis using post WildcardMatch_Init_inv(2) [OF sample_matcher_Init] by (auto simp: INT_MIN_def)
qed

section \<open>Capacity\<close>

lemma AddTuple_full:
  assumes "\<forall>i<MAX_TUPLES. occupied (wm_tuples wm ! i)"
  shows "AddTuple api wm m = (wm, Inl ENOSPC)"
proof -
  have "find_slot wm (\<lambda>t. \<not> occupied t \<and> P t) = None" for P using assms by (auto simp: find_slot_None)
  then show ?thesis unfolding AddTuple_def by (simp only: option.case)
qed

text \<open>The table of an occupied slot has the rules with its mask.\<close>

lemma slot_rules:
  assumes "wm_inv api wm" "slot_of wm m = Some i"
  shows "\<exists>h. ht (wm_tuples wm ! i) = Some h \<and> hash_lookup api h = (\<lambda>k. wm_rules api wm (m, k))"
proof -
  obtain h where "ht (wm_tuples wm ! i) = Some h"
    using wm_invD(1) [OF assms(1) slot_ofD(1) [OF assms(2)]] slot_ofD(2) [OF assms(2)]
    by (cases "ht (wm_tuples wm ! i)") (auto simp: tuple_ok_def)
  then show ?thesis using assms(2) by (auto simp: wm_rules_def)
qed

text \<open>
  C37. The answer to a well-formed rule, if the module's hash tables can be created with its key size
  and number of entries. It is refused for lack of space exactly when all sixteen slots are in use
  for masks other than its own; slots that were released when their last rule went are found again.
  Otherwise the answer is that of the table with the rules of its mask: success if the table takes
  the rule, an invalid argument if it does not.
\<close>

theorem CommandAdd_capacity:
  assumes "hash_laws api" "wm_inv api wm" "hash_create api (total_key_size wm) (table_entries wm) \<noteq> None"
    "rule_key wm (r_values arg) (r_masks arg) = Some (m, k)" "rule_data wm arg = Some d" "is_valid_gate (ucast (r_gate arg))"
  shows "\<exists>wm' r. CommandAdd api wm arg = Some (wm', r) \<and>
    (if \<forall>i<MAX_TUPLES. occupied (wm_tuples wm ! i) \<and> table_key wm (wt_mask (wm_tuples wm ! i)) \<noteq> m
     then r = Inl ENOSPC
     else \<exists>h. hash_lookup api h = (\<lambda>k. wm_rules api wm (m, k)) \<and>
       r = (case hash_add api h k d of None \<Rightarrow> Inl EINVAL | Some _ \<Rightarrow> Inr ()))"
proof -
  obtain key mm where ex: "ExtractKeyMask wm (r_values arg) (r_masks arg) = Some (Inr (key, mm))" "m = table_key wm mm"
    "k = table_key wm key" using assms(4) by (auto simp: rule_key_def split: option.splits sum.splits)
  obtain keyv where kv: "ExtractValue wm (r_valuesv arg) = Some (Inr keyv)"
    "d = \<lparr>wd_priority = sint (of_int (r_priority arg) :: u32), wd_ogate = ucast (r_gate arg), wd_keyv = keyv\<rparr>"
    using assms(5) by (auto simp: rule_data_def split: option.splits sum.splits)
  have run: "CommandAdd api wm arg = (case idx of Inl e \<Rightarrow> Some (wm1, Inl e) | Inr i \<Rightarrow>
      Option.bind (ht (wm_tuples wm1 ! i)) (\<lambda>h. case hash_add api h (table_key wm1 key) d of
        None \<Rightarrow> Some (wm1, Inl EINVAL) | Some h' \<Rightarrow> Some (set_slot i ((wm_tuples wm1 ! i)\<lparr>ht := Some h'\<rparr>) wm1, Inr ())))"
    if "(case slot_of wm m of Some i \<Rightarrow> (wm, Inr i) | None \<Rightarrow> AddTuple api wm mm) = (wm1, idx)" for wm1 idx
    using ex(1) kv(1) assms(6) that unfolding ex(2) kv(2) by (simp add: CommandAdd_def FindTuple_slot_of Let_def)
  have answer: ?thesis if a: "(case slot_of wm m of Some i \<Rightarrow> (wm, Inr i) | None \<Rightarrow> AddTuple api wm mm) = (wm1, Inr i)"
      "wm_inv api wm1" "slot_of wm1 m = Some i" "wm_rules api wm1 = wm_rules api wm" "table_key wm1 key = k"
      "\<not> (\<forall>i<MAX_TUPLES. occupied (wm_tuples wm ! i) \<and> table_key wm (wt_mask (wm_tuples wm ! i)) \<noteq> m)" for wm1 i
  proof -
    obtain h where h: "ht (wm_tuples wm1 ! i) = Some h" "hash_lookup api h = (\<lambda>k. wm_rules api wm (m, k))"
      using slot_rules [OF a(2,3)] a(4) by auto
    then show ?thesis using run [OF a(1)] a(5,6) by (cases "hash_add api h k d") auto
  qed
  show ?thesis
  proof (cases "slot_of wm m")
    case (Some i)
    have "\<not> (\<forall>i<MAX_TUPLES. occupied (wm_tuples wm ! i) \<and> table_key wm (wt_mask (wm_tuples wm ! i)) \<noteq> m)"
      using slot_ofD [OF Some] by blast
    then show ?thesis using Some by (intro answer [of wm i] assms(2)) (simp_all add: ex(3))
  next
    case None
    obtain wm1 idx where st: "AddTuple api wm mm = (wm1, idx)" by fastforce
    note post = AddTuple_post [OF assms(1,2) None [unfolded ex(2)] ExtractKeyMask_length(2) [OF ex(1)] st]
    show ?thesis
    proof (cases idx)
      case (Inl e)
      then have "idx = Inl ENOSPC" "\<forall>i<MAX_TUPLES. occupied (wm_tuples wm ! i)" using post(5) assms(3) by auto
      then show ?thesis using run [of wm1 idx] st None by (auto simp: slot_of_None)
    next
      case (Inr i)
      then have "\<not> (\<forall>i<MAX_TUPLES. occupied (wm_tuples wm ! i))" using AddTuple_full [of wm api mm] st by auto
      then show ?thesis
        using st None Inr post(1-4) by (intro answer [of wm1 i]) (auto simp: same_config_def ex(2,3))
    qed
  qed
qed

theorem CommandAdd_capacity_witness:
  "\<exists>wm' h. CommandAdd (list_hash 4) sample_matcher sample_rule =
     Some (wm', case hash_add (list_hash 4) h [0, 0, 0, 1, 0, 2, 0, 0]
       \<lparr>wd_priority = 7, wd_ogate = 3, wd_keyv = replicate HASH_KEY_SIZE 0\<rparr> of None \<Rightarrow> Inl EINVAL | Some _ \<Rightarrow> Inr ()) \<and>
     hash_lookup (list_hash 4) h = Map.empty"
proof -
  have key: "rule_key sample_matcher (r_values sample_rule) (r_masks sample_rule) =
      Some ([0, 0, 0, 255, 0, 255, 0, 0], [0, 0, 0, 1, 0, 2, 0, 0])" by code_simp
  have data: "rule_data sample_matcher sample_rule = Some \<lparr>wd_priority = 7, wd_ogate = 3, wd_keyv = replicate HASH_KEY_SIZE 0\<rparr>"
    by (simp add: rule_data_def ExtractValue_def sample_matcher_def sample_rule_def)
  have gate: "is_valid_gate (ucast (r_gate sample_rule))" by code_simp
  have create: "hash_create (list_hash 4) (total_key_size sample_matcher) (table_entries sample_matcher) \<noteq> None"
    by (simp add: list_hash_def)
  have "\<not> occupied (wm_tuples sample_matcher ! 0)" "0 < MAX_TUPLES" by code_simp+
  then have free: "(\<forall>i<MAX_TUPLES. occupied (wm_tuples sample_matcher ! i) \<and>
      table_key sample_matcher (wt_mask (wm_tuples sample_matcher ! i)) \<noteq> [0, 0, 0, 255, 0, 255, 0, 0]) = False" by blast
  have empty: "(\<lambda>k. wm_rules (list_hash 4) sample_matcher ([0, 0, 0, 255, 0, 255, 0, 0], k)) = Map.empty"
    using WildcardMatch_Init_inv(2) [OF sample_matcher_Init] by simp
  note CommandAdd_capacity [OF list_hash_laws WildcardMatch_Init_inv(1) [OF sample_matcher_Init] create key data gate,
      unfolded free if_False empty]
  then show ?thesis by blast
qed

end
