(* ===== verification/Go_Net.thy ===== *)
theory Go_Net
  imports Go_Prelude
begin

text \<open>
  What the PFCP agent uses of Go's \<^verbatim>\<open>strconv\<close>, \<^verbatim>\<open>strings\<close>, \<^verbatim>\<open>net\<close> and \<^verbatim>\<open>encoding/binary\<close>, and its
  own address helpers (\<^verbatim>\<open>inc\<close>, \<^verbatim>\<open>ip2int\<close>, \<^verbatim>\<open>ipMask2int\<close>, \<^verbatim>\<open>int2ip\<close> of \<^verbatim>\<open>pfcpiface/utils.go\<close>).
  Strings are byte strings; white space is ASCII white space. An IP address is its list of
  4 or 16 bytes. The lemmas show that printing an IPv4 address or prefix and parsing it
  gives it back.
\<close>

section \<open>Numbers and fields\<close>

definition digit_val :: "char \<Rightarrow> nat option" where
  "digit_val c = (let n = of_char c in if 48 \<le> n \<and> n \<le> 57 then Some (n - 48) else None)"

definition hex_val :: "char \<Rightarrow> nat option" where
  "hex_val c =
     (let n = of_char c in
      if 48 \<le> n \<and> n \<le> 57 then Some (n - 48)
      else if 97 \<le> n \<and> n \<le> 102 then Some (n - 87)
      else if 65 \<le> n \<and> n \<le> 70 then Some (n - 55) else None)"

text \<open>\<^verbatim>\<open>strconv.ParseUint(s, base, bits)\<close> for the bases 10 and 16.\<close>

fun digits_value :: "(char \<Rightarrow> nat option) \<Rightarrow> nat \<Rightarrow> string \<Rightarrow> nat \<Rightarrow> nat option" where
  "digits_value dig base [] v = Some v"
| "digits_value dig base (c # cs) v =
     (case dig c of None \<Rightarrow> None | Some d \<Rightarrow> digits_value dig base cs (v * base + d))"

definition ParseUint :: "string \<Rightarrow> nat \<Rightarrow> nat \<Rightarrow> nat option" where
  "ParseUint s base bits =
     (if s = [] then None
      else case digits_value (if base = 16 then hex_val else digit_val) base s 0 of
             None \<Rightarrow> None
           | Some v \<Rightarrow> if v < 2 ^ bits then Some v else None)"

text \<open>\<^verbatim>\<open>strings.Fields\<close> and \<^verbatim>\<open>strings.Split\<close> with a separator of one byte.\<close>

definition is_space :: "char \<Rightarrow> bool" where
  "is_space c \<longleftrightarrow> (of_char c :: nat) \<in> {9, 10, 11, 12, 13, 32}"

function strings_Fields :: "string \<Rightarrow> string list" where
  "strings_Fields s =
     (case dropWhile is_space s of
        [] \<Rightarrow> []
      | c # cs \<Rightarrow> takeWhile (\<lambda>c. \<not> is_space c) (c # cs) #
                 strings_Fields (dropWhile (\<lambda>c. \<not> is_space c) (c # cs)))"
  by pat_completeness auto
termination
proof (relation "measure length")
  fix s c and cs :: string
  assume s: "dropWhile is_space s = c # cs"
  then have "\<not> is_space c" by (metis list.simps(3) hd_dropWhile list.sel(1))
  then have "length (dropWhile (\<lambda>c. \<not> is_space c) (c # cs)) \<le> length cs"
    by (simp add: length_dropWhile_le)
  also have "length cs < length (dropWhile is_space s)" using s by simp
  also have "\<dots> \<le> length s" by (rule length_dropWhile_le)
  finally show "(dropWhile (\<lambda>c. \<not> is_space c) (c # cs), s) \<in> measure length" by simp
qed simp

declare strings_Fields.simps [simp del]

fun strings_Split :: "char \<Rightarrow> string \<Rightarrow> string list" where
  "strings_Split sep [] = [[]]"
| "strings_Split sep (c # cs) =
     (if c = sep then [] # strings_Split sep cs
      else case strings_Split sep cs of
             [] \<Rightarrow> [[c]]
           | f # fs \<Rightarrow> (c # f) # fs)"

section \<open>Addresses\<close>

type_synonym ip = "u8 list"

record ip_net =
  net_IP :: ip
  net_Mask :: ip

definition v4InV6Prefix :: ip where
  "v4InV6Prefix = replicate 10 0 @ [0xFF, 0xFF]"

definition To4 :: "ip \<Rightarrow> ip option" where
  "To4 a =
     (if length a = 4 then Some a
      else if length a = 16 \<and> take 12 a = v4InV6Prefix then Some (drop 12 a) else None)"

text \<open>\<^verbatim>\<open>IP.Mask\<close>; no address when the lengths do not fit.\<close>

definition ip_Mask :: "ip \<Rightarrow> ip \<Rightarrow> ip option" where
  "ip_Mask a msk =
     (let msk = (if length msk = 16 \<and> length a = 4 \<and> list_all (\<lambda>b. b = 0xFF) (take 12 msk)
                  then drop 12 msk else msk);
          a = (if length msk = 4 \<and> length a = 16 \<and> take 12 a = v4InV6Prefix then drop 12 a else a)
      in if length a \<noteq> length msk then None else Some (map2 (AND) a msk))"

fun CIDRMask_bytes :: "nat \<Rightarrow> nat \<Rightarrow> ip" where
  "CIDRMask_bytes n 0 = []"
| "CIDRMask_bytes n (Suc l) =
     (if n \<ge> 8 then 0xFF # CIDRMask_bytes (n - 8) l
      else NOT (drop_bit n 0xFF) # CIDRMask_bytes 0 l)"

text \<open>\<^verbatim>\<open>IPNet.Contains\<close>, with \<^verbatim>\<open>networkNumberAndMask\<close>.\<close>

definition networkNumberAndMask :: "ip_net \<Rightarrow> (ip \<times> ip) option" where
  "networkNumberAndMask n =
     (let a = (case To4 (net_IP n) of Some a \<Rightarrow> a | None \<Rightarrow> net_IP n); m = net_Mask n
      in if length a \<noteq> 4 \<and> length a \<noteq> 16 then None
         else if length m = 4 then (if length a = 4 then Some (a, m) else None)
         else if length m = 16 then Some (a, if length a = 4 then drop 12 m else m)
         else None)"

definition Contains :: "ip_net \<Rightarrow> ip \<Rightarrow> bool" where
  "Contains n a =
     (case networkNumberAndMask n of
        None \<Rightarrow> False
      | Some (nn, m) \<Rightarrow>
          let a = (case To4 a of Some x \<Rightarrow> x | None \<Rightarrow> a)
          in length a = length nn \<and> map2 (AND) nn m = map2 (AND) a m)"

section \<open>Parsing addresses\<close>

fun parse_v4_fields :: "string \<Rightarrow> nat \<Rightarrow> nat \<Rightarrow> ip \<Rightarrow> ip option" where
  "parse_v4_fields [] v digLen flds =
     (if length flds < 3 then None else Some (flds @ [of_nat v]))"
| "parse_v4_fields (c # cs) v digLen flds =
     (case digit_val c of
        Some d \<Rightarrow>
          if digLen = 1 \<and> v = 0 \<or> v * 10 + d > 255 then None
          else parse_v4_fields cs (v * 10 + d) (digLen + 1) flds
      | None \<Rightarrow>
          if c \<noteq> CHR ''.'' \<or> digLen = 0 \<or> cs = [] \<or> length flds = 3 then None
          else parse_v4_fields cs 0 0 (flds @ [of_nat v]))"

text \<open>The groups of an IPv6 address, the position of the ellipsis, and what is left over.\<close>

definition hex_group :: "string \<Rightarrow> ip" where
  "hex_group ds = (let acc = the (digits_value hex_val 16 ds 0) in [of_nat (acc div 256), of_nat acc])"

function parse_v6_loop :: "string \<Rightarrow> ip \<Rightarrow> nat option \<Rightarrow> (ip \<times> nat option \<times> string) option" where
  "parse_v6_loop s a ell =
     (if length a \<ge> 16 then Some (a, ell, s)
      else
        let ds = takeWhile (\<lambda>c. hex_val c \<noteq> None) s;
            rest = drop (length ds) s;
            a' = a @ hex_group ds
        in if ds = [] \<or> length ds > 4 then None
           else if rest = [] then Some (a', ell, [])
           else if hd rest = CHR ''.'' then
             (if ell = None \<and> length a \<noteq> 12 \<or> length a + 4 > 16 then None
              else map_option (\<lambda>f. (a @ f, ell, [])) (parse_v4_fields s 0 0 []))
           else if hd rest \<noteq> CHR '':'' \<or> tl rest = [] then None
           else if hd (tl rest) = CHR '':'' then
             (if ell \<noteq> None then None
              else if tl (tl rest) = [] then Some (a', Some (length a'), [])
              else parse_v6_loop (tl (tl rest)) a' (Some (length a')))
           else parse_v6_loop (tl rest) a' ell)"
  by pat_completeness auto
termination
  by (relation "measure (\<lambda>(s, _). length s)") (auto simp: Let_def)

declare parse_v6_loop.simps [simp del]

definition parseIPv6 :: "string \<Rightarrow> ip option" where
  "parseIPv6 s =
     (if CHR ''%'' \<in> set s then None
      else
        let (s, ell) = (if take 2 s = ''::'' then (drop 2 s, Some 0) else (s, None))
        in if ell = Some 0 \<and> s = [] then Some (replicate 16 0)
           else case parse_v6_loop s [] ell of
                  None \<Rightarrow> None
                | Some (a, ell, rest) \<Rightarrow>
                    if rest \<noteq> [] then None
                    else if length a < 16 then
                      (case ell of
                         None \<Rightarrow> None
                       | Some e \<Rightarrow> Some (take e a @ replicate (16 - length a) 0 @ drop e a))
                    else if ell \<noteq> None then None else Some a)"

text \<open>\<^verbatim>\<open>netip.ParseAddr\<close>: the address as 16 bytes, and its width in bits.\<close>

definition ParseAddr :: "string \<Rightarrow> (ip \<times> nat) option" where
  "ParseAddr s =
     (case find (\<lambda>c. c \<in> set ''.:%'') s of
        None \<Rightarrow> None
      | Some c \<Rightarrow>
          if c = CHR ''.'' then map_option (\<lambda>a. (v4InV6Prefix @ a, 32)) (parse_v4_fields s 0 0 [])
          else if c = CHR '':'' then map_option (\<lambda>a. (a, 128)) (parseIPv6 s) else None)"

definition ParseCIDR :: "string \<Rightarrow> (ip \<times> ip_net) option" where
  "ParseCIDR s =
     (if CHR ''/'' \<notin> set s then None
      else
        let addr = takeWhile (\<lambda>c. c \<noteq> CHR ''/'') s; msk = drop (length addr + 1) s
        in case (ParseAddr addr, digits_value digit_val 10 msk 0) of
             (Some (a, bits), Some n) \<Rightarrow>
               if msk = [] \<or> n > bits then None
               else
                 let m = CIDRMask_bytes n (bits div 8)
                 in map_option (\<lambda>x. (a, \<lparr>net_IP = x, net_Mask = m\<rparr>)) (ip_Mask a m)
           | _ \<Rightarrow> None)"

section \<open>Helpers of the agent\<close>

text \<open>\<^verbatim>\<open>binary.BigEndian.Uint32\<close> and \<^verbatim>\<open>PutUint32\<close>, on the bytes in order.\<close>

definition be_Uint32 :: "ip \<Rightarrow> u32" where
  "be_Uint32 a =
     push_bit 24 (ucast (a ! 0)) OR push_bit 16 (ucast (a ! 1)) OR push_bit 8 (ucast (a ! 2)) OR ucast (a ! 3)"

definition be_PutUint32 :: "u32 \<Rightarrow> u8 list" where
  "be_PutUint32 v =
     [ucast (drop_bit 24 v), ucast (drop_bit 16 v), ucast (drop_bit 8 v), ucast v]"

fun inc_rev :: "u8 list \<Rightarrow> u8 list" where
  "inc_rev [] = []"
| "inc_rev (b # bs) = (if b + 1 > 0 then (b + 1) # bs else (b + 1) # inc_rev bs)"

definition inc :: "ip \<Rightarrow> ip" where
  "inc a = rev (inc_rev (rev a))"

definition ip2int :: "ip \<Rightarrow> u32" where
  "ip2int a =
     (if length a < 4 then 0
      else if length a = 16 then be_Uint32 (drop 12 a) else be_Uint32 a)"

text \<open>A msk shorter than four bytes makes the code panic.\<close>

definition ipMask2int :: "ip \<Rightarrow> u32 option" where
  "ipMask2int a =
     (if length a = 16 then Some (be_Uint32 (drop 12 a))
      else if length a < 4 then None else Some (be_Uint32 a))"

definition int2ip :: "u32 \<Rightarrow> ip" where
  "int2ip nn = be_PutUint32 nn"

section \<open>Byte order\<close>

lemma be_Uint32_Put [simp]: "be_Uint32 (be_PutUint32 v) = v"
proof (rule bit_word_eqI)
  fix n assume n: "n < LENGTH(32)"
  then consider "n < 8" | "8 \<le> n" "n < 16" | "16 \<le> n" "n < 24" | "24 \<le> n" "n < 32" by force
  then show "bit (be_Uint32 (be_PutUint32 v)) n = bit v n"
    by cases (auto simp: be_Uint32_def be_PutUint32_def bit_simps dest: bit_imp_le_length)
qed

lemma be_Put_Uint32: "length a = 4 \<Longrightarrow> be_PutUint32 (be_Uint32 a) = a"
proof -
  assume "length a = 4"
  then obtain a0 a1 a2 a3 where a: "a = [a0, a1, a2, a3]"
    by (auto simp: numeral_eq_Suc length_Suc_conv)
  show ?thesis
    by (auto simp: a be_Uint32_def be_PutUint32_def intro!: bit_word_eqI)
      (auto simp: bit_simps dest: bit_imp_le_length)
qed

lemma int2ip_simps [simp]:
  "length (int2ip v) = 4" "ip2int (int2ip v) = v" "To4 (int2ip v) = Some (int2ip v)"
  by (simp_all add: int2ip_def ip2int_def To4_def) (simp_all add: be_PutUint32_def)

lemma int2ip_ip2int: "length a = 4 \<Longrightarrow> int2ip (ip2int a) = a"
  by (simp add: int2ip_def ip2int_def be_Put_Uint32)

lemma inj_int2ip: "int2ip v = int2ip w \<longleftrightarrow> v = w"
  by (metis int2ip_simps(2))

section \<open>Printing addresses\<close>

fun itoa :: "nat \<Rightarrow> string" where
  "itoa n = (if n < 10 then [char_of (48 + n)] else itoa (n div 10) @ [char_of (48 + n mod 10)])"

declare itoa.simps [simp del]

text \<open>\<^verbatim>\<open>IP.String\<close> for an address of four bytes.\<close>

definition ip_String :: "ip \<Rightarrow> string" where
  "ip_String a =
     itoa (unat (a ! 0)) @ ''.'' @ itoa (unat (a ! 1)) @ ''.'' @ itoa (unat (a ! 2)) @ ''.'' @ itoa (unat (a ! 3))"

lemma digit_val_char [simp]: "d < 10 \<Longrightarrow> digit_val (char_of (48 + d)) = Some d"
  by (simp add: digit_val_def)

lemma digit_val_dot [simp]: "digit_val CHR ''.'' = None" "digit_val CHR ''/'' = None"
  by (simp_all add: digit_val_def)

lemma itoa_cases:
  assumes "n < 1000"
  obtains "n < 10" "itoa n = [char_of (48 + n)]"
  | "10 \<le> n" "n < 100" "itoa n = [char_of (48 + n div 10), char_of (48 + n mod 10)]"
  | "100 \<le> n" "itoa n = [char_of (48 + n div 100), char_of (48 + n div 10 mod 10), char_of (48 + n mod 10)]"
proof -
  consider "n < 10" | "10 \<le> n" "n < 100" | "100 \<le> n" by linarith
  then show thesis
  proof cases
    case 1
    then show ?thesis using that(1) by (simp add: itoa.simps)
  next
    case 2
    then have "n div 10 < 10" by simp
    with 2 show ?thesis using that(2) by (simp add: itoa.simps [of n] itoa.simps [of "n div 10"])
  next
    case 3
    then have "\<not> n div 10 < 10" "n div 10 div 10 < 10"
      using assms by (auto simp: div_mult2_eq [symmetric])
    with 3 show ?thesis using that(3)
      by (simp add: itoa.simps [of n] itoa.simps [of "n div 10"] itoa.simps [of "n div 100"]
          div_mult2_eq [symmetric])
  qed
qed

lemma div_mod_digits: "n div 100 * 10 + n div 10 mod 10 = n div 10" "n div 10 * 10 + n mod 10 = n" for n :: nat
  using div_mult_mod_eq [of "n div 10" 10] by (simp_all add: div_mult2_eq [symmetric])

lemma parse_octet:
  assumes "b < 256"
  shows "parse_v4_fields (itoa b @ rest) 0 0 flds = parse_v4_fields rest b (length (itoa b)) flds"
proof -
  have "b < 1000" using assms by simp
  then show ?thesis
  proof (cases rule: itoa_cases)
    case 3
    moreover have "0 < b div 100" "b div 100 < 10"
      using 3 assms by (auto simp: div_greater_zero_iff)
    ultimately show ?thesis using assms div_mod_digits [of b] by (simp, intro impI, linarith)
  next
    case 2
    then show ?thesis using div_mod_digits [of b] by (simp, intro conjI impI) linarith+
  qed (use assms in simp)
qed

lemma itoa_nonempty [simp]: "itoa n \<noteq> []"
  by (subst itoa.simps) simp

lemma parse_v4_String:
  assumes "length a = 4"
  shows "parse_v4_fields (ip_String a) 0 0 [] = Some a"
proof -
  obtain a0 a1 a2 a3 where a: "a = [a0, a1, a2, a3]"
    using assms by (auto simp: numeral_eq_Suc length_Suc_conv)
  have b: "unat w < 256" for w :: u8 using unsigned_less [of w, where 'a = nat] by simp
  show ?thesis
    using parse_octet [OF b, of a3 "[]"] by (simp add: a ip_String_def parse_octet [OF b])
qed

lemma digits_itoa: "digits_value digit_val 10 (itoa n) 0 = Some n"
proof -
  have app: "digits_value digit_val 10 (xs @ [char_of (48 + d)]) v =
      map_option (\<lambda>x. x * 10 + d) (digits_value digit_val 10 xs v)" if "d < 10" for xs d v
    using that by (induction xs arbitrary: v) (auto split: option.splits)
  show ?thesis
  proof (induction n rule: itoa.induct)
    case (1 n)
    show ?case
    proof (cases "n < 10")
      case True
      then show ?thesis by (simp add: itoa.simps [of n])
    next
      case False
      then show ?thesis using 1 app [of "n mod 10" "itoa (n div 10)" 0]
        by (simp add: itoa.simps [of n] div_mod_digits)
    qed
  qed
qed

lemma ParseUint_itoa: "ParseUint (itoa n) 10 bits = (if n < 2 ^ bits then Some n else None)"
  by (simp add: ParseUint_def digits_itoa)

lemma itoa_digits: "c \<in> set (itoa n) \<Longrightarrow> digit_val c \<noteq> None"
proof (induction n rule: itoa.induct)
  case (1 n)
  show ?case
  proof (cases "n < 10")
    case True
    with 1 show ?thesis by (simp add: itoa.simps [of n])
  next
    case False
    with 1 show ?thesis by (auto simp: itoa.simps [of n])
  qed
qed

lemma digit_val_sep [simp]: "digit_val CHR '':'' = None" "digit_val CHR ''%'' = None"
    "digit_val CHR ''-'' = None"
  by (simp_all add: digit_val_def)

lemma itoa_no_sep:
  "c \<in> set (itoa n) \<Longrightarrow> c \<noteq> CHR ''.'' \<and> c \<noteq> CHR '':'' \<and> c \<noteq> CHR ''%'' \<and> c \<noteq> CHR ''/'' \<and> c \<noteq> CHR ''-''"
  using itoa_digits by fastforce

lemma find_skip: "(\<And>x. x \<in> set xs \<Longrightarrow> \<not> P x) \<Longrightarrow> find P (xs @ ys) = find P ys"
  by (induction xs) auto

lemma ParseAddr_String:
  assumes "length a = 4"
  shows "ParseAddr (ip_String a) = Some (v4InV6Prefix @ a, 32)"
proof -
  have "find (\<lambda>c. c \<in> set ''.:%'') (ip_String a) = Some CHR ''.''"
    unfolding ip_String_def by (subst find_skip) (auto dest: itoa_no_sep)
  then show ?thesis by (simp add: ParseAddr_def parse_v4_String [OF assms])
qed

lemma String_no_slash: "c \<in> set (ip_String a) \<Longrightarrow> c \<noteq> CHR ''/''"
  by (auto simp: ip_String_def dest: itoa_no_sep)

text \<open>Masks of IPv4 prefixes as numbers.\<close>

definition cidr_mask :: "nat \<Rightarrow> u32" where
  "cidr_mask n = NOT (mask (32 - n))"

lemma CIDRMask_bytes_4:
  assumes "n \<le> 32"
  shows "CIDRMask_bytes n 4 = int2ip (cidr_mask n)"
proof -
  have "list_all (\<lambda>n. CIDRMask_bytes n 4 = int2ip (cidr_mask n)) [0..<33]" by code_simp
  with assms show ?thesis by (simp add: list_all_iff)
qed

lemma int2ip_and: "map2 (AND) (int2ip v) (int2ip w) = int2ip (v AND w)"
  by (simp add: int2ip_def be_PutUint32_def unsigned_and_eq)

lemma ip_Mask_v4: "ip_Mask (v4InV6Prefix @ int2ip v) (int2ip m) = Some (int2ip (v AND m))"
  by (simp add: ip_Mask_def Let_def int2ip_and) (simp add: v4InV6Prefix_def)

lemma ParseCIDR_v4:
  assumes "n \<le> 32"
  shows "ParseCIDR (ip_String (int2ip v) @ ''/'' @ itoa n) =
    Some (v4InV6Prefix @ int2ip v,
      \<lparr>net_IP = int2ip (v AND cidr_mask n), net_Mask = int2ip (cidr_mask n)\<rparr>)"
proof -
  have "takeWhile (\<lambda>c. c \<noteq> CHR ''/'') (ip_String (int2ip v) @ ''/'' @ itoa n) = ip_String (int2ip v)"
    using String_no_slash by (subst takeWhile_append2) auto
  then show ?thesis
    using assms by (simp add: ParseCIDR_def Let_def ParseAddr_String digits_itoa CIDRMask_bytes_4 ip_Mask_v4)
qed

text \<open>The text of a prefix.\<close>

definition subnet_text :: "u32 \<Rightarrow> nat \<Rightarrow> string" where
  "subnet_text v n = ip_String (int2ip v) @ ''/'' @ itoa n"

lemma Contains_v4:
  "Contains \<lparr>net_IP = int2ip v, net_Mask = int2ip m\<rparr> (int2ip x) \<longleftrightarrow> v AND m = x AND m"
  by (simp add: Contains_def networkNumberAndMask_def Let_def int2ip_and inj_int2ip)

lemma be_Uint32_sum:
  "be_Uint32 [a, b, c, d] = ((ucast a * 256 + ucast b) * 256 + ucast c) * 256 + ucast d"
proof -
  let ?A = "push_bit 24 (ucast a) :: u32" and ?B = "push_bit 16 (ucast b) :: u32"
  let ?C = "push_bit 8 (ucast c) :: u32" and ?D = "ucast d :: u32"
  have 1: "?C OR ?D = ?C + ?D"
    by (rule disjunctive_add [symmetric]) (auto simp: bit_simps dest: bit_imp_le_length)
  have 2: "?B OR (?C OR ?D) = ?B + (?C OR ?D)"
    by (rule disjunctive_add [symmetric]) (auto simp: bit_simps dest: bit_imp_le_length)
  have 3: "?A OR (?B OR (?C OR ?D)) = ?A + (?B OR (?C OR ?D))"
    by (rule disjunctive_add [symmetric]) (auto simp: bit_simps dest: bit_imp_le_length)
  have "be_Uint32 [a, b, c, d] = ?A + (?B + (?C + ?D))"
    using 3 2 1 by (simp add: be_Uint32_def)
  then show ?thesis by (simp add: push_bit_eq_mult algebra_simps)
qed

lemma succ8:
  fixes b :: u8
  assumes "b \<noteq> 255"
  shows "(ucast (b + 1) :: u32) = ucast b + 1" "0 < b + 1"
proof -
  have "unat b < 256" using unsigned_less [of b, where 'a = nat] by simp
  moreover have "unat b \<noteq> 255" using assms by (simp add: word_unat_eq_iff)
  ultimately have b: "unat b < 255" by linarith
  then have s: "unat (b + 1) = unat b + 1" by (simp add: unat_word_ariths)
  then show "0 < b + 1" by (simp add: word_less_nat_alt)
  have "unat (ucast b + 1 :: u32) = unat b + 1" using b by (simp add: unat_word_ariths unat_ucast_up)
  with s show "(ucast (b + 1) :: u32) = ucast b + 1" by (simp add: word_unat_eq_iff unat_ucast_up)
qed

lemma inc_int2ip: "inc (int2ip v) = int2ip (v + 1)"
proof -
  define a b c d :: u8 where "a = ucast (drop_bit 24 v)" and "b = ucast (drop_bit 16 v)"
    and "c = ucast (drop_bit 8 v)" and "d = ucast v"
  have v: "int2ip v = [a, b, c, d]" by (simp add: int2ip_def be_PutUint32_def a_def b_def c_def d_def)
  then have sum: "v = ((ucast a * 256 + ucast b) * 256 + ucast c) * 256 + ucast d"
    using int2ip_simps(2) [of v] by (simp add: ip2int_def be_Uint32_sum)
  have "be_Uint32 (inc [a, b, c, d]) = v + 1"
    unfolding sum inc_def
    by (cases "d = 255"; cases "c = 255"; cases "b = 255"; cases "a = 255")
      (simp_all add: be_Uint32_sum succ8, (simp_all add: algebra_simps)?)
  moreover have "length (inc [a, b, c, d]) = 4" by (simp add: inc_def)
  ultimately have "be_PutUint32 (v + 1) = inc [a, b, c, d]"
    using be_Put_Uint32 [of "inc [a, b, c, d]"] by simp
  then show ?thesis by (simp only: v) (simp add: int2ip_def)
qed

end
