(* ===== verification/Ip_Pool.thy ===== *)
theory Ip_Pool
  imports Go_Net
begin

text \<open>
  Model of \<^verbatim>\<open>pfcpiface/ip_pool.go\<close>, the pool of UE addresses. Every method holds the mutex for
  its whole run and is one atomic step. A pool reference may be nil (no pool configured).
\<close>

record ip_pool =
  freePool :: "ip list"
  inventory :: "u64 \<rightharpoonup> ip"

text \<open>The loop over the subnet; for a subnet of all addresses it does not end.\<close>

partial_function (option) pool_loop :: "ip_net \<Rightarrow> ip \<Rightarrow> ip list \<Rightarrow> ip list option" where
  "pool_loop ipnet a acc =
     (if Contains ipnet a then pool_loop ipnet (inc a) (acc @ [a]) else Some acc)"

definition NewIPPool :: "string \<Rightarrow> ip_pool result option" where
  "NewIPPool poolSubnet =
     (case ParseCIDR poolSubnet of
        None \<Rightarrow> Some (Inl ErrSyntax)
      | Some (a, ipnet) \<Rightarrow>
          do {
            a \<leftarrow> ip_Mask a (net_Mask ipnet);
            pool \<leftarrow> pool_loop ipnet a [];
            if length pool < 2
            then Some (Inl (ErrInvalidArgumentWithReason ''NewIPPool'' ''pool subnet is too small to use as a pool''))
            else Some (Inr \<lparr>freePool = butlast (tl pool), inventory = Map.empty\<rparr>)
          })"

definition LookupOrAllocIP :: "u64 \<Rightarrow> ip_pool option \<Rightarrow> (ip_pool option \<times> ip result) option" where
  "LookupOrAllocIP seid pool =
     (case pool of
        None \<Rightarrow> None
      | Some i \<Rightarrow>
          (case inventory i seid of
             Some a \<Rightarrow> Some (Some i, Inr a)
           | None \<Rightarrow>
               (case freePool i of
                  [] \<Rightarrow> Some (Some i, Inl (ErrOperationFailedWithReason ''IP allocation'' ''ip pool empty''))
                | a # rest \<Rightarrow>
                    Some (Some (i\<lparr>freePool := rest, inventory := (inventory i)(seid \<mapsto> a)\<rparr>), Inr a))))"

definition Release :: "u64 \<Rightarrow> ip_pool option \<Rightarrow> ip_pool option \<times> bool" where
  "Release seid pool =
     (case pool of
        None \<Rightarrow> (None, False)
      | Some i \<Rightarrow>
          (case inventory i seid of
             None \<Rightarrow> (Some i, False)
           | Some a \<Rightarrow>
               (Some (i\<lparr>inventory := (inventory i)(seid := None), freePool := freePool i @ [a]\<rparr>), True)))"

section \<open>Invariant\<close>

text \<open>
  No address is free twice, free and held, or held by two sessions; together the free and
  the held addresses are the pool's addresses.
\<close>

definition pool_inv :: "ip set \<Rightarrow> ip_pool \<Rightarrow> bool" where
  "pool_inv A i \<longleftrightarrow> distinct (freePool i) \<and> set (freePool i) \<inter> ran (inventory i) = {} \<and>
     inj_on (inventory i) (dom (inventory i)) \<and> set (freePool i) \<union> ran (inventory i) = A"

lemma inj_on_upd:
  assumes "inj_on m (dom m)" and "y \<notin> ran m"
  shows "inj_on (m(x \<mapsto> y)) (dom (m(x \<mapsto> y)))"
  using assms by (auto simp: inj_on_def dom_def ran_def)

lemma ran_del:
  assumes "inj_on m (dom m)" and "m x = Some y"
  shows "ran (m(x := None)) = ran m - {y}"
proof -
  have "m a = Some y \<longleftrightarrow> a = x" for a using assms by (auto simp: inj_on_def dom_def)
  then have "(m(x := None)) a = Some z \<longleftrightarrow> m a = Some z \<and> z \<noteq> y" for a z
    by (metis assms(2) fun_upd_apply option.distinct(1) option.inject)
  then show ?thesis by (auto simp: ran_def)
qed

lemma LookupOrAllocIP_post:
  assumes "pool_inv A i"
  shows "\<exists>i' r. LookupOrAllocIP seid (Some i) = Some (Some i', r) \<and> pool_inv A i' \<and>
    (case r of
       Inr a \<Rightarrow> a \<in> A \<and> inventory i' = (inventory i)(seid \<mapsto> a) \<and>
         (\<forall>s. s \<noteq> seid \<longrightarrow> inventory i s \<noteq> Some a) \<and> (inventory i seid \<noteq> None \<longrightarrow> i' = i)
     | Inl e \<Rightarrow> i' = i \<and> inventory i seid = None \<and> ran (inventory i) = A)"
proof (cases "inventory i seid")
  case (Some a)
  then have "a \<in> ran (inventory i)" by (auto simp: ran_def)
  then have "a \<in> A" using assms by (auto simp: pool_inv_def)
  moreover have "\<forall>s. s \<noteq> seid \<longrightarrow> inventory i s \<noteq> Some a"
    using assms Some by (auto simp: pool_inv_def inj_on_def dom_def)
  moreover have "inventory i = (inventory i)(seid \<mapsto> a)" using Some by auto
  ultimately show ?thesis using assms Some by (simp add: LookupOrAllocIP_def)
next
  case None
  show ?thesis
  proof (cases "freePool i")
    case Nil
    then show ?thesis using assms None by (simp add: LookupOrAllocIP_def pool_inv_def)
  next
    case (Cons a rest)
    let ?i = "i\<lparr>freePool := rest, inventory := (inventory i)(seid \<mapsto> a)\<rparr>"
    have a: "a \<notin> ran (inventory i)" using assms Cons by (auto simp: pool_inv_def)
    then have "pool_inv A ?i"
      using assms Cons None inj_on_upd [of "inventory i" a seid]
      by (auto simp: pool_inv_def ran_map_upd)
    moreover have "\<forall>s. inventory i s \<noteq> Some a" using a by (auto simp: ran_def)
    ultimately show ?thesis using assms Cons None by (auto simp: LookupOrAllocIP_def pool_inv_def)
  qed
qed

lemma Release_post:
  assumes "pool_inv A i"
  shows "\<exists>i'. Release seid (Some i) = (Some i', inventory i seid \<noteq> None) \<and> pool_inv A i' \<and>
    inventory i' = (inventory i)(seid := None) \<and> (inventory i seid = None \<longrightarrow> i' = i)"
proof (cases "inventory i seid")
  case None
  then have "(inventory i)(seid := None) = inventory i" by auto
  then show ?thesis using assms None by (simp add: Release_def)
next
  case (Some a)
  let ?i = "i\<lparr>inventory := (inventory i)(seid := None), freePool := freePool i @ [a]\<rparr>"
  have inj: "inj_on (inventory i) (dom (inventory i))" using assms by (simp add: pool_inv_def)
  then have "inj_on ((inventory i)(seid := None)) (dom ((inventory i)(seid := None)))"
    by (auto simp: inj_on_def dom_def)
  moreover have "a \<in> ran (inventory i)" using Some by (auto simp: ran_def)
  ultimately have "pool_inv A ?i" using assms ran_del [OF inj Some] by (auto simp: pool_inv_def)
  then show ?thesis using Some by (simp add: Release_def)
qed

section \<open>Construction\<close>

lemma cidr_base: "v AND cidr_mask n = push_bit (32 - n) (drop_bit (32 - n) v)"
  by (simp add: cidr_mask_def and_not_mask)

lemma cidr_eq:
  "v AND cidr_mask n = x AND cidr_mask n \<longleftrightarrow> unat v div 2 ^ (32 - n) = unat x div 2 ^ (32 - n)"
proof -
  have d: "drop_bit (32 - n) (w AND cidr_mask n) = drop_bit (32 - n) w" for w
    by (rule bit_word_eqI) (auto simp: cidr_mask_def bit_simps dest: bit_imp_le_length)
  have "v AND cidr_mask n = x AND cidr_mask n \<longleftrightarrow> drop_bit (32 - n) v = drop_bit (32 - n) x"
  proof
    assume "v AND cidr_mask n = x AND cidr_mask n"
    then show "drop_bit (32 - n) v = drop_bit (32 - n) x" using d [of v] d [of x] by (simp only:)
  qed (simp only: cidr_base)
  then show ?thesis by (simp add: word_unat_eq_iff unat_drop_bit)
qed

lemma unat_cidr_base: "unat (v AND cidr_mask n) = unat v div 2 ^ (32 - n) * 2 ^ (32 - n)"
  by (simp add: cidr_mask_def unat_and_not_mask)

text \<open>The addresses of a prefix, numbered from its first.\<close>

abbreviation addr :: "u32 \<Rightarrow> nat \<Rightarrow> nat \<Rightarrow> ip" where
  "addr v n j \<equiv> int2ip ((v AND cidr_mask n) + of_nat j)"

abbreviation prefix :: "u32 \<Rightarrow> nat \<Rightarrow> ip_net" where
  "prefix v n \<equiv> \<lparr>net_IP = int2ip (v AND cidr_mask n), net_Mask = int2ip (cidr_mask n)\<rparr>"

lemma prefix_room: "unat (v AND cidr_mask n) + 2 ^ (32 - n) \<le> 2 ^ 32" if "n \<le> 32"
proof -
  have p: "(2 :: nat) ^ 32 = 2 ^ n * 2 ^ (32 - n)" using that by (simp add: power_add [symmetric])
  have "unat v < 2 ^ 32" using unsigned_less [of v, where 'a = nat] by simp
  then have "unat v div 2 ^ (32 - n) < 2 ^ n" unfolding p by (simp add: less_mult_imp_div_less)
  then have "(unat v div 2 ^ (32 - n) + 1) * 2 ^ (32 - n) \<le> 2 ^ n * 2 ^ (32 - n)"
    by (intro mult_right_mono) auto
  then show ?thesis unfolding unat_cidr_base p by (simp add: algebra_simps)
qed

lemma unat_addr:
  assumes "n \<le> 32" "j < 2 ^ (32 - n)"
  shows "unat ((v AND cidr_mask n) + of_nat j) = unat (v AND cidr_mask n) + j"
proof -
  have "unat (v AND cidr_mask n) + j < 2 ^ 32" using prefix_room [OF assms(1), of v] assms(2) by linarith
  then show ?thesis by (simp add: unat_word_ariths unat_of_nat)
qed

lemma Contains_addr:
  assumes "n \<le> 32" "j < 2 ^ (32 - n)"
  shows "Contains (prefix v n) (addr v n j)"
  unfolding Contains_v4 cidr_eq unat_addr [OF assms] using assms(2) by (simp add: unat_cidr_base)

lemma div_next_differs:
  fixes b p M :: nat
  assumes "0 < p" "2 * p \<le> M" "b + p \<le> M"
  shows "b div p \<noteq> (b + p) mod M div p"
proof (cases "b + p = M")
  case True
  then have "0 < b div p" using assms by (simp add: div_greater_zero_iff)
  with True show ?thesis by simp
qed (use assms in \<open>simp add: div_add_self2\<close>)

lemma not_Contains_end:
  assumes "1 \<le> n" "n \<le> 32"
  shows "\<not> Contains (prefix v n) (addr v n (2 ^ (32 - n)))"
proof -
  let ?b = "unat (v AND cidr_mask n)" and ?p = "2 ^ (32 - n) :: nat"
  have s: "unat ((v AND cidr_mask n) + of_nat ?p) = (?b + ?p) mod 2 ^ 32"
    using assms by (simp add: unat_word_ariths unat_pow2)
  have "2 * ?p \<le> 2 ^ 32" using assms power_increasing [of "Suc (32 - n)" 32 "2 :: nat"] by simp
  then have "?b div ?p \<noteq> ((?b + ?p) mod 2 ^ 32) div ?p"
    using prefix_room [OF assms(2), of v] by (intro div_next_differs) auto
  then show ?thesis unfolding Contains_v4 cidr_eq s by simp
qed

lemma pool_loop_prefix:
  assumes n: "1 \<le> n" "n \<le> 32" and "j \<le> 2 ^ (32 - n)"
  shows "pool_loop (prefix v n) (addr v n j) acc = Some (acc @ map (addr v n) [j..<2 ^ (32 - n)])"
  using assms(3)
proof (induction "2 ^ (32 - n) - j" arbitrary: j acc)
  case 0
  then show ?case using not_Contains_end [OF n, of v] by (simp add: pool_loop.simps)
next
  case (Suc d)
  then have j: "j < 2 ^ (32 - n)" by simp
  have "pool_loop (prefix v n) (addr v n j) acc = pool_loop (prefix v n) (addr v n (Suc j)) (acc @ [addr v n j])"
    using Contains_addr [OF n(2) j, of v] by (subst pool_loop.simps) (simp add: inc_int2ip algebra_simps)
  also have "\<dots> = Some ((acc @ [addr v n j]) @ map (addr v n) [Suc j..<2 ^ (32 - n)])"
    using Suc j by (intro Suc.hyps(1)) auto
  finally show ?case using j by (simp add: upt_conv_Cons)
qed

lemma pool_loop_ends:
  assumes "pool_loop net a acc = Some r"
  shows "(\<forall>x. Contains net (int2ip x)) \<longrightarrow> (\<forall>v. a \<noteq> int2ip v)"
  by (rule pool_loop.raw_induct [OF _ assms]) (auto simp: inc_int2ip split: if_splits, metis)

lemma pool_loop_all: "(\<And>x. Contains net (int2ip x)) \<Longrightarrow> pool_loop net (int2ip v) acc = None"
  using pool_loop_ends [of net "int2ip v" acc] by fastforce

lemma butlast_upt: "butlast [i..<j] = [i..<j - 1]"
  by (cases j) auto

lemma distinct_addr: "n \<le> 32 \<Longrightarrow> distinct (map (addr v n) [0..<2 ^ (32 - n)])"
  by (auto simp: distinct_map inj_on_def inj_int2ip word_unat_eq_iff unat_addr)

text \<open>The host addresses of a prefix.\<close>

definition subnet_hosts :: "u32 \<Rightarrow> nat \<Rightarrow> ip list" where
  "subnet_hosts v n = map (\<lambda>j. int2ip ((v AND cidr_mask n) + of_nat j)) [1..<2 ^ (32 - n) - 1]"

lemma NewIPPool_facts:
  assumes "n \<le> 32"
  shows "NewIPPool (subnet_text v n) =
      (if n = 0 then None
       else if n = 32
       then Some (Inl (ErrInvalidArgumentWithReason ''NewIPPool'' ''pool subnet is too small to use as a pool''))
       else Some (Inr \<lparr>freePool = subnet_hosts v n, inventory = Map.empty\<rparr>)) \<and>
    distinct (subnet_hosts v n) \<and> pool_inv (set (subnet_hosts v n)) \<lparr>freePool = subnet_hosts v n, inventory = Map.empty\<rparr>"
proof -
  note parse = ParseCIDR_v4 [OF assms(1), of v, folded subnet_text_def]
  have d: "distinct (subnet_hosts v n)"
    using distinct_addr [OF assms(1), of v] by (auto simp: subnet_hosts_def distinct_map inj_on_def)
  have mask: "ip_Mask (v4InV6Prefix @ int2ip v) (int2ip (cidr_mask n)) = Some (int2ip (v AND cidr_mask n))"
    by (rule ip_Mask_v4)
  consider "n = 0" | "1 \<le> n" by linarith
  then have "NewIPPool (subnet_text v n) = (if n = 0 then None
       else if n = 32
       then Some (Inl (ErrInvalidArgumentWithReason ''NewIPPool'' ''pool subnet is too small to use as a pool''))
       else Some (Inr \<lparr>freePool = subnet_hosts v n, inventory = Map.empty\<rparr>))"
  proof cases
    case 1
    have "Contains (prefix v 0) (int2ip x)" for x
      using unsigned_less [of x, where 'a = nat] unsigned_less [of "v AND cidr_mask 0", where 'a = nat]
      unfolding Contains_v4 cidr_eq by simp
    then have "pool_loop (prefix v 0) (int2ip (v AND cidr_mask 0)) [] = None" by (rule pool_loop_all)
    then show ?thesis using 1 parse mask by (simp add: NewIPPool_def)
  next
    case 2
    have "1 < (2 :: nat) ^ (32 - n)" if "n \<noteq> 32" using that assms(1) by (intro one_less_power) auto
    then have e: "\<not> (2 :: nat) ^ (32 - n) < 2" if "n \<noteq> 32" using that by simp
    have "butlast (tl (map (addr v n) [0..<2 ^ (32 - n)])) = subnet_hosts v n"
      by (simp add: subnet_hosts_def map_tl [symmetric] map_butlast [symmetric] tl_upt butlast_upt)
    moreover have "pool_loop (prefix v n) (int2ip (v AND cidr_mask n)) [] =
        Some (map (addr v n) [0..<2 ^ (32 - n)])"
      using pool_loop_prefix [OF 2 assms(1), of 0 v "[]"] by simp
    ultimately show ?thesis using 2 e parse mask by (simp add: NewIPPool_def)
  qed
  with d show ?thesis by (simp add: pool_inv_def)
qed

text \<open>
  C30. A new pool over an IPv4 prefix of length 1 to 31 has as its free addresses, in order and
  without repetition, the addresses of the prefix except the first (network) and the last
  (broadcast); a /32 is refused as too small, and over a /0 the constructor does not return.
\<close>

theorem NewIPPool_hosts:
  assumes "n \<le> 32"
  shows "NewIPPool (subnet_text v n) =
      (if n = 0 then None
       else if n = 32
       then Some (Inl (ErrInvalidArgumentWithReason ''NewIPPool'' ''pool subnet is too small to use as a pool''))
       else Some (Inr \<lparr>freePool = subnet_hosts v n, inventory = Map.empty\<rparr>)) \<and>
    distinct (subnet_hosts v n) \<and> pool_inv (set (subnet_hosts v n)) \<lparr>freePool = subnet_hosts v n, inventory = Map.empty\<rparr>"
  by (rule NewIPPool_facts [OF assms])

theorem NewIPPool_hosts_witness:
  "NewIPPool (subnet_text 0x0A000000 30) =
     Some (Inr \<lparr>freePool = [[10, 0, 0, 1], [10, 0, 0, 2]], inventory = Map.empty\<rparr>)"
proof -
  have "subnet_hosts 0x0A000000 30 = [[10, 0, 0, 1], [10, 0, 0, 2]]" by code_simp
  then show ?thesis using NewIPPool_hosts [of 30 "0x0A000000"] by simp
qed

section \<open>Leases\<close>

text \<open>The leases of a configured pool; the invariant is about such a pool.\<close>

definition pool_leases :: "ip_pool option \<Rightarrow> u64 \<rightharpoonup> ip" where
  "pool_leases pool = (case pool of None \<Rightarrow> Map.empty | Some i \<Rightarrow> inventory i)"

definition pool_ok :: "ip set \<Rightarrow> ip_pool option \<Rightarrow> bool" where
  "pool_ok A pool = (case pool of None \<Rightarrow> False | Some i \<Rightarrow> pool_inv A i)"

lemma LookupOrAllocIP_law:
  assumes "pool_ok A pool"
  shows "\<exists>pool' r. LookupOrAllocIP seid pool = Some (pool', r) \<and> pool_ok A pool' \<and>
    (case r of
       Inr a \<Rightarrow> (pool_leases pool seid = Some a \<or>
           pool_leases pool seid = None \<and> a \<in> A \<and> a \<notin> ran (pool_leases pool)) \<and>
         pool_leases pool' = (pool_leases pool)(seid \<mapsto> a)
     | Inl e \<Rightarrow> pool_leases pool seid = None \<and> A \<subseteq> ran (pool_leases pool) \<and>
         pool_leases pool' = pool_leases pool)"
proof -
  obtain i where i: "pool = Some i" "pool_inv A i" using assms by (cases pool) (auto simp: pool_ok_def)
  obtain i' r where r: "LookupOrAllocIP seid (Some i) = Some (Some i', r)" "pool_inv A i'"
    and post: "case r of
       Inr a \<Rightarrow> a \<in> A \<and> inventory i' = (inventory i)(seid \<mapsto> a) \<and>
         (\<forall>s. s \<noteq> seid \<longrightarrow> inventory i s \<noteq> Some a) \<and> (inventory i seid \<noteq> None \<longrightarrow> i' = i)
     | Inl e \<Rightarrow> i' = i \<and> inventory i seid = None \<and> ran (inventory i) = A"
    using LookupOrAllocIP_post [OF i(2), of seid] by blast
  show ?thesis
  proof (cases r)
    case (Inr a)
    then have p: "inventory i' = (inventory i)(seid \<mapsto> a)" "\<forall>s. s \<noteq> seid \<longrightarrow> inventory i s \<noteq> Some a"
      "inventory i seid \<noteq> None \<longrightarrow> i' = i" using post by simp_all
    have "inventory i seid = Some a \<or> inventory i seid = None \<and> a \<notin> ran (inventory i)"
    proof (cases "inventory i seid")
      case None
      then have "inventory i s \<noteq> Some a" for s using p(2) by (cases "s = seid") auto
      then show ?thesis using None by (auto simp: ran_def)
    next
      case (Some b)
      then have "i' = i" using p(3) by simp
      then have "inventory i seid = ((inventory i)(seid \<mapsto> a)) seid" using p(1) by simp
      then show ?thesis by simp
    qed
    then show ?thesis using i r post Inr by (auto simp: pool_ok_def pool_leases_def)
  next
    case (Inl e)
    then show ?thesis using i r post by (auto simp: pool_ok_def pool_leases_def)
  qed
qed

lemma Release_law:
  assumes "pool_ok A pool"
  shows "\<exists>pool'. Release seid pool = (pool', pool_leases pool seid \<noteq> None) \<and> pool_ok A pool' \<and>
    pool_leases pool' = (pool_leases pool)(seid := None)"
proof -
  obtain i where i: "pool = Some i" "pool_inv A i" using assms by (cases pool) (auto simp: pool_ok_def)
  then show ?thesis using Release_post [OF i(2), of seid] by (auto simp: pool_ok_def pool_leases_def)
qed

interpretation ue_pool: lease_pool LookupOrAllocIP Release pool_leases pool_ok
  by unfold_locales (fact LookupOrAllocIP_law, fact Release_law)

text \<open>
  C12. For every sequence of address requests and releases on a pool over an IPv4 prefix:
  no address is ever leased to two sessions at once, a session keeps its address until it is
  released, only host addresses of the prefix are leased, a request is refused only when all of
  them are leased, and a release reports whether there was a lease.
\<close>

theorem IPPool_leases:
  assumes "1 \<le> n" "n < 32"
  shows "\<exists>pool pool' es. NewIPPool (subnet_text v n) = Some (Inr pool) \<and>
    lease_run LookupOrAllocIP Release ops (Some pool) = Some (Some pool', es) \<and>
    leases_ok (set (subnet_hosts v n)) es Map.empty \<and>
    inventory pool' = leases_after es Map.empty \<and> pool_inv (set (subnet_hosts v n)) pool'"
proof -
  let ?pool = "\<lparr>freePool = subnet_hosts v n, inventory = Map.empty\<rparr>"
  have "n \<le> 32" using assms by simp
  from NewIPPool_facts [OF this, of v] assms
  have new: "NewIPPool (subnet_text v n) = Some (Inr ?pool)" "pool_ok (set (subnet_hosts v n)) (Some ?pool)"
    by (auto simp: pool_ok_def)
  obtain s' es where "lease_run LookupOrAllocIP Release ops (Some ?pool) = Some (s', es)"
    "pool_ok (set (subnet_hosts v n)) s'" "pool_leases s' = leases_after es (pool_leases (Some ?pool))"
    "leases_ok (set (subnet_hosts v n)) es (pool_leases (Some ?pool))"
    using ue_pool.lease_run_ok [OF new(2), of ops] by blast
  then show ?thesis using new(1) by (cases s') (auto simp: pool_ok_def pool_leases_def)
qed

theorem IPPool_leases_witness:
  "\<exists>pool pool' es. NewIPPool (subnet_text 0x0A000000 30) = Some (Inr pool) \<and>
    lease_run LookupOrAllocIP Release [LeaseOp 1, LeaseOp 2, LeaseOp 3, ReturnOp 1] (Some pool) =
      Some (Some pool', es) \<and>
    leases_ok (set (subnet_hosts 0x0A000000 30)) es Map.empty"
  using IPPool_leases [of 30 "0x0A000000" "[LeaseOp 1, LeaseOp 2, LeaseOp 3, ReturnOp 1]"] by auto

end
