(* ===== verification/Port_Range.thy ===== *)
theory Port_Range
  imports Go_Prelude
begin

text \<open>
  Model of the port ranges of \<^verbatim>\<open>pfcpiface/parse_pdr.go\<close> and of their translation into value/mask
  rules for the ternary match table of the datapath. The two loops of buildTernaryRules are
  partial functions; the lemmas show that they end.
\<close>

section \<open>Port ranges\<close>

record port_range =
  low :: u16
  high :: u16

definition MaxUint16 :: u16 where
  "MaxUint16 = 0xFFFF"

definition newWildcardPortRange :: port_range where
  "newWildcardPortRange = \<lparr>low = 0, high = MaxUint16\<rparr>"

definition newExactMatchPortRange :: "u16 \<Rightarrow> port_range" where
  "newExactMatchPortRange port = \<lparr>low = port, high = port\<rparr>"

definition newRangeMatchPortRange :: "u16 \<Rightarrow> u16 \<Rightarrow> port_range" where
  "newRangeMatchPortRange l h = (if l > h then \<lparr>low = 0, high = 0\<rparr> else \<lparr>low = l, high = h\<rparr>)"

definition isWildcardMatch :: "port_range \<Rightarrow> bool" where
  "isWildcardMatch pr \<longleftrightarrow> low pr = 0 \<and> high pr = MaxUint16 \<or> low pr = 0 \<and> high pr = 0"

definition isExactMatch :: "port_range \<Rightarrow> bool" where
  "isExactMatch pr \<longleftrightarrow> low pr = high pr \<and> high pr \<noteq> 0"

definition isRangeMatch :: "port_range \<Rightarrow> bool" where
  "isRangeMatch pr \<longleftrightarrow> \<not> isExactMatch pr \<and> \<not> isWildcardMatch pr"

definition Width :: "port_range \<Rightarrow> u16" where
  "Width pr = (if isWildcardMatch pr then MaxUint16 else high pr - low pr + 1)"

definition sameMatch :: "port_range \<Rightarrow> port_range \<Rightarrow> bool" where
  "sameMatch pr other \<longleftrightarrow> pr = other \<or> isWildcardMatch pr \<and> isWildcardMatch other"

section \<open>Ternary rules\<close>

record ternary_rule =
  rule_port :: u16
  rule_mask :: u16

definition asExactMatchUnchecked :: "port_range \<Rightarrow> ternary_rule" where
  "asExactMatchUnchecked pr = \<lparr>rule_port = low pr, rule_mask = MaxUint16\<rparr>"

definition asTrivialTernaryMatch :: "port_range \<Rightarrow> ternary_rule result" where
  "asTrivialTernaryMatch pr =
     (if isWildcardMatch pr then Inr \<lparr>rule_port = 0, rule_mask = 0\<rparr>
      else if isExactMatch pr then Inr (asExactMatchUnchecked pr)
      else Inl (ErrInvalidArgumentWithReason ''asTrivialTernaryMatch'' ''not trivially convertible''))"

definition maxPort :: "u16 \<Rightarrow> u16 \<Rightarrow> u16" where
  "maxPort port msk = (let xid = MaxUint16 - msk; nid = port AND msk in nid + xid)"

partial_function (option) portMask_loop ::
  "u16 \<Rightarrow> u16 \<Rightarrow> u16 \<Rightarrow> u16 \<Rightarrow> u16 \<Rightarrow> u16 \<Rightarrow> u16 \<Rightarrow> u16 option" where
  "portMask_loop port ending bt msk testMask netPort maximumPort =
     (if netPort > 0 \<and> maximumPort < ending
      then let netPort = port AND testMask
           in if netPort < port then Some msk
              else let maximumPort = maxPort netPort testMask;
                       msk = (if maximumPort \<le> ending then testMask else msk)
                   in portMask_loop port ending (push_bit 1 bt) msk (testMask - bt) netPort maximumPort
      else Some msk)"

definition portMask :: "u16 \<Rightarrow> u16 \<Rightarrow> u16 option" where
  "portMask port ending =
     (let netPort = port AND MaxUint16; maximumPort = maxPort netPort MaxUint16
      in portMask_loop port ending 1 MaxUint16 MaxUint16 netPort maximumPort)"

partial_function (option) ternary_loop ::
  "u16 \<Rightarrow> u32 \<Rightarrow> ternary_rule list \<Rightarrow> ternary_rule list option" where
  "ternary_loop ending port rules =
     (if port \<le> ucast ending
      then do {
        msk \<leftarrow> portMask (ucast port) ending;
        ternary_loop ending (ucast (maxPort (ucast port) msk) + 1)
          (rules @ [\<lparr>rule_port = ucast port, rule_mask = msk\<rparr>])
      }
      else Some rules)"

definition buildTernaryRules :: "port_range \<Rightarrow> ternary_rule list option" where
  "buildTernaryRules pr = ternary_loop (high pr) (ucast (low pr)) []"

datatype range_conversion_strategy = Exact | Ternary | OtherStrategy int

definition asComplexTernaryMatches ::
  "port_range \<Rightarrow> range_conversion_strategy \<Rightarrow> ternary_rule list result option" where
  "asComplexTernaryMatches pr strategy =
     (if isExactMatch pr then Some (Inr [asExactMatchUnchecked pr])
      else if isWildcardMatch pr then Some (Inr [\<lparr>rule_port = 0, rule_mask = 0\<rparr>])
      else
        case strategy of
          Exact \<Rightarrow>
            if Width pr > 100
            then Some (Inl (ErrInvalidArgumentWithReason ''asComplexTernaryMatches''
                   ''port range too wide for exact match strategy''))
            else Some (Inr (map (\<lambda>port. \<lparr>rule_port = of_nat port, rule_mask = MaxUint16\<rparr>)
                   [unat (low pr)..<unat (high pr) + 1]))
        | Ternary \<Rightarrow> map_option Inr (buildTernaryRules pr)
        | OtherStrategy _ \<Rightarrow> Some (Inl (ErrInvalidArgument ''asComplexTernaryMatches'')))"

record port_product =
  srcPort :: u16
  srcMask :: u16
  dstPort :: u16
  dstMask :: u16

definition buildRulesFromRange :: "ternary_rule list \<Rightarrow> ternary_rule \<Rightarrow> bool \<Rightarrow> port_product list" where
  "buildRulesFromRange rangeRules fixedRule isSrcRange =
     map (\<lambda>r.
       if isSrcRange
       then \<lparr>srcPort = rule_port r, srcMask = rule_mask r,
             dstPort = rule_port fixedRule, dstMask = rule_mask fixedRule\<rparr>
       else \<lparr>srcPort = rule_port fixedRule, srcMask = rule_mask fixedRule,
             dstPort = rule_port r, dstMask = rule_mask r\<rparr>) rangeRules"

definition CreatePortRangeCartesianProduct ::
  "port_range \<Rightarrow> port_range \<Rightarrow> port_product list result option" where
  "CreatePortRangeCartesianProduct src dst =
     (if isRangeMatch src \<and> isRangeMatch dst
      then Some (Inl (ErrInvalidArgumentWithReason ''CreatePortRangeCartesianProduct''
             ''src and dst ports cannot both be a range match''))
      else if isRangeMatch src then
        do {
          r \<leftarrow> asComplexTernaryMatches src Exact;
          Some (bind_result r (\<lambda>srcTernaryRules.
            bind_result (asTrivialTernaryMatch dst) (\<lambda>dstTernary.
              Inr (buildRulesFromRange srcTernaryRules dstTernary True))))
        }
      else if isRangeMatch dst then
        do {
          r \<leftarrow> asComplexTernaryMatches dst Exact;
          Some (bind_result r (\<lambda>dstTernaryRules.
            bind_result (asTrivialTernaryMatch src) (\<lambda>srcTernary.
              Inr (buildRulesFromRange dstTernaryRules srcTernary False))))
        }
      else
        Some (bind_result (asTrivialTernaryMatch src) (\<lambda>srcTernary.
          bind_result (asTrivialTernaryMatch dst) (\<lambda>dstTernary.
            Inr [\<lparr>srcPort = rule_port srcTernary, srcMask = rule_mask srcTernary,
                  dstPort = rule_port dstTernary, dstMask = rule_mask dstTernary\<rparr>]))))"

section \<open>Masks\<close>

text \<open>The masks the loops use leave the lowest bits open.\<close>

abbreviation lmask :: "nat \<Rightarrow> u16" where
  "lmask m \<equiv> NOT (mask m)"

lemma MaxUint16_lmask: "MaxUint16 = lmask 0"
  by (simp add: MaxUint16_def)

lemma unat_le_Max: "unat p \<le> 65535" for p :: u16
  using unsigned_less [of p, where 'a = nat] by simp

lemma lmask_16 [simp]: "lmask 16 = 0"
  by (rule bit_word_eqI) (simp add: bit_simps)

lemma lmask_step:
  assumes "i < 16"
  shows "lmask i - push_bit i 1 = lmask (Suc i)"
proof -
  have "mask (Suc i) = (mask i :: u16) + push_bit i 1"
    by (simp add: mask_eq_exp_minus_1 push_bit_eq_mult)
  then show ?thesis by (simp add: not_eq_complement)
qed

lemma unat_mask16:
  assumes "m \<le> 16"
  shows "unat (mask m :: u16) = 2 ^ m - 1"
proof -
  have "unat (take_bit m (- 1 :: u16)) = take_bit m (mask 16)"
    by (simp only: unsigned_take_bit_eq) (simp add: unsigned_minus_1_eq_mask)
  also have "\<dots> = mask m" using assms by (simp add: take_bit_of_mask min_def)
  finally show ?thesis by (simp add: mask_eq_exp_minus_1)
qed

lemma maxPort_lmask:
  assumes "m \<le> 16"
  shows "unat (maxPort p (lmask m)) = unat p div 2 ^ m * 2 ^ m + (2 ^ m - 1)"
proof -
  have x: "MaxUint16 - lmask m = mask m" by (simp add: MaxUint16_def not_eq_complement)
  have p: "(2 :: nat) ^ 16 = 2 ^ (16 - m) * 2 ^ m" using assms by (simp add: power_add [symmetric])
  have "unat p < 2 ^ 16" using unsigned_less [of p, where 'a = nat] by simp
  then have "unat p div 2 ^ m < 2 ^ (16 - m)" unfolding p by (simp add: less_mult_imp_div_less)
  then have "(unat p div 2 ^ m + 1) * 2 ^ m \<le> 2 ^ 16" unfolding p by (intro mult_right_mono) auto
  then have "unat p div 2 ^ m * 2 ^ m + (2 ^ m - 1) < 65536"
    using zero_less_power [of "2 :: nat" m] by (simp add: algebra_simps)
  then show ?thesis
    by (simp add: maxPort_def Let_def x unat_word_ariths unat_and_not_mask unat_mask16 assms)
qed

text \<open>A mask is good for a port: its block starts at the port and does not pass the end.\<close>

definition good_mask :: "u16 \<Rightarrow> u16 \<Rightarrow> nat \<Rightarrow> bool" where
  "good_mask port ending m \<longleftrightarrow> m \<le> 16 \<and> 2 ^ m dvd unat port \<and> unat port + (2 ^ m - 1) \<le> unat ending"

lemma portMask_loop_result:
  assumes "i \<le> 16" and "good_mask port ending m" and "netPort > 0 \<Longrightarrow> port > 0"
  shows "\<exists>m'. portMask_loop port ending (push_bit i 1) (lmask m) (lmask i) netPort maximumPort =
      Some (lmask m') \<and> good_mask port ending m'"
  using assms
proof (induction "16 - i" arbitrary: i m netPort maximumPort)
  case 0
  then have "i = 16" by simp
  then have "portMask_loop port ending (push_bit i 1) (lmask m) (lmask i) netPort maximumPort = Some (lmask m)"
    using 0 by (subst portMask_loop.simps) (simp add: Let_def)
  with 0 show ?case by blast
next
  case (Suc d)
  let ?n = "port AND lmask i"
  let ?x = "maxPort ?n (lmask i)"
  show ?case
  proof (cases "netPort > 0 \<and> maximumPort < ending \<and> \<not> ?n < port")
    case False
    then have "portMask_loop port ending (push_bit i 1) (lmask m) (lmask i) netPort maximumPort = Some (lmask m)"
      by (subst portMask_loop.simps) (auto simp: Let_def)
    with Suc show ?thesis by blast
  next
    case True
    have i: "i < 16" using Suc.hyps(2) by simp
    have "unat port div 2 ^ i * 2 ^ i \<ge> unat port"
      using True by (simp add: word_less_nat_alt unat_and_not_mask)
    moreover have "unat port div 2 ^ i * 2 ^ i \<le> unat port" by simp
    ultimately have e: "unat port div 2 ^ i * 2 ^ i = unat port" by (rule antisym [rotated])
    then have n: "?n = port" by (simp add: word_unat_eq_iff unat_and_not_mask)
    define m1 where "m1 = (if ?x \<le> ending then i else m)"
    have "good_mask port ending m1"
    proof (cases "?x \<le> ending")
      case le: True
      then have "unat port + (2 ^ i - 1) \<le> unat ending"
        using i e by (simp add: word_le_nat_alt n maxPort_lmask)
      moreover have "2 ^ i dvd unat port" using e by (metis dvd_triv_right)
      ultimately show ?thesis using i le by (simp add: good_mask_def m1_def)
    qed (simp add: m1_def Suc.prems)
    moreover have "portMask_loop port ending (push_bit i 1) (lmask m) (lmask i) netPort maximumPort =
        portMask_loop port ending (push_bit (Suc i) 1) (lmask m1) (lmask (Suc i)) ?n ?x"
      using True by (subst portMask_loop.simps) (simp add: Let_def m1_def lmask_step [OF i, symmetric] mult.commute)
    moreover have "d = 16 - Suc i" "Suc i \<le> 16" using Suc.hyps(2) by simp_all
    ultimately show ?thesis
      using Suc.hyps(1) [of "Suc i" m1 ?n ?x] n by (simp only:)
  qed
qed

lemma portMask_result:
  assumes "port \<le> ending"
  shows "\<exists>m. portMask port ending = Some (lmask m) \<and> good_mask port ending m"
proof -
  have "good_mask port ending 0" using assms by (simp add: good_mask_def word_le_nat_alt)
  from portMask_loop_result [of 0, OF _ this, of "port AND MaxUint16" "maxPort (port AND MaxUint16) MaxUint16"]
  show ?thesis by (simp add: portMask_def Let_def MaxUint16_lmask)
qed

section \<open>What rules match\<close>

definition rule_matches :: "ternary_rule \<Rightarrow> u16 \<Rightarrow> bool" where
  "rule_matches r p \<longleftrightarrow> p AND rule_mask r = rule_port r AND rule_mask r"

lemma rule_matches_lmask:
  assumes "2 ^ m dvd unat port"
  shows "rule_matches \<lparr>rule_port = port, rule_mask = lmask m\<rparr> p \<longleftrightarrow>
    unat port \<le> unat p \<and> unat p < unat port + 2 ^ m"
proof -
  obtain k where k: "unat port = 2 ^ m * k" using assms by (rule dvdE)
  have "rule_matches \<lparr>rule_port = port, rule_mask = lmask m\<rparr> p \<longleftrightarrow> unat p div 2 ^ m = k"
    by (simp add: rule_matches_def word_unat_eq_iff unat_and_not_mask k)
  also have "\<dots> \<longleftrightarrow> k * 2 ^ m \<le> unat p \<and> unat p < Suc k * 2 ^ m"
  proof
    assume "unat p div 2 ^ m = k"
    then show "k * 2 ^ m \<le> unat p \<and> unat p < Suc k * 2 ^ m"
      using dividend_less_div_times [of "2 ^ m" "unat p"] by auto
  qed (intro div_nat_eqI, auto simp: algebra_simps)
  finally show ?thesis by (simp add: k algebra_simps)
qed

lemma rule_matches_Max: "rule_matches \<lparr>rule_port = port, rule_mask = MaxUint16\<rparr> p \<longleftrightarrow> p = port"
  by (simp add: rule_matches_def MaxUint16_lmask)

lemma rule_matches_any: "rule_matches \<lparr>rule_port = port, rule_mask = 0\<rparr> p"
  by (simp add: rule_matches_def)

text \<open>The loop covers what is left of the range, each port by one rule.\<close>

lemma ternary_loop_result:
  assumes "unat port \<le> unat ending + 1"
  shows "\<exists>rs. ternary_loop ending port acc = Some (acc @ rs) \<and>
    (\<forall>p. length (filter (\<lambda>r. rule_matches r p) rs) =
      (if unat port \<le> unat p \<and> unat p \<le> unat ending then 1 else 0))"
  using assms
proof (induction "unat ending + 1 - unat port" arbitrary: port acc rule: less_induct)
  case less
  have e: "unat ending \<le> 65535" by (rule unat_le_Max)
  show ?case
  proof (cases "port \<le> ucast ending")
    case False
    then have "ternary_loop ending port acc = Some acc" by (simp add: ternary_loop.simps)
    moreover have "unat port > unat ending" using False by (simp add: word_le_nat_alt unat_ucast_up)
    ultimately show ?thesis by (intro exI [of _ "[]"]) auto
  next
    case True
    define q :: u16 where "q = ucast port"
    have pe: "unat port \<le> unat ending" using True by (simp add: word_le_nat_alt unat_ucast_up)
    with e have "unat port < 2 ^ 16" by simp
    then have q: "unat q = unat port" by (simp add: q_def unsigned_ucast_eq take_bit_nat_eq_self)
    then have "q \<le> ending" using pe by (simp add: word_le_nat_alt)
    then obtain m where m: "portMask q ending = Some (lmask m)" "good_mask q ending m"
      using portMask_result by blast
    let ?port = "ucast (maxPort q (lmask m)) + 1 :: u32"
    have g: "m \<le> 16" "2 ^ m dvd unat q" "unat q + (2 ^ m - 1) \<le> unat ending"
      using m(2) by (simp_all add: good_mask_def)
    have pos: "0 < (2 :: nat) ^ m" by simp
    have "unat (maxPort q (lmask m)) = unat q + (2 ^ m - 1)" using g by (simp add: maxPort_lmask)
    then have n: "unat ?port = unat q + 2 ^ m"
      using g(3) e pos by (simp add: unat_word_ariths unat_ucast_up)
    let ?r = "\<lparr>rule_port = q, rule_mask = lmask m\<rparr>"
    have "\<exists>rs. ternary_loop ending ?port (acc @ [?r]) = Some ((acc @ [?r]) @ rs) \<and>
      (\<forall>p. length (filter (\<lambda>r. rule_matches r p) rs) =
        (if unat ?port \<le> unat p \<and> unat p \<le> unat ending then 1 else 0))"
      using g(3) pe pos q n by (intro less.hyps) linarith+
    then obtain rs where rs: "ternary_loop ending ?port (acc @ [?r]) = Some (acc @ ?r # rs)"
      "\<And>p. length (filter (\<lambda>r. rule_matches r p) rs) =
        (if unat ?port \<le> unat p \<and> unat p \<le> unat ending then 1 else 0)" by auto
    have "ternary_loop ending port acc = Some (acc @ ?r # rs)"
      using True m(1) rs(1) by (subst ternary_loop.simps) (simp add: q_def)
    moreover have "length (filter (\<lambda>r. rule_matches r p) (?r # rs)) =
        (if unat port \<le> unat p \<and> unat p \<le> unat ending then 1 else 0)" for p
      using rs(2) [of p] g(3) pos n q by (auto simp: rule_matches_lmask [OF g(2)])
    ultimately show ?thesis by blast
  qed
qed

text \<open>
  C20. For every range from low to high, buildTernaryRules returns, and each port is matched by
  exactly one of its rules if it lies in the range and by none otherwise.
\<close>

theorem buildTernaryRules_exact:
  assumes "low pr \<le> high pr"
  shows "\<exists>rules. buildTernaryRules pr = Some rules \<and>
    (\<forall>p. length (filter (\<lambda>r. rule_matches r p) rules) = (if low pr \<le> p \<and> p \<le> high pr then 1 else 0))"
  using assms ternary_loop_result [of "ucast (low pr)" "high pr" "[]"]
  by (simp add: buildTernaryRules_def unat_ucast_up word_le_nat_alt)

theorem buildTernaryRules_exact_witness:
  "\<exists>rules. buildTernaryRules \<lparr>low = 5, high = 1000\<rparr> = Some rules \<and>
    (\<forall>p. length (filter (\<lambda>r. rule_matches r p) rules) = (if 5 \<le> p \<and> p \<le> 1000 then 1 else 0))"
  using buildTernaryRules_exact [of "\<lparr>low = 5, high = 1000\<rparr>"] by simp

section \<open>Pairs of ranges\<close>

text \<open>The ports a range stands for: all of them for a wildcard, in either spelling.\<close>

definition in_range :: "port_range \<Rightarrow> u16 \<Rightarrow> bool" where
  "in_range pr p \<longleftrightarrow> isWildcardMatch pr \<or> low pr \<le> p \<and> p \<le> high pr"

definition product_matches :: "port_product \<Rightarrow> u16 \<Rightarrow> u16 \<Rightarrow> bool" where
  "product_matches r sp dp \<longleftrightarrow>
     rule_matches \<lparr>rule_port = srcPort r, rule_mask = srcMask r\<rparr> sp \<and>
     rule_matches \<lparr>rule_port = dstPort r, rule_mask = dstMask r\<rparr> dp"

text \<open>A range that is a true range and covers more than 100 ports.\<close>

definition too_wide :: "port_range \<Rightarrow> bool" where
  "too_wide pr \<longleftrightarrow> isRangeMatch pr \<and> unat (high pr) - unat (low pr) + 1 > 100"

lemma trivial_match:
  assumes "\<not> isRangeMatch pr"
  shows "\<exists>r. asTrivialTernaryMatch pr = Inr r \<and> (\<forall>p. rule_matches r p \<longleftrightarrow> in_range pr p)"
proof (cases "isWildcardMatch pr")
  case True
  then show ?thesis by (auto simp: asTrivialTernaryMatch_def rule_matches_any in_range_def)
next
  case False
  then have "isExactMatch pr" using assms by (simp add: isRangeMatch_def)
  with False show ?thesis
    by (auto simp: asTrivialTernaryMatch_def asExactMatchUnchecked_def rule_matches_Max in_range_def
        isExactMatch_def)
qed

lemma Width_range:
  assumes "isRangeMatch pr" and "low pr \<le> high pr"
  shows "unat (Width pr) = unat (high pr) - unat (low pr) + 1"
proof -
  have "\<not> (low pr = 0 \<and> high pr = MaxUint16)" using assms by (simp add: isRangeMatch_def isWildcardMatch_def)
  then have "\<not> (unat (low pr) = 0 \<and> unat (high pr) = 65535)"
    by (auto simp: MaxUint16_def word_unat_eq_iff)
  then have b: "unat (high pr) - unat (low pr) + 1 < 65536"
    using unat_le_Max [of "high pr"] assms(2) by (auto simp: word_le_nat_alt)
  have "unat (high pr - low pr) = unat (high pr) - unat (low pr)" using assms(2) by (rule unat_sub)
  then show ?thesis
    using assms(1) b by (simp add: Width_def isRangeMatch_def unat_word_ariths)
qed

lemma exact_matches:
  assumes "isRangeMatch pr" and "low pr \<le> high pr"
  shows "\<exists>res. asComplexTernaryMatches pr Exact = Some res \<and>
    (if too_wide pr then \<exists>e. res = Inl e
     else \<exists>rs. res = Inr rs \<and> (\<forall>p. (\<exists>r\<in>set rs. rule_matches r p) \<longleftrightarrow> in_range pr p))"
proof -
  have w: "Width pr > 100 \<longleftrightarrow> too_wide pr"
    using Width_range [OF assms] assms(1) by (simp add: too_wide_def word_less_nat_alt)
  have n: "\<not> isExactMatch pr" "\<not> isWildcardMatch pr" using assms(1) by (simp_all add: isRangeMatch_def)
  have "(\<exists>k\<in>set [unat (low pr)..<unat (high pr) + 1]. p = of_nat k) \<longleftrightarrow> low pr \<le> p \<and> p \<le> high pr" for p
  proof
    assume "\<exists>k\<in>set [unat (low pr)..<unat (high pr) + 1]. p = of_nat k"
    then obtain k where k: "unat (low pr) \<le> k" "k \<le> unat (high pr)" "p = of_nat k" by auto
    then have "unat p = k" using unat_le_Max [of "high pr"] by (simp add: unat_of_nat take_bit_nat_eq_self)
    then show "low pr \<le> p \<and> p \<le> high pr" using k by (simp add: word_le_nat_alt)
  next
    assume "low pr \<le> p \<and> p \<le> high pr"
    then show "\<exists>k\<in>set [unat (low pr)..<unat (high pr) + 1]. p = of_nat k"
      by (intro bexI [of _ "unat p"]) (auto simp: word_le_nat_alt)
  qed
  then show ?thesis
    using w n by (auto simp: asComplexTernaryMatches_def rule_matches_Max in_range_def)
qed

lemma rule_eta [simp]: "\<lparr>rule_port = rule_port r, rule_mask = rule_mask r\<rparr> = r" for r :: ternary_rule
  by simp

lemma product_src:
  "(\<exists>r\<in>set (buildRulesFromRange rs f True). product_matches r sp dp) \<longleftrightarrow>
     (\<exists>r\<in>set rs. rule_matches r sp) \<and> rule_matches f dp"
  by (auto simp: buildRulesFromRange_def product_matches_def)

lemma product_dst:
  "(\<exists>r\<in>set (buildRulesFromRange rs f False). product_matches r sp dp) \<longleftrightarrow>
     rule_matches f sp \<and> (\<exists>r\<in>set rs. rule_matches r dp)"
  by (auto simp: buildRulesFromRange_def product_matches_def)

lemma product_exact:
  assumes "low src \<le> high src" and "low dst \<le> high dst"
  shows "\<exists>res. CreatePortRangeCartesianProduct src dst = Some res \<and>
    ((\<exists>e. res = Inl e) \<longleftrightarrow> isRangeMatch src \<and> isRangeMatch dst \<or> too_wide src \<or> too_wide dst) \<and>
    (\<forall>rules sp dp. res = Inr rules \<longrightarrow>
      ((\<exists>r\<in>set rules. product_matches r sp dp) \<longleftrightarrow> in_range src sp \<and> in_range dst dp))"
proof -
  consider "isRangeMatch src" "isRangeMatch dst" | "isRangeMatch src" "\<not> isRangeMatch dst"
    | "\<not> isRangeMatch src" "isRangeMatch dst" | "\<not> isRangeMatch src" "\<not> isRangeMatch dst" by blast
  then show ?thesis
  proof cases
    case 1
    then show ?thesis by (simp add: CreatePortRangeCartesianProduct_def)
  next
    case 2
    obtain f where f: "asTrivialTernaryMatch dst = Inr f" "\<And>p. rule_matches f p \<longleftrightarrow> in_range dst p"
      using trivial_match [OF 2(2)] by blast
    show ?thesis
      using exact_matches [OF 2(1) assms(1)] f 2
      by (cases "too_wide src") (auto simp: CreatePortRangeCartesianProduct_def product_src too_wide_def)
  next
    case 3
    obtain f where f: "asTrivialTernaryMatch src = Inr f" "\<And>p. rule_matches f p \<longleftrightarrow> in_range src p"
      using trivial_match [OF 3(1)] by blast
    show ?thesis
      using exact_matches [OF 3(2) assms(2)] f 3
      by (cases "too_wide dst") (auto simp: CreatePortRangeCartesianProduct_def product_dst too_wide_def)
  next
    case 4
    obtain f g where f: "asTrivialTernaryMatch src = Inr f" "\<And>p. rule_matches f p \<longleftrightarrow> in_range src p"
      and g: "asTrivialTernaryMatch dst = Inr g" "\<And>p. rule_matches g p \<longleftrightarrow> in_range dst p"
      using trivial_match [OF 4(1)] trivial_match [OF 4(2)] by blast
    then show ?thesis using 4
      by (simp add: CreatePortRangeCartesianProduct_def product_matches_def too_wide_def)
  qed
qed

text \<open>Two ranges that cover the same ports are told apart only by the spelling of a wildcard, which no rule shows.\<close>

lemma sameMatch_in_range:
  assumes "low a \<le> high a" "low b \<le> high b" "\<forall>p. in_range a p \<longleftrightarrow> in_range b p"
  shows "sameMatch a b"
proof -
  have full: "isWildcardMatch b" if "isWildcardMatch a" "\<forall>p. in_range a p \<longleftrightarrow> in_range b p" for a b
  proof -
    have "isWildcardMatch b \<or> low b \<le> 0 \<and> MaxUint16 \<le> high b"
      using that unfolding in_range_def by blast
    moreover have "high b \<le> MaxUint16" by (simp add: MaxUint16_def word_le_nat_alt unat_le_Max)
    ultimately show ?thesis using antisym [of "high b" MaxUint16] by (auto simp: isWildcardMatch_def)
  qed
  show ?thesis
  proof (cases "isWildcardMatch a \<or> isWildcardMatch b")
    case True
    then show ?thesis using full [of a b] full [of b a] assms(3) by (auto simp: sameMatch_def)
  next
    case False
    then have "in_range a (low a)" "in_range a (high a)" "in_range b (low b)" "in_range b (high b)"
      using assms(1,2) by (auto simp: in_range_def)
    then have "low a = low b" "high a = high b" using assms(3) False by (auto simp: in_range_def intro: antisym)
    then show ?thesis by (simp add: sameMatch_def)
  qed
qed

lemma in_range_low: "low a \<le> high a \<Longrightarrow> in_range a (low a)"
  by (simp add: in_range_def)

lemma product_sameMatch:
  assumes "sameMatch src src'" "sameMatch dst dst'"
  shows "CreatePortRangeCartesianProduct src dst = CreatePortRangeCartesianProduct src' dst'"
  using assms
  by (auto simp: sameMatch_def CreatePortRangeCartesianProduct_def isRangeMatch_def asTrivialTernaryMatch_def)

text \<open>
  C31. The rules made from a source and a destination range match a pair of ports exactly when
  each port lies in its range; the translation fails exactly when both are true ranges or one of
  them covers more than 100 ports.
\<close>

theorem CreatePortRangeCartesianProduct_exact:
  assumes "low src \<le> high src" and "low dst \<le> high dst"
  shows "\<exists>res. CreatePortRangeCartesianProduct src dst = Some res \<and>
    ((\<exists>e. res = Inl e) \<longleftrightarrow> isRangeMatch src \<and> isRangeMatch dst \<or> too_wide src \<or> too_wide dst) \<and>
    (\<forall>rules sp dp. res = Inr rules \<longrightarrow>
      ((\<exists>r\<in>set rules. product_matches r sp dp) \<longleftrightarrow> in_range src sp \<and> in_range dst dp))"
  by (rule product_exact [OF assms])

theorem CreatePortRangeCartesianProduct_exact_witness:
  "\<exists>rules. CreatePortRangeCartesianProduct \<lparr>low = 80, high = 90\<rparr> \<lparr>low = 0, high = 0\<rparr> = Some (Inr rules) \<and>
    (\<forall>sp dp. (\<exists>r\<in>set rules. product_matches r sp dp) \<longleftrightarrow> in_range \<lparr>low = 80, high = 90\<rparr> sp)"
proof -
  have "\<not> isRangeMatch \<lparr>low = 0, high = 0\<rparr>" "\<not> too_wide \<lparr>low = 80, high = 90\<rparr>"
    "in_range \<lparr>low = 0, high = 0\<rparr> dp" for dp
    by (simp_all add: isRangeMatch_def isWildcardMatch_def too_wide_def in_range_def)
  then show ?thesis
    using CreatePortRangeCartesianProduct_exact [of "\<lparr>low = 80, high = 90\<rparr>" "\<lparr>low = 0, high = 0\<rparr>"]
    by (auto simp: too_wide_def) (metis obj_sumE)
qed

end
