(* ===== verification/Sdf_Filter.thy ===== *)
theory Sdf_Filter
  imports Go_Net Port_Range
begin

text \<open>
  Model of \<^verbatim>\<open>pfcpiface/parse_sdf.go\<close>, the parser of flow descriptions such as
  \<^verbatim>\<open>permit out udp from 10.0.0.0/8 80-90 to assigned\<close>. The network of an endpoint is a pointer,
  nil (\<open>None\<close>) until its keyword has been parsed.
\<close>

section \<open>The parser\<close>

record endpoint =
  IPNet :: "ip_net option"
  ports :: port_range

record ip_filter_rule =
  action :: string
  direction :: string
  proto :: u8
  src :: endpoint
  dst :: endpoint

definition reservedProto :: u8 where
  "reservedProto = 0xFF"

definition Ipv4WildcardNetString :: string where
  "Ipv4WildcardNetString = ''0.0.0.0/0''"

definition parseNet :: "string \<Rightarrow> endpoint \<Rightarrow> endpoint result" where
  "parseNet ipnet ep =
     (let ipNetFields = strings_Split CHR ''/'' ipnet
      in if length ipNetFields > 2 then Inl (ErrInvalidArgument ''network string'')
         else
           let ipnet = (if length ipNetFields = 1 then hd ipNetFields @ ''/32'' else ipnet)
           in case ParseCIDR ipnet of
                None \<Rightarrow> Inl (ErrOperationFailedWithReason ''ParseCIDR'' ''invalid CIDR address'')
              | Some (_, net) \<Rightarrow> Inr (ep\<lparr>IPNet := Some net\<rparr>))"

definition parsePort :: "string \<Rightarrow> endpoint \<Rightarrow> endpoint result" where
  "parsePort port ep =
     (let ps = strings_Split CHR ''-'' port
      in if length ps = 0 \<or> length ps > 2 then Inl (ErrInvalidArgument ''port string'')
         else
           let ps = (if length ps = 1 then ps @ [hd ps] else ps)
           in case (ParseUint (ps ! 0) 10 16, ParseUint (ps ! 1) 10 16) of
                (Some l, Some h) \<Rightarrow>
                  if l > h then Inl (ErrInvalidArgumentWithReason ''port'' ''invalid port range'')
                  else Inr (ep\<lparr>ports := newRangeMatchPortRange (of_nat l) (of_nat h)\<rparr>)
              | _ \<Rightarrow> Inl ErrSyntax)"

definition newIpFilterRule :: ip_filter_rule where
  "newIpFilterRule =
     \<lparr>action = [], direction = [], proto = 0,
      src = \<lparr>IPNet = None, ports = newWildcardPortRange\<rparr>,
      dst = \<lparr>IPNet = None, ports = newWildcardPortRange\<rparr>\<rparr>"

definition parseAction :: "string \<Rightarrow> unit result" where
  "parseAction act = (if act = ''permit'' \<or> act = ''deny'' then Inr () else Inl ErrBadFilterDesc)"

definition parseDirection :: "string \<Rightarrow> unit result" where
  "parseDirection dir = (if dir = ''in'' \<or> dir = ''out'' then Inr () else Inl ErrBadFilterDesc)"

definition parseL4Proto :: "string \<Rightarrow> u8 result" where
  "parseL4Proto p =
     (case ParseUint p 10 8 of
        Some n \<Rightarrow> Inr (of_nat n)
      | None \<Rightarrow>
          if p = ''ip'' then Inr reservedProto
          else if p = ''udp'' then Inr 17
          else if p = ''tcp'' then Inr 6
          else Inl ErrBadFilterDesc)"

text \<open>The closure that brings an address field to its common form.\<close>

definition xform :: "string \<Rightarrow> string \<Rightarrow> string" where
  "xform ueIP f =
     (if f = ''any'' then Ipv4WildcardNetString
      else if f = ''assigned'' then
        (if ueIP = ''0.0.0.0'' then Ipv4WildcardNetString
         else if ueIP \<noteq> [] \<and> ueIP \<noteq> ''<nil>'' then ueIP
         else Ipv4WildcardNetString)
      else f)"

text \<open>The loop over the fields from the fourth on; it skips fields it does not know.\<close>

function (sequential) processFlowFields ::
  "string \<Rightarrow> string list \<Rightarrow> ip_filter_rule \<Rightarrow> ip_filter_rule result" where
  "processFlowFields ueIP [] ipf = Inr ipf"
| "processFlowFields ueIP (f # fs) ipf =
     (if f = ''from'' then
        case fs of
          [] \<Rightarrow> Inl ErrBadFilterDesc
        | n # rest \<Rightarrow>
            bind_result (parseNet (xform ueIP n) (src ipf)) (\<lambda>ep.
              case rest of
                [] \<Rightarrow> Inr (ipf\<lparr>src := ep\<rparr>)
              | p # rest' \<Rightarrow>
                  if p \<noteq> ''to''
                  then bind_result (parsePort (xform ueIP p) ep) (\<lambda>ep.
                         processFlowFields ueIP rest' (ipf\<lparr>src := ep\<rparr>))
                  else processFlowFields ueIP rest (ipf\<lparr>src := ep\<rparr>))
      else if f = ''to'' then
        case fs of
          [] \<Rightarrow> Inl ErrBadFilterDesc
        | n # rest \<Rightarrow>
            bind_result (parseNet (xform ueIP n) (dst ipf)) (\<lambda>ep.
              case rest of
                [] \<Rightarrow> Inr (ipf\<lparr>dst := ep\<rparr>)
              | p # rest' \<Rightarrow>
                  bind_result (parsePort (xform ueIP p) ep) (\<lambda>ep.
                    processFlowFields ueIP rest' (ipf\<lparr>dst := ep\<rparr>)))
      else processFlowFields ueIP fs ipf)"
  by pat_completeness auto
termination
  by (relation "measure (\<lambda>(_, fs, _). length fs)") auto

definition parseFlowDesc :: "string \<Rightarrow> string \<Rightarrow> ip_filter_rule result" where
  "parseFlowDesc flowDesc ueIP =
     (let flds = strings_Fields flowDesc; ipf = newIpFilterRule
      in if length flds < 3 then Inl ErrBadFilterDesc
         else
           bind_result (parseAction (flds ! 0)) (\<lambda>_.
             let ipf = ipf\<lparr>action := flds ! 0\<rparr>
             in bind_result (parseDirection (flds ! 1)) (\<lambda>_.
               let ipf = ipf\<lparr>direction := flds ! 1\<rparr>
               in bind_result (parseL4Proto (flds ! 2)) (\<lambda>p.
                 processFlowFields ueIP (drop 3 flds) (ipf\<lparr>proto := p\<rparr>)))))"

section \<open>Fields of a line\<close>

fun unwords :: "string list \<Rightarrow> string" where
  "unwords [] = []"
| "unwords [w] = w"
| "unwords (w # ws) = w @ '' '' @ unwords ws"

definition is_word :: "string \<Rightarrow> bool" where
  "is_word w \<longleftrightarrow> w \<noteq> [] \<and> (\<forall>c\<in>set w. \<not> is_space c)"

lemma Fields_Nil: "strings_Fields [] = []"
  by (simp add: strings_Fields.simps)

lemma Fields_step:
  "\<not> is_space c \<Longrightarrow> strings_Fields (c # cs) =
     takeWhile (\<lambda>c. \<not> is_space c) (c # cs) # strings_Fields (dropWhile (\<lambda>c. \<not> is_space c) (c # cs))"
  by (subst strings_Fields.simps) simp

lemma Fields_space: "is_space c \<Longrightarrow> strings_Fields (c # s) = strings_Fields s"
  by (subst (1 2) strings_Fields.simps) simp

lemma is_word_cases:
  assumes "is_word w"
  obtains c cs where "w = c # cs" "\<not> is_space c" "\<forall>x\<in>set w. \<not> is_space x"
  using assms by (cases w) (auto simp: is_word_def)

lemma Fields_word:
  assumes "is_word w"
  shows "strings_Fields w = [w]"
proof -
  obtain c cs where c: "w = c # cs" "\<not> is_space c" "\<forall>x\<in>set w. \<not> is_space x"
    using assms by (rule is_word_cases)
  then have "takeWhile (\<lambda>c. \<not> is_space c) w = w" "dropWhile (\<lambda>c. \<not> is_space c) w = []"
    by (simp_all add: takeWhile_eq_all_conv dropWhile_eq_Nil_conv)
  then show ?thesis using Fields_step [OF c(2), of cs] by (simp only: c(1) Fields_Nil)
qed

lemma Fields_word_space:
  assumes "is_word w"
  shows "strings_Fields (w @ '' '' @ s) = w # strings_Fields s"
proof -
  obtain c cs where c: "w = c # cs" "\<not> is_space c" "\<forall>x\<in>set w. \<not> is_space x"
    using assms by (rule is_word_cases)
  have sp: "is_space CHR '' ''" by (simp add: is_space_def)
  have "takeWhile (\<lambda>c. \<not> is_space c) (w @ '' '' @ s) = w"
    "dropWhile (\<lambda>c. \<not> is_space c) (w @ '' '' @ s) = CHR '' '' # s"
    using c(3) sp by (simp_all add: takeWhile_append2 dropWhile_append2)
  then show ?thesis
    using Fields_step [OF c(2), of "cs @ '' '' @ s"] by (simp only: c(1) append_Cons Fields_space [OF sp])
qed

lemma Fields_unwords: "list_all is_word ws \<Longrightarrow> strings_Fields (unwords ws) = ws"
proof (induction ws rule: unwords.induct)
  case 1
  show ?case by (simp add: strings_Fields.simps)
qed (simp_all add: Fields_word Fields_word_space [simplified])

lemma Split_none: "sep \<notin> set s \<Longrightarrow> strings_Split sep s = [s]"
  by (induction s) auto

lemma Split_two: "sep \<notin> set s \<Longrightarrow> sep \<notin> set t \<Longrightarrow> strings_Split sep (s @ sep # t) = [s, t]"
  by (induction s) (auto simp: Split_none)

section \<open>Flow descriptions and their text\<close>

datatype addr_spec = AnyAddr | Assigned | Host u32 | Prefix u32 nat

datatype port_spec = AllPorts | OnePort nat | PortSpan nat nat

datatype proto_spec = ProtoIP | ProtoUDP | ProtoTCP | ProtoNum nat

record flow =
  fl_permit :: bool
  fl_in :: bool
  fl_proto :: proto_spec
  fl_src :: addr_spec
  fl_src_ports :: port_spec
  fl_dst :: addr_spec
  fl_dst_ports :: port_spec

fun addr_text :: "addr_spec \<Rightarrow> string" where
  "addr_text AnyAddr = ''any''"
| "addr_text Assigned = ''assigned''"
| "addr_text (Host v) = ip_String (int2ip v)"
| "addr_text (Prefix v n) = subnet_text v n"

fun ports_text :: "port_spec \<Rightarrow> string list" where
  "ports_text AllPorts = []"
| "ports_text (OnePort p) = [itoa p]"
| "ports_text (PortSpan l h) = [itoa l @ ''-'' @ itoa h]"

fun proto_text :: "proto_spec \<Rightarrow> string" where
  "proto_text ProtoIP = ''ip''"
| "proto_text ProtoUDP = ''udp''"
| "proto_text ProtoTCP = ''tcp''"
| "proto_text (ProtoNum n) = itoa n"

definition flow_text :: "flow \<Rightarrow> string" where
  "flow_text f =
     unwords ([if fl_permit f then ''permit'' else ''deny'', if fl_in f then ''in'' else ''out'',
               proto_text (fl_proto f), ''from'', addr_text (fl_src f)] @ ports_text (fl_src_ports f) @
              [''to'', addr_text (fl_dst f)] @ ports_text (fl_dst_ports f))"

text \<open>What such a text means, for a given UE address.\<close>

fun addr_net :: "u32 \<Rightarrow> addr_spec \<Rightarrow> u32 \<times> nat" where
  "addr_net ue AnyAddr = (0, 0)"
| "addr_net ue Assigned = (if ue = 0 then (0, 0) else (ue, 32))"
| "addr_net ue (Host v) = (v, 32)"
| "addr_net ue (Prefix v n) = (v, n)"

fun ports_range :: "port_spec \<Rightarrow> port_range" where
  "ports_range AllPorts = newWildcardPortRange"
| "ports_range (OnePort p) = \<lparr>low = of_nat p, high = of_nat p\<rparr>"
| "ports_range (PortSpan l h) = \<lparr>low = of_nat l, high = of_nat h\<rparr>"

fun proto_num :: "proto_spec \<Rightarrow> u8" where
  "proto_num ProtoIP = reservedProto"
| "proto_num ProtoUDP = 17"
| "proto_num ProtoTCP = 6"
| "proto_num (ProtoNum n) = of_nat n"

definition net_of :: "u32 \<times> nat \<Rightarrow> ip_net" where
  "net_of vn = \<lparr>net_IP = int2ip (fst vn AND cidr_mask (snd vn)), net_Mask = int2ip (cidr_mask (snd vn))\<rparr>"

definition flow_rule :: "u32 \<Rightarrow> flow \<Rightarrow> ip_filter_rule" where
  "flow_rule ue f =
     \<lparr>action = (if fl_permit f then ''permit'' else ''deny''),
      direction = (if fl_in f then ''in'' else ''out''),
      proto = proto_num (fl_proto f),
      src = \<lparr>IPNet = Some (net_of (addr_net ue (fl_src f))), ports = ports_range (fl_src_ports f)\<rparr>,
      dst = \<lparr>IPNet = Some (net_of (addr_net ue (fl_dst f))), ports = ports_range (fl_dst_ports f)\<rparr>\<rparr>"

fun addr_ok :: "addr_spec \<Rightarrow> bool" where
  "addr_ok (Prefix v n) = (n \<le> 32)"
| "addr_ok _ = True"

fun ports_ok :: "port_spec \<Rightarrow> bool" where
  "ports_ok AllPorts = True"
| "ports_ok (OnePort p) = (p < 65536)"
| "ports_ok (PortSpan l h) = (l \<le> h \<and> h < 65536)"

fun proto_ok :: "proto_spec \<Rightarrow> bool" where
  "proto_ok (ProtoNum n) = (n < 256)"
| "proto_ok _ = True"

definition flow_ok :: "flow \<Rightarrow> bool" where
  "flow_ok f \<longleftrightarrow> addr_ok (fl_src f) \<and> addr_ok (fl_dst f) \<and> ports_ok (fl_src_ports f) \<and>
     ports_ok (fl_dst_ports f) \<and> proto_ok (fl_proto f)"

section \<open>Words of the text\<close>

lemma digit_not_space: "digit_val c \<noteq> None \<Longrightarrow> \<not> is_space c"
  by (auto simp: digit_val_def is_space_def Let_def split: if_splits)

lemma itoa_not_space: "c \<in> set (itoa n) \<Longrightarrow> \<not> is_space c"
  by (rule digit_not_space) (rule itoa_digits)

lemma sep_not_space: "\<not> is_space CHR ''.''" "\<not> is_space CHR ''/''" "\<not> is_space CHR ''-''"
  by (simp_all add: is_space_def)

lemma is_word_itoa: "is_word (itoa n)"
  using itoa_not_space by (auto simp: is_word_def)

lemma is_word_String: "is_word (ip_String a)"
  using itoa_not_space sep_not_space by (auto simp: is_word_def ip_String_def)

lemma is_word_subnet: "is_word (subnet_text v n)"
  using itoa_not_space sep_not_space is_word_String by (auto simp: is_word_def subnet_text_def)

lemma is_word_span: "is_word (itoa l @ ''-'' @ itoa h)"
  using itoa_not_space sep_not_space by (auto simp: is_word_def)

lemma is_word_keywords:
  "is_word ''permit''" "is_word ''deny''" "is_word ''in''" "is_word ''out''" "is_word ''from''"
  "is_word ''to''" "is_word ''any''" "is_word ''assigned''" "is_word ''ip''" "is_word ''udp''" "is_word ''tcp''"
  by (simp_all add: is_word_def is_space_def)

lemmas is_word_intros = is_word_keywords is_word_itoa is_word_String is_word_subnet is_word_span

lemma flow_words:
  "is_word (addr_text a)" "list_all is_word (ports_text p)" "is_word (proto_text q)"
  using is_word_span by (cases a; cases p; cases q; simp add: is_word_intros)+

lemma flow_fields:
  "strings_Fields (flow_text f) =
     [if fl_permit f then ''permit'' else ''deny'', if fl_in f then ''in'' else ''out'',
      proto_text (fl_proto f), ''from'', addr_text (fl_src f)] @ ports_text (fl_src_ports f) @
     [''to'', addr_text (fl_dst f)] @ ports_text (fl_dst_ports f)"
  unfolding flow_text_def by (rule Fields_unwords) (simp add: flow_words is_word_keywords)

section \<open>Parsing the text\<close>

lemma itoa_hd: "\<exists>c cs. itoa n = c # cs \<and> digit_val c \<noteq> None"
  using itoa_digits [of "hd (itoa n)" n] by (cases "itoa n") auto

lemma not_keyword:
  assumes "w = c # cs" and "digit_val c \<noteq> None"
  shows "w \<noteq> ''any''" "w \<noteq> ''assigned''" "w \<noteq> ''to''" "w \<noteq> ''from''" "w \<noteq> ''<nil>''"
  using assms by (auto simp: digit_val_def)

lemma starts_digit:
  "\<exists>c cs. itoa n @ s = c # cs \<and> digit_val c \<noteq> None"
  "\<exists>c cs. ip_String a = c # cs \<and> digit_val c \<noteq> None"
  "\<exists>c cs. subnet_text v n = c # cs \<and> digit_val c \<noteq> None"
  using itoa_hd [of n] itoa_hd [of "unat (a ! 0)"] itoa_hd [of "unat (int2ip v ! 0)"]
  by (auto simp: ip_String_def subnet_text_def)

lemma xform_id: "\<exists>c cs. w = c # cs \<and> digit_val c \<noteq> None \<Longrightarrow> xform ueIP w = w"
  using not_keyword by (auto simp: xform_def)

lemma String_zero: "ip_String (int2ip 0) = ''0.0.0.0''" "subnet_text 0 0 = ''0.0.0.0/0''" "itoa 32 = ''32''"
  by code_simp+

lemma String_inj: "ip_String (int2ip v) = ip_String (int2ip w) \<longleftrightarrow> v = w"
proof
  assume eq: "ip_String (int2ip v) = ip_String (int2ip w)"
  have "Some (int2ip v) = Some (int2ip w)"
    using parse_v4_String [of "int2ip v"] parse_v4_String [of "int2ip w"]
    unfolding eq by (simp only: int2ip_simps)
  then show "v = w" by (simp add: inj_int2ip)
qed simp

lemma parseNet_subnet:
  assumes "n \<le> 32"
  shows "parseNet (subnet_text v n) ep = Inr (ep\<lparr>IPNet := Some (net_of (v, n))\<rparr>)"
proof -
  have "strings_Split CHR ''/'' (subnet_text v n) = [ip_String (int2ip v), itoa n]"
    unfolding subnet_text_def using String_no_slash itoa_no_sep
    by (simp, intro Split_two) blast+
  then show ?thesis
    using ParseCIDR_v4 [OF assms, of v] by (simp add: parseNet_def subnet_text_def net_of_def)
qed

lemma parseNet_host:
  "parseNet (ip_String (int2ip v)) ep = Inr (ep\<lparr>IPNet := Some (net_of (v, 32))\<rparr>)"
proof -
  have "strings_Split CHR ''/'' (ip_String (int2ip v)) = [ip_String (int2ip v)]"
    using String_no_slash by (intro Split_none) blast
  then show ?thesis
    using ParseCIDR_v4 [of 32 v] String_zero(3) by (simp add: parseNet_def net_of_def)
qed

lemma parseNet_addr:
  assumes "addr_ok a"
  shows "parseNet (xform (ip_String (int2ip ue)) (addr_text a)) ep =
    Inr (ep\<lparr>IPNet := Some (net_of (addr_net ue a))\<rparr>)"
proof (cases a)
  case AnyAddr
  then show ?thesis using parseNet_subnet [of 0 0] String_zero by (simp add: xform_def Ipv4WildcardNetString_def)
next
  case Assigned
  have "ip_String (int2ip ue) \<noteq> []" "ip_String (int2ip ue) \<noteq> ''<nil>''"
    using starts_digit(2) [of "int2ip ue"] by (auto simp: digit_val_def)
  moreover have "ip_String (int2ip ue) = ''0.0.0.0'' \<longleftrightarrow> ue = 0"
    using String_inj [of ue 0] String_zero(1) by simp
  ultimately show ?thesis
    using Assigned parseNet_subnet [of 0 0] parseNet_host [of ue] String_zero
    by (simp add: xform_def Ipv4WildcardNetString_def)
next
  case (Host v)
  then show ?thesis using starts_digit(2) by (simp add: xform_id parseNet_host)
next
  case (Prefix v n)
  then show ?thesis using assms starts_digit(3) by (simp add: xform_id parseNet_subnet)
qed

lemma newRange: "l \<le> h \<Longrightarrow> h < 65536 \<Longrightarrow>
    newRangeMatchPortRange (of_nat l) (of_nat h) = \<lparr>low = of_nat l, high = of_nat h\<rparr>"
  by (simp add: newRangeMatchPortRange_def word_less_nat_alt unat_of_nat take_bit_nat_eq_self)

lemma parsePort_one:
  assumes "p < 65536"
  shows "parsePort (itoa p) ep = Inr (ep\<lparr>ports := \<lparr>low = of_nat p, high = of_nat p\<rparr>\<rparr>)"
proof -
  have "strings_Split CHR ''-'' (itoa p) = [itoa p]" using itoa_no_sep by (intro Split_none) blast
  then show ?thesis using assms by (simp add: parsePort_def ParseUint_itoa newRange)
qed

lemma parsePort_span:
  assumes "l \<le> h" "h < 65536"
  shows "parsePort (itoa l @ ''-'' @ itoa h) ep = Inr (ep\<lparr>ports := \<lparr>low = of_nat l, high = of_nat h\<rparr>\<rparr>)"
proof -
  have "strings_Split CHR ''-'' (itoa l @ ''-'' @ itoa h) = [itoa l, itoa h]"
    using itoa_no_sep by (simp, intro Split_two) blast+
  then show ?thesis using assms by (simp add: parsePort_def ParseUint_itoa newRange)
qed

lemma parseL4Proto_text: "proto_ok p \<Longrightarrow> parseL4Proto (proto_text p) = Inr (proto_num p)"
proof (cases p)
  case (ProtoNum n)
  then show "proto_ok p \<Longrightarrow> ?thesis" by (simp add: parseL4Proto_def ParseUint_itoa)
qed (simp_all add: parseL4Proto_def ParseUint_def digit_val_def)

lemma ports_not_to:
  "itoa p \<noteq> ''to''" "itoa l @ ''-'' @ itoa h \<noteq> ''to''" "xform u (itoa p) = itoa p"
  "xform u (itoa l @ ''-'' @ itoa h) = itoa l @ ''-'' @ itoa h"
  using starts_digit(1) [of p "[]"] starts_digit(1) [of l "''-'' @ itoa h"]
    xform_id [OF starts_digit(1) [of p "[]"]] xform_id [OF starts_digit(1) [of l "''-'' @ itoa h"]]
  by (auto simp: digit_val_def)

lemma process_dst:
  assumes "addr_ok b" "ports_ok pd"
  shows "processFlowFields (ip_String (int2ip ue)) (''to'' # addr_text b # ports_text pd) ipf =
    Inr (ipf\<lparr>dst := (dst ipf)\<lparr>IPNet := Some (net_of (addr_net ue b)),
      ports := (if pd = AllPorts then ports (dst ipf) else ports_range pd)\<rparr>\<rparr>)"
  using assms
  by (cases pd) (simp_all add: parseNet_addr parsePort_one parsePort_span [simplified]
      ports_not_to [simplified])

lemma process_src:
  assumes "addr_ok a" "ports_ok ps"
  shows "processFlowFields (ip_String (int2ip ue)) (''from'' # addr_text a # ports_text ps @ ''to'' # fs) ipf =
    processFlowFields (ip_String (int2ip ue)) (''to'' # fs)
      (ipf\<lparr>src := (src ipf)\<lparr>IPNet := Some (net_of (addr_net ue a)),
        ports := (if ps = AllPorts then ports (src ipf) else ports_range ps)\<rparr>\<rparr>)"
  using assms
  by (cases ps) (simp_all del: processFlowFields.simps add: processFlowFields.simps(2) [of _ "''from''"]
      parseNet_addr parsePort_one parsePort_span [simplified] ports_not_to [simplified])

text \<open>
  C32. Every flow description made of an action, a direction, a protocol and two endpoints,
  each with an address (any, assigned, a host or a prefix) and optional ports, is parsed from its
  text to exactly the filter it denotes for the given UE address.
\<close>

theorem parseFlowDesc_roundtrip:
  assumes "flow_ok f"
  shows "parseFlowDesc (flow_text f) (ip_String (int2ip ue)) = Inr (flow_rule ue f)"
proof -
  have ok: "addr_ok (fl_src f)" "addr_ok (fl_dst f)" "ports_ok (fl_src_ports f)" "ports_ok (fl_dst_ports f)"
    "proto_ok (fl_proto f)" using assms by (simp_all add: flow_ok_def)
  note s = process_src [OF ok(1,3), of ue] and d = process_dst [OF ok(2,4), of ue]
  have "parseFlowDesc (flow_text f) (ip_String (int2ip ue)) =
    processFlowFields (ip_String (int2ip ue))
      (''from'' # addr_text (fl_src f) # ports_text (fl_src_ports f) @
        ''to'' # addr_text (fl_dst f) # ports_text (fl_dst_ports f))
      (newIpFilterRule\<lparr>action := if fl_permit f then ''permit'' else ''deny'',
        direction := if fl_in f then ''in'' else ''out'', proto := proto_num (fl_proto f)\<rparr>)"
    using parseL4Proto_text [OF ok(5)]
    by (simp del: processFlowFields.simps
        add: parseFlowDesc_def flow_fields parseAction_def parseDirection_def Let_def)
  also have "\<dots> = Inr (flow_rule ue f)"
    unfolding s d by (simp add: flow_rule_def newIpFilterRule_def)
  finally show ?thesis .
qed

theorem parseFlowDesc_roundtrip_witness:
  "parseFlowDesc
     (flow_text \<lparr>fl_permit = True, fl_in = False, fl_proto = ProtoUDP, fl_src = Prefix 0x0A000000 8,
        fl_src_ports = PortSpan 80 90, fl_dst = Assigned, fl_dst_ports = AllPorts\<rparr>) ''10.1.2.3'' =
   Inr (flow_rule 0x0A010203 \<lparr>fl_permit = True, fl_in = False, fl_proto = ProtoUDP,
     fl_src = Prefix 0x0A000000 8, fl_src_ports = PortSpan 80 90, fl_dst = Assigned, fl_dst_ports = AllPorts\<rparr>)"
proof -
  have "ip_String (int2ip 0x0A010203) = ''10.1.2.3''" by code_simp
  then show ?thesis
    using parseFlowDesc_roundtrip [of "\<lparr>fl_permit = True, fl_in = False, fl_proto = ProtoUDP,
      fl_src = Prefix 0x0A000000 8, fl_src_ports = PortSpan 80 90, fl_dst = Assigned,
      fl_dst_ports = AllPorts\<rparr>" "0x0A010203"]
    by (simp add: flow_ok_def)
qed

end
