(* ===== verification/Pfcp_Rules.thy ===== *)
theory Pfcp_Rules
  imports Ip_Pool Sdf_Filter
begin

text \<open>
  Model of the rules of a PFCP session and of how they are read from information elements:
  \<^verbatim>\<open>parse_pdr.go\<close> (packet detection), \<^verbatim>\<open>parse_far.go\<close> (forwarding), \<^verbatim>\<open>parse_qer.go\<close> (quality of
  service) and the flag helpers of \<^verbatim>\<open>utils.go\<close>. The decoders of information elements belong to the
  go-pfcp package and are a parameter, the record \<open>ie_api\<close>; a decoder that reports an error
  is \<open>None\<close>. A parser that dereferences a nil pointer or indexes out of range has no result.
\<close>

section \<open>Information elements\<close>

datatype ie_kind =
    IE_CreatePDR | IE_UpdatePDR | IE_QERID | IE_UEIPAddress | IE_SourceInterface | IE_FTEID
  | IE_ApplicationID | IE_SDFFilter | IE_OuterHeaderCreation | IE_DestinationInterface
  | IE_PFCPSMReqFlags | IE_Other

record ue_ip_address =
  Flags :: u8
  IPv4Address :: ip

record fteid_fields =
  TEID :: u32
  HasCh :: bool
  fteid_IPv4Address :: ip

record ohc_fields =
  ohc_TEID :: u32
  ohc_IPv4Address :: ip

text \<open>
  The decoders the agent calls. The rates, the flow identifier, the gate states and the
  destination interface are used even when their decoder reports an error, so these are values.
\<close>

record 'ie ie_api =
  ie_Type :: "'ie \<Rightarrow> ie_kind"
  ie_PDRID :: "'ie \<Rightarrow> u16 option"
  ie_Precedence :: "'ie \<Rightarrow> u32 option"
  ie_PDI :: "'ie \<Rightarrow> 'ie list option"
  ie_OuterHeaderRemovalDescription :: "'ie \<Rightarrow> u8 option"
  ie_FARID :: "'ie \<Rightarrow> u32 option"
  ie_CreatePDR :: "'ie \<Rightarrow> 'ie list option"
  ie_UpdatePDR :: "'ie \<Rightarrow> 'ie list option"
  ie_QERID :: "'ie \<Rightarrow> u32 option"
  ie_UEIPAddress :: "'ie \<Rightarrow> ue_ip_address option"
  ie_SourceInterface :: "'ie \<Rightarrow> u8 option"
  ie_FTEID :: "'ie \<Rightarrow> fteid_fields option"
  ie_ApplicationID :: "'ie \<Rightarrow> string option"
  ie_SDFFilter :: "'ie \<Rightarrow> string option"
  ie_ApplyAction :: "'ie \<Rightarrow> u8 list option"
  ie_ForwardingParameters :: "'ie \<Rightarrow> 'ie list option"
  ie_UpdateForwardingParameters :: "'ie \<Rightarrow> 'ie list option"
  ie_OuterHeaderCreation :: "'ie \<Rightarrow> ohc_fields option"
  ie_DestinationInterface :: "'ie \<Rightarrow> u8 \<times> bool"
  ie_PFCPSMReqFlags :: "'ie \<Rightarrow> u8 option"
  ie_QFI :: "'ie \<Rightarrow> u8"
  ie_GateStatusUL :: "'ie \<Rightarrow> u8"
  ie_GateStatusDL :: "'ie \<Rightarrow> u8"
  ie_MBRUL :: "'ie \<Rightarrow> u64"
  ie_MBRDL :: "'ie \<Rightarrow> u64"
  ie_GBRUL :: "'ie \<Rightarrow> u64"
  ie_GBRDL :: "'ie \<Rightarrow> u64"

text \<open>Interface codes of the protocol (3GPP TS 29.244) and of the agent.\<close>

definition SrcInterfaceAccess :: u8 where "SrcInterfaceAccess = 0"
definition SrcInterfaceCore :: u8 where "SrcInterfaceCore = 1"
definition SrcInterfaceCPFunction :: u8 where "SrcInterfaceCPFunction = 3"
definition DstInterfaceAccess :: u8 where "DstInterfaceAccess = 0"
definition DstInterfaceCore :: u8 where "DstInterfaceCore = 1"
definition DstInterfaceSGiLANN6LAN :: u8 where "DstInterfaceSGiLANN6LAN = 2"

definition access :: u8 where "access = 0x1"
definition core :: u8 where "core = 0x2"
definition tunnelGTPUPort :: u16 where "tunnelGTPUPort = 2152"

definition ActionForward :: u8 where "ActionForward = 0x2"
definition ActionDrop :: u8 where "ActionDrop = 0x1"
definition ActionBuffer :: u8 where "ActionBuffer = 0x4"
definition ActionNotify :: u8 where "ActionNotify = 0x8"

definition has2ndBit :: "u8 \<Rightarrow> bool" where
  "has2ndBit f \<longleftrightarrow> drop_bit 1 (f AND 0x02) = 1"

definition has5thBit :: "u8 \<Rightarrow> bool" where
  "has5thBit f \<longleftrightarrow> f AND 0x10 = 1"

section \<open>Packet detection rules\<close>

record application_filter =
  af_srcIP :: u32
  af_dstIP :: u32
  af_srcPortRange :: port_range
  af_dstPortRange :: port_range
  af_proto :: u8
  af_srcIPMask :: u32
  af_dstIPMask :: u32
  af_protoMask :: u8

record pdr =
  UPAllocateFteid :: bool
  srcIface :: u8
  tunnelIP4Dst :: u32
  tunnelTEID :: u32
  ueAddress :: u32
  srcIfaceMask :: u8
  tunnelIP4DstMask :: u32
  tunnelTEIDMask :: u32
  appFilter :: application_filter
  precedence :: u32
  pdrID :: u32
  pdr_fseID :: u64
  pdr_fseidIP :: u32
  ctrID :: u32
  pdr_farID :: u32
  qerIDList :: "u32 list"
  needDecap :: u8
  allocIPFlag :: bool

definition zero_filter :: application_filter where
  "zero_filter =
     \<lparr>af_srcIP = 0, af_dstIP = 0, af_srcPortRange = \<lparr>low = 0, high = 0\<rparr>,
      af_dstPortRange = \<lparr>low = 0, high = 0\<rparr>, af_proto = 0, af_srcIPMask = 0, af_dstIPMask = 0, af_protoMask = 0\<rparr>"

text \<open>The zero value of the struct.\<close>

definition zero_pdr :: pdr where
  "zero_pdr =
     \<lparr>UPAllocateFteid = False, srcIface = 0, tunnelIP4Dst = 0, tunnelTEID = 0, ueAddress = 0,
      srcIfaceMask = 0, tunnelIP4DstMask = 0, tunnelTEIDMask = 0, appFilter = zero_filter,
      precedence = 0, pdrID = 0, pdr_fseID = 0, pdr_fseidIP = 0, ctrID = 0, pdr_farID = 0,
      qerIDList = [], needDecap = 0, allocIPFlag = False\<rparr>"

record app_pfd =
  appID :: string
  flowDescs :: "string list"

definition needAllocIP :: "ue_ip_address \<Rightarrow> bool" where
  "needAllocIP a = (if has2ndBit (Flags a) \<and> \<not> has5thBit (Flags a) then False else True)"

definition pdr_occupiesSameEntryAs :: "pdr \<Rightarrow> pdr \<Rightarrow> bool" where
  "pdr_occupiesSameEntryAs p other \<longleftrightarrow>
     srcIface p = srcIface other \<and> srcIfaceMask p = srcIfaceMask other \<and>
     tunnelIP4Dst p = tunnelIP4Dst other \<and> tunnelIP4DstMask p = tunnelIP4DstMask other \<and>
     tunnelTEID p = tunnelTEID other \<and> tunnelTEIDMask p = tunnelTEIDMask other \<and>
     af_srcIP (appFilter p) = af_srcIP (appFilter other) \<and>
     af_srcIPMask (appFilter p) = af_srcIPMask (appFilter other) \<and>
     af_dstIP (appFilter p) = af_dstIP (appFilter other) \<and>
     af_dstIPMask (appFilter p) = af_dstIPMask (appFilter other) \<and>
     af_proto (appFilter p) = af_proto (appFilter other) \<and>
     af_protoMask (appFilter p) = af_protoMask (appFilter other) \<and>
     sameMatch (af_srcPortRange (appFilter p)) (af_srcPortRange (appFilter other)) \<and>
     sameMatch (af_dstPortRange (appFilter p)) (af_dstPortRange (appFilter other))"

definition IsUplink :: "pdr \<Rightarrow> bool" where
  "IsUplink p \<longleftrightarrow> srcIface p = access"

definition IsDownlink :: "pdr \<Rightarrow> bool" where
  "IsDownlink p \<longleftrightarrow> srcIface p = core"

definition IsAppFilterEmpty :: "pdr \<Rightarrow> bool" where
  "IsAppFilterEmpty p \<longleftrightarrow>
     af_proto (appFilter p) = 0 \<and>
     (IsUplink p \<and> af_dstIP (appFilter p) = 0 \<and> isWildcardMatch (af_dstPortRange (appFilter p)) \<or>
      IsDownlink p \<and> af_srcIP (appFilter p) = 0 \<and> isWildcardMatch (af_srcPortRange (appFilter p)))"

end
