(* ===== verification/Pfcp_Parse.thy ===== *)
theory Pfcp_Parse
  imports Pfcp_Rules
begin

text \<open>
  Reading rules from information elements: the parsers of \<^verbatim>\<open>parse_pdr.go\<close>, \<^verbatim>\<open>parse_far.go\<close> and
  \<^verbatim>\<open>parse_qer.go\<close>. A parser of a detection rule changes the rule and, for an address the UPF is to
  choose, the pool of UE addresses; it yields both with an error if there is one, since a bad
  filter description is reported but does not stop the caller.
\<close>

section \<open>Packet detection rules\<close>

type_synonym pdr_step = "(ip_pool option \<times> pdr \<times> pfcp_error option) option"

definition parseUEAddressIE :: "'ie ie_api \<Rightarrow> 'ie \<Rightarrow> ip_pool option \<Rightarrow> pdr \<Rightarrow> pdr_step" where
  "parseUEAddressIE api ueAddrIE ippool p =
     (case ie_UEIPAddress api ueAddrIE of
        None \<Rightarrow> Some (ippool, p, Some ErrIE)
      | Some ueIPaddr \<Rightarrow>
          do {
            (ippool, r) \<leftarrow> (if needAllocIP ueIPaddr then LookupOrAllocIP (pdr_fseID p) ippool
                           else Some (ippool, Inr (IPv4Address ueIPaddr)));
            (case r of
               Inl e \<Rightarrow> Some (ippool, p, Some e)
             | Inr ueIP4 \<Rightarrow>
                 let p = (if needAllocIP ueIPaddr then p\<lparr>allocIPFlag := True\<rparr> else p)
                 in if length ueIP4 \<noteq> 4
                    then Some (ippool, p,
                           Some (ErrOperationFailedWithParam ''parse UE Address IE'' ''IP address length''))
                    else Some (ippool, p\<lparr>ueAddress := ip2int ueIP4\<rparr>, None))
          })"

definition parseSourceInterfaceIE :: "'ie ie_api \<Rightarrow> 'ie \<Rightarrow> pdr \<Rightarrow> pdr \<times> pfcp_error option" where
  "parseSourceInterfaceIE api srcIfaceIE p =
     (case ie_SourceInterface api srcIfaceIE of
        None \<Rightarrow> (p, Some ErrIE)
      | Some i \<Rightarrow>
          if i = SrcInterfaceCPFunction then (p, Some (ErrUnsupported ''Source Interface CP Function''))
          else if i = SrcInterfaceAccess then (p\<lparr>srcIface := access, srcIfaceMask := 0xFF\<rparr>, None)
          else if i = SrcInterfaceCore then (p\<lparr>srcIface := core, srcIfaceMask := 0xFF\<rparr>, None)
          else (p, None))"

definition parseFTEID :: "'ie ie_api \<Rightarrow> 'ie \<Rightarrow> pdr \<Rightarrow> pdr \<times> pfcp_error option" where
  "parseFTEID api teidIE p =
     (case ie_FTEID api teidIE of
        None \<Rightarrow> (p, Some ErrIE)
      | Some fteid \<Rightarrow>
          let teid = TEID fteid
          in if HasCh fteid then (p\<lparr>UPAllocateFteid := True\<rparr>, None)
             else if teid \<noteq> 0
             then (p\<lparr>tunnelTEID := teid, tunnelTEIDMask := 0xFFFFFFFF,
                     tunnelIP4Dst := ip2int (fteid_IPv4Address fteid),
                     tunnelIP4DstMask := 0xFFFFFFFF\<rparr>, None)
             else (p, None))"

text \<open>The address and mask of an endpoint; a nil network is dereferenced.\<close>

definition endpoint_net :: "endpoint \<Rightarrow> (u32 \<times> u32) option" where
  "endpoint_net ep =
     do {
       net \<leftarrow> IPNet ep;
       msk \<leftarrow> ipMask2int (net_Mask net);
       Some (ip2int (net_IP net), msk)
     }"

definition set_proto :: "ip_filter_rule \<Rightarrow> application_filter \<Rightarrow> application_filter" where
  "set_proto ipf af =
     (if proto ipf \<noteq> reservedProto then af\<lparr>af_proto := proto ipf, af_protoMask := 0xFF\<rparr> else af)"

fun pfd_loop :: "string list \<Rightarrow> pdr \<Rightarrow> (pdr \<times> pfcp_error option) option" where
  "pfd_loop [] p = Some (p, None)"
| "pfd_loop (flowDesc # rest) p =
     (case parseFlowDesc flowDesc (ip_String (int2ip (ueAddress p))) of
        Inl _ \<Rightarrow> Some (p, Some ErrBadFilterDesc)
      | Inr ipf \<Rightarrow>
          if srcIface p = access \<and> direction ipf = ''out'' \<or> srcIface p = core \<and> direction ipf = ''in''
          then do {
            (dIP, dMask) \<leftarrow> endpoint_net (dst ipf);
            (sIP, sMask) \<leftarrow> endpoint_net (src ipf);
            Some (p\<lparr>appFilter := (set_proto ipf (appFilter p))
                     \<lparr>af_dstIP := dIP, af_dstIPMask := dMask, af_srcIP := sIP, af_srcIPMask := sMask,
                      af_dstPortRange := ports (dst ipf), af_srcPortRange := ports (src ipf)\<rparr>\<rparr>, None)
          }
          else pfd_loop rest p)"

definition parseApplicationID ::
  "'ie ie_api \<Rightarrow> 'ie \<Rightarrow> (string \<rightharpoonup> app_pfd) \<Rightarrow> pdr \<Rightarrow> (pdr \<times> pfcp_error option) option" where
  "parseApplicationID api i appPFDs p =
     (case ie_ApplicationID api i of
        None \<Rightarrow> Some (p, Some ErrIE)
      | Some aID \<Rightarrow>
          (case appPFDs aID of
             None \<Rightarrow> Some (p, Some (ErrNotFoundWithParam ''Application PFD for ApplicationID'' ''application ID''))
           | Some apfd \<Rightarrow> if aID \<noteq> appID apfd then None else pfd_loop (flowDescs apfd) p))"

definition parseSDFFilter :: "'ie ie_api \<Rightarrow> 'ie \<Rightarrow> pdr \<Rightarrow> (pdr \<times> pfcp_error option) option" where
  "parseSDFFilter api i p =
     (case ie_SDFFilter api i of
        None \<Rightarrow> Some (p, Some ErrIE)
      | Some flowDesc \<Rightarrow>
          if flowDesc = []
          then Some (p, Some (ErrOperationFailedWithReason ''parse SDF Filter'' ''empty filter description''))
          else
            (case parseFlowDesc flowDesc (ip_String (int2ip (ueAddress p))) of
               Inl _ \<Rightarrow> Some (p, Some ErrBadFilterDesc)
             | Inr ipf \<Rightarrow>
                 let p = p\<lparr>appFilter := set_proto ipf (appFilter p)\<rparr>
                 in if srcIface p = core then
                      do {
                        (dIP, dMask) \<leftarrow> endpoint_net (dst ipf);
                        (sIP, sMask) \<leftarrow> endpoint_net (src ipf);
                        let af = (appFilter p)
                              \<lparr>af_dstIP := dIP, af_dstIPMask := dMask, af_srcIP := sIP, af_srcIPMask := sMask,
                               af_dstPortRange := ports (dst ipf), af_srcPortRange := ports (src ipf)\<rparr>;
                            af = (if \<not> isWildcardMatch (af_dstPortRange af)
                                  then af\<lparr>af_srcPortRange := af_dstPortRange af,
                                          af_dstPortRange := newWildcardPortRange\<rparr>
                                  else af)
                        in Some (p\<lparr>appFilter := af\<rparr>, None)
                      }
                    else if srcIface p = access then
                      do {
                        (sIP, sMask) \<leftarrow> endpoint_net (dst ipf);
                        (dIP, dMask) \<leftarrow> endpoint_net (src ipf);
                        let af = (appFilter p)
                              \<lparr>af_srcIP := sIP, af_srcIPMask := sMask, af_dstIP := dIP, af_dstIPMask := dMask,
                               af_dstPortRange := ports (src ipf), af_srcPortRange := ports (dst ipf)\<rparr>;
                            af = (if \<not> isWildcardMatch (af_srcPortRange af)
                                  then af\<lparr>af_dstPortRange := af_srcPortRange af,
                                          af_srcPortRange := newWildcardPortRange\<rparr>
                                  else af)
                        in Some (p\<lparr>appFilter := af\<rparr>, None)
                      }
                    else Some (p, None)))"

fun processBasicPDI :: "'ie ie_api \<Rightarrow> 'ie list \<Rightarrow> ip_pool option \<Rightarrow> pdr \<Rightarrow> pdr_step" where
  "processBasicPDI api [] ippool p = Some (ippool, p, None)"
| "processBasicPDI api (i # is) ippool p =
     do {
       (ippool, p, e) \<leftarrow>
         (if ie_Type api i = IE_UEIPAddress then parseUEAddressIE api i ippool p
          else if ie_Type api i = IE_SourceInterface
          then (let (p, e) = parseSourceInterfaceIE api i p in Some (ippool, p, e))
          else if ie_Type api i = IE_FTEID
          then (let (p, e) = parseFTEID api i p in Some (ippool, p, e))
          else Some (ippool, p, None));
       (case e of
          Some e \<Rightarrow> Some (ippool, p, Some e)
        | None \<Rightarrow> processBasicPDI api is ippool p)
     }"

text \<open>The second pass over the elements, for what depends on the UE address.\<close>

fun filter_pass ::
  "'ie ie_api \<Rightarrow> (string \<rightharpoonup> app_pfd) \<Rightarrow> 'ie list \<Rightarrow> pdr \<Rightarrow> (pdr \<times> pfcp_error option) option" where
  "filter_pass api appPFDs [] p = Some (p, None)"
| "filter_pass api appPFDs (i # is) p =
     do {
       (p, e) \<leftarrow>
         (if ie_Type api i = IE_ApplicationID then parseApplicationID api i appPFDs p
          else if ie_Type api i = IE_SDFFilter then parseSDFFilter api i p
          else Some (p, None));
       (case e of
          Some e \<Rightarrow> Some (p, Some e)
        | None \<Rightarrow> filter_pass api appPFDs is p)
     }"

definition init_filter :: "pdr \<Rightarrow> pdr" where
  "init_filter p =
     (if IsDownlink p \<and> ueAddress p \<noteq> 0
      then p\<lparr>appFilter := (appFilter p)\<lparr>af_dstIP := ueAddress p, af_dstIPMask := 0xFFFFFFFF\<rparr>\<rparr>
      else if IsUplink p \<and> ueAddress p \<noteq> 0
      then p\<lparr>appFilter := (appFilter p)\<lparr>af_srcIP := ueAddress p, af_srcIPMask := 0xFFFFFFFF\<rparr>\<rparr>
      else p)"

definition parsePDI ::
  "'ie ie_api \<Rightarrow> 'ie list \<Rightarrow> (string \<rightharpoonup> app_pfd) \<Rightarrow> ip_pool option \<Rightarrow> pdr \<Rightarrow> pdr_step" where
  "parsePDI api pdiIEs appPFDs ippool p =
     do {
       (ippool, p, e) \<leftarrow> processBasicPDI api pdiIEs ippool p;
       (case e of
          Some e \<Rightarrow> Some (ippool, p, Some e)
        | None \<Rightarrow>
            do {
              (p, e) \<leftarrow> filter_pass api appPFDs pdiIEs (init_filter p);
              Some (ippool, p, e)
            })
     }"

definition parseCorePDRFields ::
  "'ie ie_api \<Rightarrow> 'ie \<Rightarrow> (string \<rightharpoonup> app_pfd) \<Rightarrow> ip_pool option \<Rightarrow> pdr \<Rightarrow>
     (ip_pool option \<times> pdr \<times> (u16 \<times> u32 \<times> u32 \<times> u8) result) option" where
  "parseCorePDRFields api ie1 appPFDs ippool p =
     (case (ie_PDRID api ie1, ie_Precedence api ie1, ie_PDI api ie1) of
        (Some ident, Some prec, Some pdi) \<Rightarrow>
          let outerHeaderRemoval = (if ie_OuterHeaderRemovalDescription api ie1 = Some 0 then 1 else 0)
          in do {
            (ippool, p, e) \<leftarrow> parsePDI api pdi appPFDs ippool p;
            (case e of
               Some err \<Rightarrow>
                 if err \<noteq> ErrBadFilterDesc then Some (ippool, p, Inl err)
                 else
                   (case ie_FARID api ie1 of
                      None \<Rightarrow> Some (ippool, p, Inl ErrIE)
                    | Some f \<Rightarrow> Some (ippool, p, Inr (ident, prec, f, outerHeaderRemoval)))
             | None \<Rightarrow>
                 (case ie_FARID api ie1 of
                    None \<Rightarrow> Some (ippool, p, Inl ErrIE)
                  | Some f \<Rightarrow> Some (ippool, p, Inr (ident, prec, f, outerHeaderRemoval))))
          }
      | _ \<Rightarrow> Some (ippool, p, Inl ErrIE))"

definition qer_ids :: "'ie ie_api \<Rightarrow> 'ie list \<Rightarrow> u32 list" where
  "qer_ids api ies = List.map_filter (\<lambda>x. if ie_Type api x = IE_QERID then ie_QERID api x else None) ies"

definition parsePDR ::
  "'ie ie_api \<Rightarrow> 'ie \<Rightarrow> u64 \<Rightarrow> (string \<rightharpoonup> app_pfd) \<Rightarrow> ip_pool option \<Rightarrow> (ip_pool option \<times> pdr result) option" where
  "parsePDR api ie1 seid appPFDs ippool =
     (let p = zero_pdr\<lparr>qerIDList := [], pdr_fseID := seid\<rparr>
      in do {
        (ippool, p, r) \<leftarrow> parseCorePDRFields api ie1 appPFDs ippool p;
        (case r of
           Inl e \<Rightarrow> Some (ippool, Inl e)
         | Inr (ident, prec, f, outerHeaderRemoval) \<Rightarrow>
             (case (if ie_Type api ie1 = IE_CreatePDR then ie_CreatePDR api ie1
                    else if ie_Type api ie1 = IE_UpdatePDR then ie_UpdatePDR api ie1
                    else Some []) of
                None \<Rightarrow> Some (ippool, Inl ErrIE)
              | Some ies \<Rightarrow>
                  Some (ippool, Inr (p\<lparr>qerIDList := qer_ids api ies, precedence := prec,
                    pdrID := ucast ident, pdr_farID := f, needDecap := outerHeaderRemoval\<rparr>))))
      })"

section \<open>Forwarding action rules\<close>

record far =
  farID :: u32
  far_fseID :: u64
  far_fseidIP :: u32
  dstIntf :: u8
  sendEndMarker :: bool
  applyAction :: u8
  tunnelType :: u8
  tunnelIP4Src :: u32
  far_tunnelIP4Dst :: u32
  far_tunnelTEID :: u32
  tunnelPort :: u16

definition zero_far :: far where
  "zero_far =
     \<lparr>farID = 0, far_fseID = 0, far_fseidIP = 0, dstIntf = 0, sendEndMarker = False, applyAction = 0,
      tunnelType = 0, tunnelIP4Src = 0, far_tunnelIP4Dst = 0, far_tunnelTEID = 0, tunnelPort = 0\<rparr>"

definition Drops :: "far \<Rightarrow> bool" where
  "Drops f \<longleftrightarrow> applyAction f AND ActionDrop \<noteq> 0"

definition Buffers :: "far \<Rightarrow> bool" where
  "Buffers f \<longleftrightarrow> applyAction f AND ActionBuffer \<noteq> 0"

definition Forwards :: "far \<Rightarrow> bool" where
  "Forwards f \<longleftrightarrow> applyAction f AND ActionForward \<noteq> 0"

datatype operation = create | update | other_operation int

definition parseFARBasicFields ::
  "'ie ie_api \<Rightarrow> 'ie \<Rightarrow> operation \<Rightarrow> far \<Rightarrow> (far \<times> 'ie list result) option" where
  "parseFARBasicFields api farIE op f =
     (case ie_FARID api farIE of
        None \<Rightarrow> Some (f, Inl ErrIE)
      | Some ident \<Rightarrow>
          let f = f\<lparr>farID := ident\<rparr>
          in (case ie_ApplyAction api farIE of
                None \<Rightarrow> Some (f, Inl ErrIE)
              | Some [] \<Rightarrow> None
              | Some (a # _) \<Rightarrow>
                  if a = 0 then Some (f, Inl (ErrInvalidArgument ''FAR Action''))
                  else
                    let f = f\<lparr>applyAction := a\<rparr>;
                        read = (\<lambda>params. if applyAction f AND ActionForward \<noteq> 0
                                 then (case params api farIE of None \<Rightarrow> Inl ErrIE | Some ies \<Rightarrow> Inr ies)
                                 else Inr [])
                    in (case op of
                          create \<Rightarrow> Some (f, read ie_ForwardingParameters)
                        | update \<Rightarrow> Some (f, read ie_UpdateForwardingParameters)
                        | other_operation _ \<Rightarrow> Some (f, Inl ErrInvalidOperation))))"

text \<open>One forwarding parameter; an element that cannot be decoded is skipped.\<close>

definition forwarding_param :: "'ie ie_api \<Rightarrow> ip \<Rightarrow> ip \<Rightarrow> 'ie \<Rightarrow> far \<Rightarrow> far" where
  "forwarding_param api accessIP coreIP fwdIE f =
     (if ie_Type api fwdIE = IE_OuterHeaderCreation then
        (case ie_OuterHeaderCreation api fwdIE of
           None \<Rightarrow> f
         | Some ohc \<Rightarrow>
             f\<lparr>far_tunnelTEID := ohc_TEID ohc, far_tunnelIP4Dst := ip2int (ohc_IPv4Address ohc),
               tunnelType := 1, tunnelPort := tunnelGTPUPort\<rparr>)
      else if ie_Type api fwdIE = IE_DestinationInterface then
        (let (d, ok) = ie_DestinationInterface api fwdIE; f = f\<lparr>dstIntf := d\<rparr>
         in if \<not> ok then f
            else if d = DstInterfaceAccess then f\<lparr>tunnelIP4Src := ip2int accessIP\<rparr>
            else if d = DstInterfaceCore then f\<lparr>tunnelIP4Src := ip2int coreIP\<rparr>
            else f)
      else if ie_Type api fwdIE = IE_PFCPSMReqFlags then
        (case ie_PFCPSMReqFlags api fwdIE of
           None \<Rightarrow> f
         | Some smReqFlags \<Rightarrow> if has2ndBit smReqFlags then f\<lparr>sendEndMarker := True\<rparr> else f)
      else f)"

definition parseFAR ::
  "'ie ie_api \<Rightarrow> 'ie \<Rightarrow> u64 \<Rightarrow> ip \<Rightarrow> ip \<Rightarrow> operation \<Rightarrow> far result option" where
  "parseFAR api farIE fseid accessIP coreIP op =
     do {
       (f, r) \<leftarrow> parseFARBasicFields api farIE op (zero_far\<lparr>far_fseID := fseid\<rparr>);
       Some (bind_result r (\<lambda>fwdIEs.
         Inr (fold (forwarding_param api accessIP coreIP) fwdIEs (f\<lparr>sendEndMarker := False\<rparr>))))
     }"

section \<open>QoS enforcement rules\<close>

datatype qos_level = ApplicationQos | SessionQos

record qer =
  qerID :: u32
  qosLevel :: qos_level
  qfi :: u8
  ulStatus :: u8
  dlStatus :: u8
  ulMbr :: u64
  dlMbr :: u64
  ulGbr :: u64
  dlGbr :: u64
  qer_fseID :: u64
  qer_fseidIP :: u32

definition qer_occupiesSameEntryAs :: "qer \<Rightarrow> qer \<Rightarrow> bool" where
  "qer_occupiesSameEntryAs q other \<longleftrightarrow> qosLevel q = qosLevel other"

definition parseQER :: "'ie ie_api \<Rightarrow> 'ie \<Rightarrow> u64 \<Rightarrow> qer result" where
  "parseQER api ie1 seid =
     (case ie_QERID api ie1 of
        None \<Rightarrow> Inl ErrIE
      | Some ident \<Rightarrow>
          Inr \<lparr>qerID = ident, qosLevel = ApplicationQos, qfi = ie_QFI api ie1,
               ulStatus = ie_GateStatusUL api ie1, dlStatus = ie_GateStatusDL api ie1,
               ulMbr = ie_MBRUL api ie1, dlMbr = ie_MBRDL api ie1,
               ulGbr = ie_GBRUL api ie1, dlGbr = ie_GBRDL api ie1,
               qer_fseID = seid, qer_fseidIP = 0\<rparr>)"

end
