(* ===== verification/Pfcp_Session.thy ===== *)
theory Pfcp_Session
  imports Pfcp_Parse
begin

text \<open>
  Model of a PFCP session and of the operations on its rules: \<^verbatim>\<open>sessions.go\<close>, \<^verbatim>\<open>session_pdr.go\<close>,
  \<^verbatim>\<open>session_far.go\<close>, \<^verbatim>\<open>session_qer.go\<close> and the session store \<^verbatim>\<open>local_store.go\<close>. Rules are values,
  so a copy of a session shares nothing with the original; \<open>Clone\<close> is what makes this so
  in the code.
\<close>

section \<open>Rules of a session\<close>

record rules =
  pdrs :: "pdr list"
  fars :: "far list"
  qers :: "qer list"

definition no_rules :: rules where
  "no_rules = \<lparr>pdrs = [], fars = [], qers = []\<rparr>"

record session =
  localSEID :: u64
  remoteSEID :: u64
  sess_rules :: rules

text \<open>The first rule of an identifier replaced, and taken out.\<close>

fun replace_first :: "('r \<Rightarrow> u32) \<Rightarrow> 'r \<Rightarrow> 'r list \<Rightarrow> 'r list option" where
  "replace_first ident r [] = None"
| "replace_first ident r (v # vs) =
     (if ident v = ident r then Some (r # vs) else map_option (Cons v) (replace_first ident r vs))"

fun remove_first :: "('r \<Rightarrow> u32) \<Rightarrow> u32 \<Rightarrow> 'r list \<Rightarrow> ('r \<times> 'r list) option" where
  "remove_first ident i [] = None"
| "remove_first ident i (v # vs) =
     (if ident v = i then Some (v, vs) else map_option (map_prod id (Cons v)) (remove_first ident i vs))"

definition findPDR :: "u32 \<Rightarrow> rules \<Rightarrow> pdr option" where
  "findPDR i p = find (\<lambda>v. pdrID v = i) (pdrs p)"

definition findQER :: "u32 \<Rightarrow> rules \<Rightarrow> qer option" where
  "findQER i p = find (\<lambda>v. qerID v = i) (qers p)"

text \<open>The loop over the rules the session had before a message.\<close>

fun held_loop :: "('r \<Rightarrow> u32) \<Rightarrow> 'r list \<Rightarrow> u32 list \<Rightarrow> 'r list \<Rightarrow> 'r list" where
  "held_loop ident updated seen [] = []"
| "held_loop ident updated seen (r # rs) =
     (if ident r \<in> set seen then held_loop ident updated seen rs
      else (if \<exists>u\<in>set updated. ident u = ident r then [r] else []) @
           held_loop ident updated (ident r # seen) rs)"

definition heldVersions :: "('r \<Rightarrow> u32) \<Rightarrow> 'r list \<Rightarrow> nat \<Rightarrow> 'r list \<Rightarrow> 'r list \<times> nat" where
  "heldVersions ident held kept updated =
     (drop kept held @ held_loop ident updated [] (take kept held), length (drop kept held))"

definition Clone :: "rules \<Rightarrow> rules" where
  "Clone p =
     \<lparr>pdrs = map (\<lambda>v. v\<lparr>qerIDList := qerIDList v\<rparr>) (pdrs p), fars = fars p, qers = qers p\<rparr>"

definition CreatePDR :: "pdr \<Rightarrow> rules \<Rightarrow> rules" where
  "CreatePDR p s = s\<lparr>pdrs := pdrs s @ [p]\<rparr>"

definition UpdatePDR :: "pdr \<Rightarrow> rules \<Rightarrow> rules result" where
  "UpdatePDR p s =
     (case replace_first pdrID p (pdrs s) of
        Some ps \<Rightarrow> Inr (s\<lparr>pdrs := ps\<rparr>)
      | None \<Rightarrow> Inl (ErrNotFound ''PDR''))"

definition RemovePDR :: "u32 \<Rightarrow> rules \<Rightarrow> (pdr \<times> rules) result" where
  "RemovePDR i s =
     (case remove_first pdrID i (pdrs s) of
        Some (v, ps) \<Rightarrow> Inr (v, s\<lparr>pdrs := ps\<rparr>)
      | None \<Rightarrow> Inl (ErrNotFound ''PDR''))"

definition CreateFAR :: "far \<Rightarrow> rules \<Rightarrow> rules" where
  "CreateFAR f s = s\<lparr>fars := fars s @ [f]\<rparr>"

definition RemoveFAR :: "u32 \<Rightarrow> rules \<Rightarrow> (far \<times> rules) result" where
  "RemoveFAR i s =
     (case remove_first farID i (fars s) of
        Some (v, fs) \<Rightarrow> Inr (v, s\<lparr>fars := fs\<rparr>)
      | None \<Rightarrow> Inl (ErrNotFound ''FAR''))"

definition CreateQER :: "qer \<Rightarrow> rules \<Rightarrow> rules" where
  "CreateQER q s = s\<lparr>qers := qers s @ [q]\<rparr>"

definition UpdateQER :: "qer \<Rightarrow> rules \<Rightarrow> rules result" where
  "UpdateQER q s =
     (case replace_first qerID q (qers s) of
        Some qs \<Rightarrow> Inr (s\<lparr>qers := qs\<rparr>)
      | None \<Rightarrow> Inl (ErrNotFound ''QER''))"

definition RemoveQER :: "u32 \<Rightarrow> rules \<Rightarrow> (qer \<times> rules) result" where
  "RemoveQER i s =
     (case remove_first qerID i (qers s) of
        Some (v, qs) \<Rightarrow> Inr (v, s\<lparr>qers := qs\<rparr>)
      | None \<Rightarrow> Inl (ErrNotFound ''QER''))"

section \<open>End markers\<close>

definition be_PutUint16 :: "u16 \<Rightarrow> u8 list" where
  "be_PutUint16 v = [ucast (drop_bit 8 v), ucast v]"

definition be_Uint16 :: "u8 list \<Rightarrow> u16" where
  "be_Uint16 a = push_bit 8 (ucast (a ! 0)) OR ucast (a ! 1)"

definition calculateIPv4Checksum :: "u8 list \<Rightarrow> u16" where
  "calculateIPv4Checksum header =
     (if length header < 20 then 0
      else
        let s = fold (\<lambda>i s. s + ucast (be_Uint16 (drop (2 * i) header))) [0..<10] (0 :: u32);
            s = drop_bit 16 s + (s AND 0xFFFF);
            s = s + drop_bit 16 s
        in NOT (ucast s))"

definition endMarkerDstMAC :: "u8 list" where
  "endMarkerDstMAC = [0xBD, 0xBD, 0xBD, 0xBD, 0xBD, 0xBD]"

definition endMarkerSrcMAC :: "u8 list" where
  "endMarkerSrcMAC = [0xFF, 0xAA, 0xFA, 0xAA, 0xFF, 0xAA]"

text \<open>Bytes written over a packet from an offset on.\<close>

definition put_bytes :: "nat \<Rightarrow> u8 list \<Rightarrow> u8 list \<Rightarrow> u8 list" where
  "put_bytes off bs pkt = take off pkt @ bs @ drop (off + length bs) pkt"

definition endMarkerPacket :: "far \<Rightarrow> u8 list" where
  "endMarkerPacket farItem =
     (let packet = replicate 50 0;
          packet = put_bytes 0 endMarkerDstMAC packet;
          packet = put_bytes 6 endMarkerSrcMAC packet;
          packet = put_bytes 12 (be_PutUint16 0x0800) packet;
          packet = packet[14 := 0x45, 15 := 0];
          packet = put_bytes 16 (be_PutUint16 36) packet;
          packet = put_bytes 18 (be_PutUint16 0) packet;
          packet = put_bytes 20 (be_PutUint16 0) packet;
          packet = packet[22 := 64, 23 := 17];
          packet = put_bytes 26 (be_PutUint32 (tunnelIP4Src farItem)) packet;
          packet = put_bytes 30 (be_PutUint32 (far_tunnelIP4Dst farItem)) packet;
          packet = put_bytes 24 (be_PutUint16 (calculateIPv4Checksum (take 20 (drop 14 packet)))) packet;
          packet = put_bytes 34 (be_PutUint16 tunnelGTPUPort) packet;
          packet = put_bytes 36 (be_PutUint16 tunnelGTPUPort) packet;
          packet = put_bytes 38 (be_PutUint16 16) packet;
          packet = put_bytes 40 (be_PutUint16 0) packet;
          packet = packet[42 := 0x30, 43 := 254];
          packet = put_bytes 44 (be_PutUint16 0) packet;
          packet = put_bytes 46 (be_PutUint32 (far_tunnelTEID farItem)) packet
      in packet)"

definition addEndMarker :: "far \<Rightarrow> u8 list list \<Rightarrow> u8 list list" where
  "addEndMarker farItem endMarkerList = endMarkerList @ [endMarkerPacket farItem]"

definition UpdateFAR :: "far \<Rightarrow> u8 list list \<Rightarrow> rules \<Rightarrow> (u8 list list \<times> rules) result" where
  "UpdateFAR f endMarkerList s =
     (case (find (\<lambda>v. farID v = farID f) (fars s), replace_first farID f (fars s)) of
        (Some v, Some fs) \<Rightarrow>
          Inr (if sendEndMarker f then addEndMarker v endMarkerList else endMarkerList, s\<lparr>fars := fs\<rparr>)
      | _ \<Rightarrow> Inl (ErrNotFound ''FAR''))"

section \<open>The session QER\<close>

definition contains :: "u32 list \<Rightarrow> u32 \<Rightarrow> bool" where
  "contains a v \<longleftrightarrow> v \<in> set a"

definition Intersect :: "u32 list \<Rightarrow> u32 list \<Rightarrow> u32 list" where
  "Intersect a b = filter (contains b) a"

fun findItemIndex :: "u32 list \<Rightarrow> u32 \<Rightarrow> nat" where
  "findItemIndex [] v = 0"
| "findItemIndex (x # xs) v = (if v = x then 0 else Suc (findItemIndex xs v))"

text \<open>Go's \<^verbatim>\<open>copy\<close>: the front of the destination is overwritten, its length stays.\<close>

definition go_copy :: "'a list \<Rightarrow> 'a list \<Rightarrow> 'a list" where
  "go_copy dest source = take (length dest) source @ drop (length source) dest"

fun search_loop :: "u32 list \<Rightarrow> pdr list \<Rightarrow> u32 list option" where
  "search_loop sessQerIDList [] = Some sessQerIDList"
| "search_loop sessQerIDList (p # ps) =
     (let sList = Intersect sessQerIDList (qerIDList p)
      in if length sList = 0 then None else search_loop (go_copy sessQerIDList sList) ps)"

text \<open>The selection: index, MBR and identifier of the best candidate so far.\<close>

definition select_qer :: "u32 list \<Rightarrow> nat \<times> qer \<Rightarrow> nat \<times> u64 \<times> u32 \<Rightarrow> nat \<times> u64 \<times> u32" where
  "select_qer sessQerIDList iq st =
     (let (idx, q) = iq; (sessionIdx, sessionMbr, sessQerID) = st
      in if contains sessQerIDList (qerID q)
         then if ulGbr q > 0 \<or> dlGbr q > 0 then st
              else if ulMbr q \<ge> sessionMbr then (idx, ulMbr q, qerID q) else st
         else st)"

definition move_last :: "u32 \<Rightarrow> u32 list \<Rightarrow> u32 list" where
  "move_last v xs =
     (let idx = findItemIndex xs v
      in if idx \<noteq> length xs then take idx xs @ drop (idx + 1) xs @ [v] else xs)"

definition MarkSessionQer :: "pdr list \<Rightarrow> qer list \<Rightarrow> pdr list \<times> qer list" where
  "MarkSessionQer ps qs =
     (if length ps < 1 then (ps, qs)
      else
        let sessQerIDList = qerIDList (ps ! (length ps - 1))
        in if length sessQerIDList < 1 \<or> length qs < 2 then (ps, qs)
           else
             (case search_loop sessQerIDList ps of
                None \<Rightarrow> (ps, qs)
              | Some sessQerIDList \<Rightarrow>
                  let (sessionIdx, _, sessQerID) = fold (select_qer sessQerIDList) (enumerate 0 qs) (0, 0, 0)
                  in (map (\<lambda>p. p\<lparr>qerIDList := move_last sessQerID (qerIDList p)\<rparr>) ps,
                      qs[sessionIdx := (qs ! sessionIdx)\<lparr>qosLevel := SessionQos\<rparr>])))"

section \<open>The store\<close>

type_synonym store = "u64 \<rightharpoonup> session"

definition PutSession :: "session \<Rightarrow> store \<Rightarrow> store result" where
  "PutSession s st =
     (if localSEID s = 0 then Inl (ErrInvalidArgument ''session.localSEID'')
      else Inr (st(localSEID s \<mapsto> s)))"

definition GetSession :: "u64 \<Rightarrow> store \<Rightarrow> session option" where
  "GetSession fseid st = st fseid"

definition DeleteSession :: "u64 \<Rightarrow> store \<Rightarrow> store" where
  "DeleteSession fseid st = st(fseid := None)"

definition DeleteAllSessions :: "store \<Rightarrow> store" where
  "DeleteAllSessions st = Map.empty"

end
