(* ===== verification/Bess_Driver.thy ===== *)
theory Bess_Driver
  imports Pfcp_Session
begin

text \<open>
  Model of the driver \<^verbatim>\<open>bess.go\<close>: how a batch of rules becomes commands to the modules of the
  datapath, and what the batch reports. Every rule of a batch has a goroutine of its own that
  sends its commands one after the other; the order in which the goroutines get a turn, the fate
  of each remote call and how many results arrive before the timer fires are the environment's,
  the record \<open>batch_env\<close>. Serialization and the transport are not modelled beyond
  that. A remote call that is answered after its batch was given up is not modelled.
\<close>

section \<open>The tables of the datapath\<close>

datatype qmodule = PdrLookup | FarLookup | AppQERLookup | SessionQERLookup | SliceMeter

datatype entry =
    WildcardEntry (gate: u64) (priority: int) (valuesv: "u64 list")
  | ExactEntry (gate: u64) (valuesv: "u64 list")
  | QosEntry (gate: u64) (cir: u64) (pir: u64) (cbs: u64) (pbs: u64) (ebs: u64) (deductLen: "nat option")
      (valuesv: "u64 list")

type_synonym location = "qmodule \<times> u64 list \<times> u64 list"
type_synonym tables = "location \<rightharpoonup> entry"

datatype upf_msg_type = upfMsgTypeAdd | upfMsgTypeMod | upfMsgTypeDel | upfMsgTypeClear

datatype command =
    Add location entry
  | Del location
  | Clear qmodule
  | Monitor upf_msg_type u32

section \<open>What a remote call reports\<close>

text \<open>
  The fate of a call: it cannot be marshalled; the module takes it, answering ENOENT to a delete
  of what it does not hold if it is a module that says so; the module declines it with an error
  code; or the transport fails, the module having applied the command or not.
\<close>

datatype fate = MarshalError | Taken bool | Declined nat | Lost bool

datatype reply = RpcError | Response "nat option"
datatype outcome = NoError | RpcFailed | DatapathRefused

definition errnoNoEntry :: nat where "errnoNoEntry = 2"

definition commandOutcome :: "upf_msg_type \<Rightarrow> reply \<Rightarrow> outcome" where
  "commandOutcome m r =
     (case r of
        RpcError \<Rightarrow> RpcFailed
      | Response None \<Rightarrow> NoError
      | Response (Some code) \<Rightarrow>
          if m = upfMsgTypeDel \<and> code = errnoNoEntry then NoError else DatapathRefused)"

definition refused :: "outcome \<Rightarrow> bool" where
  "refused r \<longleftrightarrow> r = DatapathRefused"

fun command_method :: "command \<Rightarrow> upf_msg_type" where
  "command_method (Add _ _) = upfMsgTypeAdd"
| "command_method (Del _) = upfMsgTypeDel"
| "command_method (Clear _) = upfMsgTypeClear"
| "command_method (Monitor m _) = m"

fun perform :: "command \<Rightarrow> tables \<Rightarrow> tables" where
  "perform (Add l e) tb = tb(l \<mapsto> e)"
| "perform (Del l) tb = tb(l := None)"
| "perform (Clear m) tb = (\<lambda>l. if fst l = m then None else tb l)"
| "perform (Monitor _ _) tb = tb"

fun absent :: "command \<Rightarrow> tables \<Rightarrow> bool" where
  "absent (Del l) tb \<longleftrightarrow> tb l = None"
| "absent _ tb \<longleftrightarrow> False"

definition ModuleCommand :: "fate \<Rightarrow> command \<Rightarrow> tables \<Rightarrow> tables \<times> reply" where
  "ModuleCommand ft c tb =
     (case ft of
        MarshalError \<Rightarrow> (tb, RpcError)
      | Taken says \<Rightarrow> (perform c tb, Response (if absent c tb \<and> says then Some errnoNoEntry else None))
      | Declined code \<Rightarrow> (tb, Response (Some code))
      | Lost applied \<Rightarrow> (if applied then perform c tb else tb, RpcError))"

definition process :: "fate \<Rightarrow> command \<Rightarrow> tables \<Rightarrow> tables \<times> outcome" where
  "process ft c tb =
     (let (tb', r) = ModuleCommand ft c tb in (tb', commandOutcome (command_method c) r))"

section \<open>Rules as commands\<close>

definition pdr_location :: "pdr \<Rightarrow> port_product \<Rightarrow> location" where
  "pdr_location p r =
     (PdrLookup,
      [ucast (srcIface p), ucast (tunnelIP4Dst p), ucast (tunnelTEID p), ucast (af_srcIP (appFilter p)),
       ucast (af_dstIP (appFilter p)), ucast (srcPort r), ucast (dstPort r), ucast (af_proto (appFilter p))],
      [ucast (srcIfaceMask p), ucast (tunnelIP4DstMask p), ucast (tunnelTEIDMask p),
       ucast (af_srcIPMask (appFilter p)), ucast (af_dstIPMask (appFilter p)), ucast (srcMask r),
       ucast (dstMask r), ucast (af_protoMask (appFilter p))])"

definition pdr_entry :: "pdr \<Rightarrow> entry" where
  "pdr_entry p =
     WildcardEntry (ucast (needDecap p)) (uint ((- 1 :: u32) - precedence p))
       [ucast (pdrID p), pdr_fseID p, ucast (ctrID p),
        ucast (case qerIDList p of [] \<Rightarrow> 0 | q # _ \<Rightarrow> q), ucast (pdr_farID p)]"

definition pdr_rules :: "pdr \<Rightarrow> port_product list result option" where
  "pdr_rules p = CreatePortRangeCartesianProduct (af_srcPortRange (appFilter p)) (af_dstPortRange (appFilter p))"

type_synonym job = "command list result option"

definition addPDR :: "pdr \<Rightarrow> job" where
  "addPDR p =
     map_option (\<lambda>res. bind_result res (\<lambda>portRules.
       Inr (map (\<lambda>r. Add (pdr_location p r) (pdr_entry p)) portRules))) (pdr_rules p)"

definition delPDR :: "pdr \<Rightarrow> job" where
  "delPDR p =
     map_option (\<lambda>res. bind_result res (\<lambda>portRules.
       Inr (map (\<lambda>r. Del (pdr_location p r)) portRules))) (pdr_rules p)"

definition farForwardD :: u8 where "farForwardD = 0x0"
definition farForwardU :: u8 where "farForwardU = 0x1"
definition farDrop :: u8 where "farDrop = 0x2"
definition farNotify :: u8 where "farNotify = 0x4"

definition setActionValue :: "far \<Rightarrow> u8" where
  "setActionValue f =
     (if applyAction f AND ActionForward \<noteq> 0
      then if dstIntf f = DstInterfaceAccess then farForwardD
           else if dstIntf f = DstInterfaceCore \<or> dstIntf f = DstInterfaceSGiLANN6LAN then farForwardU
           else farDrop
      else if applyAction f AND ActionDrop \<noteq> 0 then farDrop
      else if applyAction f AND ActionBuffer \<noteq> 0 then farNotify
      else if applyAction f AND ActionNotify \<noteq> 0 then farNotify
      else farDrop)"

definition far_location :: "far \<Rightarrow> location" where
  "far_location f = (FarLookup, [ucast (farID f), far_fseID f], [])"

definition far_entry :: "far \<Rightarrow> entry" where
  "far_entry f =
     ExactEntry (ucast (tunnelType f))
       [ucast (setActionValue f), ucast (tunnelType f), ucast (tunnelIP4Src f),
        ucast (far_tunnelIP4Dst f), ucast (far_tunnelTEID f), ucast (tunnelPort f)]"

definition addFAR :: "bool \<Rightarrow> far \<Rightarrow> job" where
  "addFAR enableGtpuPathMonitoring f =
     Some (Inr (Add (far_location f) (far_entry f) #
       (if enableGtpuPathMonitoring then [Monitor upfMsgTypeAdd (far_tunnelIP4Dst f)] else [])))"

definition delFAR :: "bool \<Rightarrow> far \<Rightarrow> job" where
  "delFAR enableGtpuPathMonitoring f =
     Some (Inr (Del (far_location f) #
       (if enableGtpuPathMonitoring then [Monitor upfMsgTypeDel (far_tunnelIP4Dst f)] else [])))"

section \<open>Meters\<close>

record qos_config =
  conf_cbs :: u32
  conf_ebs :: u32
  conf_pbs :: u32
  burstDurationMs :: u32
  schedulePriority :: u32

definition DefaultBurstSize :: u32 where "DefaultBurstSize = 32 * 1514"

definition readQciQosMap :: "(u8 \<times> qos_config) list \<Rightarrow> u8 \<rightharpoonup> qos_config" where
  "readQciQosMap conf =
     (let m = fold (\<lambda>(qci, v) m. m(qci \<mapsto> v)) conf Map.empty
      in if m 0 = None
         then m(0 \<mapsto> \<lparr>conf_cbs = DefaultBurstSize, conf_ebs = DefaultBurstSize, conf_pbs = DefaultBurstSize,
                       burstDurationMs = 10, schedulePriority = 7\<rparr>)
         else m)"

text \<open>
  The configuration of the driver. \<open>calcBurstSizeFromRate\<close> of \<^verbatim>\<open>utils.go\<close> computes in
  64-bit floating point and is a parameter.
\<close>

record driver =
  pathMonitoring :: bool
  qciQosConfig :: "(u8 \<times> qos_config) list"
  calcBurstSizeFromRate :: "u64 \<Rightarrow> u64 \<Rightarrow> u64"

definition maxUint64 :: "u64 \<Rightarrow> u64 \<Rightarrow> u64" where
  "maxUint64 x y = (if x < y then y else x)"

definition qerGateMeter :: u64 where "qerGateMeter = 0"
definition qerGateStatusDrop :: u64 where "qerGateStatusDrop = 5"
definition qerGateUnmeter :: u64 where "qerGateUnmeter = 6"
definition GateStatusOpen :: u8 where "GateStatusOpen = 0"

text \<open>The lookup by flow identifier, the default configuration otherwise.\<close>

definition qos_val :: "driver \<Rightarrow> u8 \<Rightarrow> qos_config" where
  "qos_val b i =
     (let m = readQciQosMap (qciQosConfig b)
      in case m i of Some v \<Rightarrow> v | None \<Rightarrow> the (m 0))"

definition addApplicationQER :: "u64 \<Rightarrow> u8 \<Rightarrow> u64 \<Rightarrow> u64 \<Rightarrow> u64 \<Rightarrow> u64 \<Rightarrow> u64 \<Rightarrow> qer \<Rightarrow> command" where
  "addApplicationQER gt srcIf ci pi cb pb eb q =
     Add (AppQERLookup, [ucast srcIf, ucast (qerID q), qer_fseID q], [])
       (QosEntry gt ci pi cb pb eb None [ucast (qfi q)])"

definition addSessionQER :: "u64 \<Rightarrow> u8 \<Rightarrow> u64 \<Rightarrow> u64 \<Rightarrow> u64 \<Rightarrow> u64 \<Rightarrow> u64 \<Rightarrow> qer \<Rightarrow> command" where
  "addSessionQER gt srcIf ci pi cb pb eb q =
     Add (SessionQERLookup, [ucast srcIf, qer_fseID q], []) (QosEntry gt ci pi cb pb eb None [])"

definition handleUplinkQER :: "driver \<Rightarrow> qer \<Rightarrow> command" where
  "handleUplinkQER b q =
     (let v = qos_val b (qfi q);
          ms = ucast (burstDurationMs v);
          cb = maxUint64 (calcBurstSizeFromRate b (ulGbr q) ms) (ucast (conf_cbs v));
          eb = maxUint64 (calcBurstSizeFromRate b (ulMbr q) ms) (ucast (conf_ebs v));
          pb = maxUint64 (calcBurstSizeFromRate b (ulMbr q) ms) (ucast (conf_ebs v));
          (gt, ci, pi) =
            (if ulStatus q \<noteq> GateStatusOpen then (qerGateStatusDrop, 0, 0)
             else if ulMbr q \<noteq> 0 \<or> ulGbr q \<noteq> 0
             then let ci = maxUint64 ((ulGbr q * 1000) div 8) 1
                  in (qerGateMeter, ci, maxUint64 ((ulMbr q * 1000) div 8) ci)
             else (qerGateUnmeter, 0, 0))
      in case qosLevel q of
           ApplicationQos \<Rightarrow> addApplicationQER gt access ci pi cb pb eb q
         | SessionQos \<Rightarrow> addSessionQER gt access ci pi cb pb eb q)"

definition handleDownlinkQER :: "driver \<Rightarrow> qer \<Rightarrow> command" where
  "handleDownlinkQER b q =
     (let v = qos_val b (qfi q);
          ms = ucast (burstDurationMs v);
          cb = maxUint64 (calcBurstSizeFromRate b (dlGbr q) ms) (ucast (conf_cbs v));
          eb = maxUint64 (calcBurstSizeFromRate b (dlMbr q) ms) (ucast (conf_ebs v));
          pb = maxUint64 (calcBurstSizeFromRate b (dlMbr q) ms) (ucast (conf_ebs v));
          (gt, ci, pi) =
            (if dlStatus q \<noteq> GateStatusOpen then (qerGateStatusDrop, 0, 0)
             else if dlMbr q \<noteq> 0 \<or> dlGbr q \<noteq> 0
             then let ci = maxUint64 ((dlGbr q * 1000) div 8) 1
                  in (qerGateMeter, ci, maxUint64 ((dlMbr q * 1000) div 8) ci)
             else (qerGateUnmeter, 0, 0))
      in case qosLevel q of
           ApplicationQos \<Rightarrow> addApplicationQER gt core ci pi cb pb eb q
         | SessionQos \<Rightarrow> addSessionQER gt core ci pi cb pb eb q)"

definition addQER :: "driver \<Rightarrow> qer \<Rightarrow> job" where
  "addQER b q = Some (Inr [handleUplinkQER b q, handleDownlinkQER b q])"

definition delApplicationQER :: "u8 \<Rightarrow> qer \<Rightarrow> command" where
  "delApplicationQER srcIf q = Del (AppQERLookup, [ucast srcIf, ucast (qerID q), qer_fseID q], [])"

definition delSessionQER :: "u8 \<Rightarrow> qer \<Rightarrow> command" where
  "delSessionQER srcIf q = Del (SessionQERLookup, [ucast srcIf, qer_fseID q], [])"

definition delQER :: "qer \<Rightarrow> job" where
  "delQER q =
     Some (Inr (case qosLevel q of
                  ApplicationQos \<Rightarrow> [delApplicationQER access q, delApplicationQER core q]
                | SessionQos \<Rightarrow> [delSessionQER access q, delSessionQER core q]))"

section \<open>Slice meters\<close>

record slice_meter_config =
  N6RateBps :: u64
  N6BurstBytes :: u64
  N3RateBps :: u64
  N3BurstBytes :: u64

text \<open>The rates are variables of the caller: the downlink meter starts from what the uplink one left.\<close>

definition handleUplinkSliceMeter :: "slice_meter_config \<Rightarrow> u64 \<times> u64 \<Rightarrow> command \<times> u64 \<times> u64" where
  "handleUplinkSliceMeter m rates =
     (let (gt, ci, pi) =
            (if N6RateBps m \<noteq> 0 then (0, 1, N6RateBps m div 8) else (6, fst rates, snd rates));
          pb = (if N6BurstBytes m \<noteq> 0 then N6BurstBytes m else ucast DefaultBurstSize)
      in (Add (SliceMeter, [ucast farForwardU, 0], []) (QosEntry gt ci pi 1 pb 0 (Some 0) []), ci, pi))"

definition handleDownlinkSliceMeter :: "slice_meter_config \<Rightarrow> u64 \<times> u64 \<Rightarrow> command \<times> u64 \<times> u64" where
  "handleDownlinkSliceMeter m rates =
     (let (gt, ci, pi) =
            (if N3RateBps m \<noteq> 0 then (0, 1, N3RateBps m div 8) else (6, fst rates, snd rates));
          pb = (if N3BurstBytes m \<noteq> 0 then N3BurstBytes m else ucast DefaultBurstSize)
      in (Add (SliceMeter, [ucast farForwardD, 1], []) (QosEntry gt ci pi 1 pb 0 (Some 50) []), ci, pi))"

definition addSliceMeter :: "slice_meter_config \<Rightarrow> job" where
  "addSliceMeter m =
     (let (up, rates) = handleUplinkSliceMeter m (0, 0);
          (down, _) = handleDownlinkSliceMeter m rates
      in Some (Inr [up, down]))"

section \<open>The goroutine of a rule\<close>

text \<open>
  A goroutine has commands left to send, or has reported whether its rule was programmed. A
  translation that fails reports at once; one that never returns never reports.
\<close>

record worker =
  todo :: "command list"
  reported :: "bool option"

definition new_worker :: "job \<Rightarrow> worker" where
  "new_worker j =
     (case j of
        None \<Rightarrow> \<lparr>todo = [], reported = None\<rparr>
      | Some (Inl _) \<Rightarrow> \<lparr>todo = [], reported = Some False\<rparr>
      | Some (Inr cs) \<Rightarrow> \<lparr>todo = cs, reported = (if cs = [] then Some True else None)\<rparr>)"

text \<open>
  Whether the goroutine goes on after a command. A rule that cannot be marshalled stops the
  goroutine of a PDR, a FAR and a slice meter; that of a QER goes on, because the error it
  returns is not a refusal. The answer about path monitoring does not matter.
\<close>

fun goes_on :: "fate \<Rightarrow> command \<Rightarrow> outcome \<Rightarrow> bool" where
  "goes_on MarshalError (Add (m, _) _) r \<longleftrightarrow> m = AppQERLookup \<or> m = SessionQERLookup"
| "goes_on MarshalError (Del (m, _)) r \<longleftrightarrow> m = AppQERLookup \<or> m = SessionQERLookup"
| "goes_on MarshalError _ r \<longleftrightarrow> False"
| "goes_on _ (Monitor _ _) r \<longleftrightarrow> True"
| "goes_on _ _ r \<longleftrightarrow> \<not> refused r"

definition advance :: "fate \<Rightarrow> worker \<Rightarrow> tables \<Rightarrow> worker \<times> tables" where
  "advance ft w tb =
     (case todo w of
        [] \<Rightarrow> (w, tb)
      | c # cs \<Rightarrow>
          let (tb', r) = process ft c tb
          in (if goes_on ft c r
              then \<lparr>todo = cs, reported = (if cs = [] then Some True else None)\<rparr>
              else \<lparr>todo = [], reported = Some False\<rparr>, tb'))"

section \<open>A batch\<close>

fun run_batch :: "(nat \<times> fate) list \<Rightarrow> worker list \<Rightarrow> tables \<Rightarrow> worker list \<times> tables" where
  "run_batch [] ws tb = (ws, tb)"
| "run_batch ((i, ft) # steps) ws tb =
     (if i < length ws
      then let (w, tb') = advance ft (ws ! i) tb in run_batch steps (ws[i := w]) tb'
      else run_batch steps ws tb)"

fun GRPCJoin :: "nat \<Rightarrow> bool \<Rightarrow> bool list \<Rightarrow> bool \<times> bool" where
  "GRPCJoin 0 succeeded results = (True, succeeded)"
| "GRPCJoin (Suc calls) succeeded [] = (False, False)"
| "GRPCJoin (Suc calls) succeeded (ok # results) = GRPCJoin calls (succeeded \<and> ok) results"

text \<open>
  The environment of a batch: the turns of the goroutines with the fate of each call, and how
  many of the results sent were received when the timer fired.
\<close>

record batch_env =
  steps :: "(nat \<times> fate) list"
  received :: nat

definition results :: "worker list \<Rightarrow> bool list" where
  "results ws = List.map_filter reported ws"

datatype cause =
    CauseRequestAccepted | CauseRequestRejected | CauseSessionContextNotFound | CauseMandatoryIEMissing
  | CauseNoEstablishedPFCPAssociation | CauseNoResourcesAvailable

definition batch_jobs :: "driver \<Rightarrow> upf_msg_type \<Rightarrow> rules \<Rightarrow> job list" where
  "batch_jobs b m p =
     (case m of
        upfMsgTypeDel \<Rightarrow> map delPDR (pdrs p) @ map (delFAR (pathMonitoring b)) (fars p) @ map delQER (qers p)
      | upfMsgTypeClear \<Rightarrow> []
      | _ \<Rightarrow> map addPDR (pdrs p) @ map (addFAR (pathMonitoring b)) (fars p) @ map (addQER b) (qers p))"

definition SendMsgToUPFWithCompletion ::
    "driver \<Rightarrow> batch_env \<Rightarrow> upf_msg_type \<Rightarrow> rules \<Rightarrow> rules \<Rightarrow> tables \<Rightarrow> tables \<times> cause \<times> bool" where
  "SendMsgToUPFWithCompletion b env m all_rules updated tb =
     (let p = (if m = upfMsgTypeMod then updated else all_rules);
          calls = length (pdrs p) + length (fars p) + length (qers p)
      in if calls = 0 then (tb, CauseRequestAccepted, True)
         else let (ws, tb') = run_batch (steps env) (map new_worker (batch_jobs b m p)) tb;
                  (completed, succeeded) = GRPCJoin calls True (take (received env) (results ws))
              in (tb', if completed \<and> \<not> succeeded then CauseRequestRejected else CauseRequestAccepted,
                  completed))"

definition SendMsgToUPF ::
    "driver \<Rightarrow> batch_env \<Rightarrow> upf_msg_type \<Rightarrow> rules \<Rightarrow> rules \<Rightarrow> tables \<Rightarrow> tables \<times> cause" where
  "SendMsgToUPF b env m all_rules updated tb =
     (let (tb', c, _) = SendMsgToUPFWithCompletion b env m all_rules updated tb in (tb', c))"

definition AddSliceInfo :: "batch_env \<Rightarrow> slice_meter_config \<Rightarrow> tables \<Rightarrow> tables \<times> unit result" where
  "AddSliceInfo env m tb =
     (let (ws, tb') = run_batch (steps env) [new_worker (addSliceMeter m)] tb;
          (completed, succeeded) = GRPCJoin 1 True (take (received env) (results ws))
      in (tb', if completed \<and> \<not> succeeded
               then Inl (ErrOperationFailedWithReason ''slice meter'' ''the datapath refused the meter'')
               else Inr ()))"

section \<open>Clearing the datapath\<close>

text \<open>At start the agent clears the tables of rules one after the other, and stops only at a command it cannot marshal.\<close>

fun clear_loop :: "fate list \<Rightarrow> command list \<Rightarrow> tables \<Rightarrow> tables" where
  "clear_loop (ft # fts) (c # cs) tb =
     (if ft = MarshalError then tb else clear_loop fts cs (fst (process ft c tb)))"
| "clear_loop _ _ tb = tb"

definition clearState :: "driver \<Rightarrow> fate list \<Rightarrow> tables \<Rightarrow> tables" where
  "clearState b fts tb =
     clear_loop fts
       ([Clear PdrLookup, Clear FarLookup] @
        (if pathMonitoring b then [Monitor upfMsgTypeClear 0] else []) @
        [Clear AppQERLookup, Clear SessionQERLookup]) tb"

end
