(* ===== verification/Bess_Batch.thy ===== *)
theory Bess_Batch
  imports Bess_Driver
begin

text \<open>
  What a batch of the driver does to the tables: the locations a rule occupies, what can change
  whatever the environment does, and what a batch that finished and was not refused has achieved.
\<close>

section \<open>Locations and entries of rules\<close>

definition job_commands :: "job \<Rightarrow> command list" where
  "job_commands j = (case j of Some (Inr cs) \<Rightarrow> cs | _ \<Rightarrow> [])"

definition pdr_products :: "pdr \<Rightarrow> port_product list" where
  "pdr_products p = (case pdr_rules p of Some (Inr rs) \<Rightarrow> rs | _ \<Rightarrow> [])"

definition translatable :: "pdr \<Rightarrow> bool" where
  "translatable p \<longleftrightarrow> (\<exists>rs. pdr_rules p = Some (Inr rs))"

definition pdr_locations :: "pdr \<Rightarrow> location set" where
  "pdr_locations p = pdr_location p ` set (pdr_products p)"

definition qer_locations :: "qer \<Rightarrow> location set" where
  "qer_locations q =
     (\<lambda>i. case qosLevel q of
            ApplicationQos \<Rightarrow> (AppQERLookup, [ucast i, ucast (qerID q), qer_fseID q], [])
          | SessionQos \<Rightarrow> (SessionQERLookup, [ucast i, qer_fseID q], [])) ` {access, core}"

definition rule_locations :: "rules \<Rightarrow> location set" where
  "rule_locations p =
     \<Union> (pdr_locations ` set (pdrs p)) \<union> far_location ` set (fars p) \<union> \<Union> (qer_locations ` set (qers p))"

text \<open>What the commands of a rule write.\<close>

definition commands_write :: "command list \<Rightarrow> (location \<times> entry) set" where
  "commands_write cs = {(l, e). Add l e \<in> set cs}"

definition batch_commands :: "driver \<Rightarrow> upf_msg_type \<Rightarrow> rules \<Rightarrow> command list" where
  "batch_commands b m p = concat (map job_commands (batch_jobs b m p))"

definition rule_entries :: "driver \<Rightarrow> rules \<Rightarrow> (location \<times> entry) set" where
  "rule_entries b p = commands_write (batch_commands b upfMsgTypeAdd p)"

fun is_delete :: "command \<Rightarrow> bool" where
  "is_delete (Del _) = True"
| "is_delete (Monitor _ _) = True"
| "is_delete _ = False"

fun is_add :: "command \<Rightarrow> bool" where
  "is_add (Add _ _) = True"
| "is_add (Monitor _ _) = True"
| "is_add _ = False"

lemma jobs_commands [simp]:
  "set (job_commands (delPDR p)) = Del ` pdr_locations p"
  "set (job_commands (addPDR p)) = (\<lambda>l. Add l (pdr_entry p)) ` pdr_locations p"
  by (cases "pdr_rules p"; cases "the (pdr_rules p)";
      simp add: job_commands_def delPDR_def addPDR_def pdr_locations_def pdr_products_def bind_result_def
        image_image)+

lemma delQER_commands [simp]: "set (job_commands (delQER q)) = Del ` qer_locations q"
  by (cases "qosLevel q")
    (auto simp: job_commands_def delQER_def qer_locations_def delApplicationQER_def delSessionQER_def)

lemma FAR_commands [simp]:
  "set (job_commands (addFAR mon f)) =
     insert (Add (far_location f) (far_entry f)) (if mon then {Monitor upfMsgTypeAdd (far_tunnelIP4Dst f)} else {})"
  "set (job_commands (delFAR mon f)) =
     insert (Del (far_location f)) (if mon then {Monitor upfMsgTypeDel (far_tunnelIP4Dst f)} else {})"
  by (simp_all add: job_commands_def addFAR_def delFAR_def)

lemma handle_QER:
  "\<exists>e. handleUplinkQER b q = Add (case qosLevel q of
       ApplicationQos \<Rightarrow> (AppQERLookup, [ucast access, ucast (qerID q), qer_fseID q], [])
     | SessionQos \<Rightarrow> (SessionQERLookup, [ucast access, qer_fseID q], [])) e"
  "\<exists>e. handleDownlinkQER b q = Add (case qosLevel q of
       ApplicationQos \<Rightarrow> (AppQERLookup, [ucast core, ucast (qerID q), qer_fseID q], [])
     | SessionQos \<Rightarrow> (SessionQERLookup, [ucast core, qer_fseID q], [])) e"
  by (auto simp: handleUplinkQER_def handleDownlinkQER_def addApplicationQER_def addSessionQER_def Let_def
      split: qos_level.splits prod.splits)

lemma batch_commands_delete:
  "Del l \<in> set (batch_commands b upfMsgTypeDel p) \<longleftrightarrow> l \<in> rule_locations p"
  "c \<in> set (batch_commands b upfMsgTypeDel p) \<Longrightarrow> is_delete c"
  by (auto simp: batch_commands_def batch_jobs_def rule_locations_def image_iff split: if_splits)

lemma batch_commands_Mod: "batch_commands b upfMsgTypeMod p = batch_commands b upfMsgTypeAdd p"
  by (simp add: batch_commands_def batch_jobs_def)

lemma batch_commands_add:
  "c \<in> set (batch_commands b upfMsgTypeAdd p) \<Longrightarrow> is_add c"
  using handle_QER
  by (auto simp: batch_commands_def batch_jobs_def addQER_def job_commands_def [of "Some _"]
      split: if_splits) (metis is_add.simps(1))+

lemma rule_entries_locations: "fst ` rule_entries b p = rule_locations p"
proof -
  have q: "{l. \<exists>e. Add l e \<in> set (job_commands (addQER b q))} = qer_locations q" for q
    using handle_QER [of b q]
    by (auto simp: addQER_def job_commands_def qer_locations_def split: qos_level.splits)
  have "fst ` rule_entries b p = {l. \<exists>e. Add l e \<in> set (batch_commands b upfMsgTypeAdd p)}"
    by (force simp: rule_entries_def commands_write_def)
  also have "\<dots> = {l. \<exists>j\<in>set (batch_jobs b upfMsgTypeAdd p). \<exists>e. Add l e \<in> set (job_commands j)}"
    by (auto simp: batch_commands_def)
  also have "\<dots> = (\<Union>r\<in>set (pdrs p). {l. \<exists>e. Add l e \<in> set (job_commands (addPDR r))}) \<union>
      (\<Union>r\<in>set (fars p). {l. \<exists>e. Add l e \<in> set (job_commands (addFAR (pathMonitoring b) r))}) \<union>
      (\<Union>r\<in>set (qers p). {l. \<exists>e. Add l e \<in> set (job_commands (addQER b r))})"
    by (simp add: batch_jobs_def bex_Un del: jobs_commands FAR_commands) blast
  also have "\<dots> = rule_locations p"
    by (auto simp: rule_locations_def q image_iff split: if_splits)
  finally show ?thesis .
qed

section \<open>What a batch can change\<close>

fun touches :: "command \<Rightarrow> location \<Rightarrow> entry option \<Rightarrow> bool" where
  "touches (Add l e) l' v \<longleftrightarrow> l' = l \<and> v = Some e"
| "touches (Del l) l' v \<longleftrightarrow> l' = l \<and> v = None"
| "touches (Clear m) l' v \<longleftrightarrow> fst l' = m \<and> v = None"
| "touches (Monitor _ _) l' v \<longleftrightarrow> False"

lemma perform_touches: "perform c tb l = tb l \<or> touches c l (perform c tb l)"
  by (cases c) auto

lemma process_perform: "fst (process ft c tb) = tb \<or> fst (process ft c tb) = perform c tb"
  by (auto simp: process_def ModuleCommand_def split: fate.splits)

lemma advance_touches:
  assumes "advance ft w tb = (w', tb')"
  shows "set (todo w') \<subseteq> set (todo w)"
    and "tb' l = tb l \<or> (\<exists>c\<in>set (todo w). touches c l (tb' l))"
proof -
  show "set (todo w') \<subseteq> set (todo w)"
    using assms by (auto simp: advance_def split: list.splits prod.splits if_splits)
  show "tb' l = tb l \<or> (\<exists>c\<in>set (todo w). touches c l (tb' l))"
  proof (cases "todo w")
    case Nil
    then show ?thesis using assms by (simp add: advance_def)
  next
    case (Cons c cs)
    then have "tb' = fst (process ft c tb)" using assms by (auto simp: advance_def split: prod.splits)
    then show ?thesis
      using process_perform [of ft c tb] perform_touches [of c tb l] Cons by auto
  qed
qed

lemma run_batch_length: "length (fst (run_batch st ws tb)) = length ws"
  by (induction st ws tb rule: run_batch.induct) (auto split: prod.splits)

lemma run_batch_touches:
  "snd (run_batch st ws tb) l = tb l \<or>
   (\<exists>w\<in>set ws. \<exists>c\<in>set (todo w). touches c l (snd (run_batch st ws tb) l))"
proof (induction st ws tb rule: run_batch.induct)
  case (1 ws tb)
  then show ?case by simp
next
  case (2 i ft st ws tb)
  show ?case
  proof (cases "i < length ws")
    case True
    obtain w tb1 where adv: "advance ft (ws ! i) tb = (w, tb1)" by fastforce
    let ?final = "snd (run_batch st (ws[i := w]) tb1) l"
    have r: "snd (run_batch ((i, ft) # st) ws tb) l = ?final" using True adv by simp
    have sub: "\<exists>w\<in>set ws. set (todo v) \<subseteq> set (todo w)" if "v \<in> set (ws[i := w])" for v
      using that advance_touches(1) [OF adv] True set_update_subset_insert [of ws i w] nth_mem [OF True] by blast
    from 2(1) [OF True adv [symmetric] refl]
    show ?thesis
    proof
      assume same: "?final = tb1 l"
      then show ?thesis unfolding r using advance_touches(2) [OF adv, of l] nth_mem [OF True] by metis
    next
      assume "\<exists>w\<in>set (ws[i := w]). \<exists>c\<in>set (todo w). touches c l ?final"
      then show ?thesis unfolding r using sub by blast
    qed
  next
    case False
    then show ?thesis using 2(2) by simp
  qed
qed

lemma todo_new_worker [simp]: "todo (new_worker j) = job_commands j"
  by (simp add: new_worker_def job_commands_def split: option.splits sum.splits)

lemma SendMsg_touches:
  assumes "SendMsgToUPFWithCompletion b env m p u tb = (tb', c, fin)"
  shows "tb' l = tb l \<or> (\<exists>c\<in>set (batch_commands b m (if m = upfMsgTypeMod then u else p)). touches c l (tb' l))"
  using assms
    run_batch_touches [of "steps env" "map new_worker (batch_jobs b m (if m = upfMsgTypeMod then u else p))" tb l]
  by (fastforce simp: SendMsgToUPFWithCompletion_def Let_def batch_commands_def split: prod.splits if_splits)

section \<open>The join\<close>

lemma concat_map_mem: "x \<in> set (concat (map f ys)) \<longleftrightarrow> (\<exists>y\<in>set ys. x \<in> set (f y))"
  by simp

lemma GRPCJoin_True:
  "GRPCJoin n s rs = (True, True) \<Longrightarrow> n \<le> length rs \<and> s \<and> (\<forall>x\<in>set (take n rs). x)"
  by (induction n s rs rule: GRPCJoin.induct) auto

lemma length_results: "length (results ws) \<le> length ws"
  by (simp add: results_def List.map_filter_def)

lemma results_all:
  assumes "length ws \<le> length (results ws)" "\<forall>x\<in>set (results ws). x" "w \<in> set ws"
  shows "reported w = Some True"
proof -
  have "filter (\<lambda>x. reported x \<noteq> None) ws = ws"
    using assms(1) by (metis (no_types, lifting) List.map_filter_def filter_True length_filter_less length_map
        linorder_not_less results_def)
  then have "reported w \<noteq> None" using assms(3) by (metis (mono_tags, lifting) filter_id_conv)
  then show ?thesis using assms(2,3) by (auto simp: results_def List.map_filter_def image_iff)
qed

lemma join_all:
  assumes "GRPCJoin (length ws) True (take k (results ws)) = (True, True)" "w \<in> set ws"
  shows "reported w = Some True"
proof (rule results_all [OF _ _ assms(2)])
  have "length ws \<le> length (take k (results ws))" "\<forall>x\<in>set (take (length ws) (take k (results ws))). x"
    using GRPCJoin_True [OF assms(1)] by auto
  moreover from this length_results [of ws]
  have "take (length ws) (take k (results ws)) = results ws" by simp
  ultimately show "length ws \<le> length (results ws)" "\<forall>x\<in>set (results ws). x" by auto
qed

lemma length_batch_jobs:
  "m \<noteq> upfMsgTypeClear \<Longrightarrow> length (batch_jobs b m p) = length (pdrs p) + length (fars p) + length (qers p)"
  by (cases m) (auto simp: batch_jobs_def)

lemma SendMsg_run:
  assumes "m \<noteq> upfMsgTypeClear" "q = (if m = upfMsgTypeMod then u else p)" "batch_jobs b m q \<noteq> []"
    and "run_batch (steps env) (map new_worker (batch_jobs b m q)) tb = (ws, tb')"
    and "GRPCJoin (length (batch_jobs b m q)) True (take (received env) (results ws)) = (completed, succeeded)"
  shows "SendMsgToUPFWithCompletion b env m p u tb =
    (tb', if completed \<and> \<not> succeeded then CauseRequestRejected else CauseRequestAccepted, completed)"
proof -
  have len: "length (batch_jobs b m q) = length (pdrs q) + length (fars q) + length (qers q)"
    using length_batch_jobs assms(1) .
  then have "length (pdrs q) + length (fars q) + length (qers q) \<noteq> 0" using assms(3) by auto
  then show ?thesis using assms(4,5) unfolding SendMsgToUPFWithCompletion_def Let_def assms(2) [symmetric] len
    by auto
qed

section \<open>What a finished batch has achieved\<close>

text \<open>
  A batch works towards a goal for each of its commands: performing the command reaches its goal,
  and no command of the batch undoes the goal of another.
\<close>

locale batch_goal =
  fixes good :: "command \<Rightarrow> tables \<Rightarrow> bool" and kind :: "command \<Rightarrow> bool"
  assumes reach: "kind c \<Longrightarrow> good c (perform c tb)"
    and keep: "kind c \<Longrightarrow> kind c' \<Longrightarrow> good c tb \<Longrightarrow> good c (perform c' tb)"
    and monitor: "good (Monitor m a) tb"

text \<open>
  A call the module answered. A module answers ENOENT to a delete only when it does not hold
  the entry, so declining with that code is excluded.
\<close>

fun answered :: "fate \<Rightarrow> bool" where
  "answered (Taken _) = True"
| "answered (Declined code) = (code \<noteq> errnoNoEntry)"
| "answered _ = False"

definition job_done :: "(command \<Rightarrow> tables \<Rightarrow> bool) \<Rightarrow> job \<Rightarrow> worker \<Rightarrow> tables \<Rightarrow> bool" where
  "job_done good j w tb \<longleftrightarrow>
     todo w = [] \<and> reported w = Some False \<or>
     todo w = [] \<and> reported w = None \<and> j = None \<or>
     (\<exists>cs ds. j = Some (Inr cs) \<and> cs = ds @ todo w \<and> (\<forall>c\<in>set ds. good c tb) \<and>
        reported w = (if todo w = [] then Some True else None))"

lemma job_done_new: "job_done good j (new_worker j) tb"
  by (auto simp: job_done_def new_worker_def split: option.splits sum.splits)

context batch_goal
begin

lemma process_good:
  assumes "answered ft" "goes_on ft c r" "process ft c tb = (tb', r)" "kind c"
  shows "good c tb'"
proof (cases ft)
  case (Taken x)
  then show ?thesis using assms reach by (auto simp: process_def ModuleCommand_def)
next
  case (Declined code)
  then show ?thesis using assms monitor
    by (cases c) (auto simp: process_def ModuleCommand_def commandOutcome_def refused_def)
qed (use assms in auto)

lemma process_keeps:
  assumes "process ft c tb = (tb', r)" "kind c" "kind c'" "good c' tb"
  shows "good c' tb'"
  using process_perform [of ft c tb] assms keep by auto

lemma advance_job:
  assumes "answered ft" "advance ft w tb = (w', tb')" "job_done good j w tb"
    and "\<forall>c\<in>set (job_commands j). kind c"
  shows "job_done good j w' tb'"
proof (cases "todo w")
  case Nil
  then have "w' = w" "tb' = tb" using assms(2) by (auto simp: advance_def)
  then show ?thesis using assms(3) by simp
next
  case (Cons c cs)
  then obtain ds where j: "j = Some (Inr (ds @ c # cs))" and ds: "\<forall>d\<in>set ds. good d tb"
    using assms(3) by (auto simp: job_done_def)
  then have k: "kind c" "\<forall>d\<in>set ds. kind d" using assms(4) by (auto simp: job_commands_def)
  obtain r where p: "process ft c tb = (tb', r)"
    using assms(2) Cons by (auto simp: advance_def split: prod.splits)
  have w: "w' = (if goes_on ft c r then \<lparr>todo = cs, reported = (if cs = [] then Some True else None)\<rparr>
      else \<lparr>todo = [], reported = Some False\<rparr>)"
    using assms(2) Cons p by (simp add: advance_def)
  show ?thesis
  proof (cases "goes_on ft c r")
    case True
    have "\<forall>d\<in>set (ds @ [c]). good d tb'"
      using process_good [OF assms(1) True p k(1)] process_keeps [OF p k(1)] ds k(2) by auto
    then show ?thesis unfolding job_done_def
      by (intro disjI2 exI [of _ "ds @ c # cs"] exI [of _ "ds @ [c]"]) (simp add: w True j)
  qed (simp add: job_done_def w)
qed

lemma advance_other:
  assumes "advance ft w tb = (w', tb')" "\<forall>c\<in>set (todo w). kind c" "job_done good j v tb"
    and "\<forall>c\<in>set (job_commands j). kind c"
  shows "job_done good j v tb'"
proof (cases "todo w")
  case Nil
  then show ?thesis using assms by (simp add: advance_def)
next
  case (Cons c cs)
  then obtain r where p: "process ft c tb = (tb', r)"
    using assms(1) by (auto simp: advance_def split: prod.splits)
  have "kind c" using assms(2) Cons by simp
  then show ?thesis
    using assms(3,4) process_keeps [OF p] unfolding job_done_def job_commands_def by fastforce
qed

lemma job_done_todo:
  assumes "job_done good j w tb" "\<forall>c\<in>set (job_commands j). kind c"
  shows "\<forall>c\<in>set (todo w). kind c"
  using assms by (auto simp: job_done_def job_commands_def)

lemma run_batch_jobs:
  assumes "\<forall>(i, ft)\<in>set st. answered ft" "\<forall>j\<in>set js. \<forall>c\<in>set (job_commands j). kind c"
    and "length ws = length js" "\<forall>i<length js. job_done good (js ! i) (ws ! i) tb"
    and "run_batch st ws tb = (ws', tb')"
  shows "length ws' = length js \<and> (\<forall>i<length js. job_done good (js ! i) (ws' ! i) tb')"
  using assms
proof (induction st ws tb rule: run_batch.induct)
  case (1 ws tb)
  then show ?case by simp
next
  case (2 i ft st ws tb)
  show ?case
  proof (cases "i < length ws")
    case True
    obtain w tb1 where adv: "advance ft (ws ! i) tb = (w, tb1)" by fastforce
    have i: "i < length js" using True 2 by simp
    have kinds: "\<forall>c\<in>set (job_commands (js ! k)). kind c" if "k < length js" for k
      using 2(4) that by auto
    have "job_done good (js ! k) (ws[i := w] ! k) tb1" if k: "k < length js" for k
    proof (cases "k = i")
      case True
      then show ?thesis
        using advance_job [OF _ adv, of "js ! i"] 2 i kinds by auto
    next
      case False
      have t: "\<forall>c\<in>set (todo (ws ! i)). kind c"
        using job_done_todo [of "js ! i" "ws ! i" tb] 2(6) i kinds by blast
      show ?thesis
        using advance_other [OF adv t, of "js ! k" "ws ! k"] 2(6) k kinds False by simp
    qed
    then show ?thesis using 2(1) [OF True adv [symmetric] refl] 2 True adv by simp
  next
    case False
    then show ?thesis using 2 by simp
  qed
qed

lemma finished_batch:
  assumes "SendMsgToUPFWithCompletion b env m p u tb = (tb', CauseRequestAccepted, True)"
    and "\<forall>(i, ft)\<in>set (steps env). answered ft" and "m \<noteq> upfMsgTypeClear"
    and "q = (if m = upfMsgTypeMod then u else p)" and kinds: "\<forall>c\<in>set (batch_commands b m q). kind c"
    and c: "c \<in> set (batch_commands b m q)"
  shows "good c tb'"
proof -
  let ?js = "batch_jobs b m q"
  have ne: "?js \<noteq> []" using c by (auto simp: batch_commands_def)
  obtain ws tb1 where run: "run_batch (steps env) (map new_worker ?js) tb = (ws, tb1)" by fastforce
  obtain x y where xy: "GRPCJoin (length ?js) True (take (received env) (results ws)) = (x, y)" by fastforce
  from SendMsg_run [OF assms(3,4) ne run xy] assms(1)
  have tb1: "tb1 = tb'" and join: "GRPCJoin (length ?js) True (take (received env) (results ws)) = (True, True)"
    using xy by (auto split: if_splits)
  note run = run [unfolded tb1]
  have js: "\<forall>j\<in>set ?js. \<forall>c\<in>set (job_commands j). kind c" using kinds by (auto simp: batch_commands_def)
  have "length (map new_worker ?js) = length ?js"
    "\<forall>i<length ?js. job_done good (?js ! i) (map new_worker ?js ! i) tb" by (simp_all add: job_done_new)
  from run_batch_jobs [OF assms(2) js this run]
  have ws: "length ws = length ?js" "\<forall>i<length ?js. job_done good (?js ! i) (ws ! i) tb'" by auto
  obtain i where i: "i < length ?js" "c \<in> set (job_commands (?js ! i))"
    using c unfolding batch_commands_def by (metis concat_map_mem in_set_conv_nth)
  have "reported (ws ! i) = Some True" using join_all [of ws] join ws(1) i(1) by simp
  then show ?thesis using ws(2) i by (fastforce simp: job_done_def job_commands_def split: if_splits)
qed

end

fun removed :: "command \<Rightarrow> tables \<Rightarrow> bool" where
  "removed (Del l) tb \<longleftrightarrow> tb l = None"
| "removed _ tb \<longleftrightarrow> True"

interpretation removal: batch_goal removed is_delete
proof
  show "is_delete c \<Longrightarrow> removed c (perform c tb)" for c tb by (cases c) auto
  show "is_delete c \<Longrightarrow> is_delete c' \<Longrightarrow> removed c tb \<Longrightarrow> removed c (perform c' tb)" for c c' tb
    by (cases c; cases c') auto
qed simp

fun installed :: "(location \<times> entry) set \<Rightarrow> command \<Rightarrow> tables \<Rightarrow> bool" where
  "installed W (Add l e) tb \<longleftrightarrow> (\<exists>e. (l, e) \<in> W \<and> tb l = Some e)"
| "installed W _ tb \<longleftrightarrow> True"

fun writes :: "(location \<times> entry) set \<Rightarrow> command \<Rightarrow> bool" where
  "writes W (Add l e) \<longleftrightarrow> (l, e) \<in> W"
| "writes W (Monitor _ _) \<longleftrightarrow> True"
| "writes W _ \<longleftrightarrow> False"

interpretation installation: batch_goal "installed (rule_entries b p)" "writes (rule_entries b p)" for b p
proof
  show "writes (rule_entries b p) c \<Longrightarrow> installed (rule_entries b p) c (perform c tb)" for c tb by (cases c) auto
  show "writes (rule_entries b p) c \<Longrightarrow> writes (rule_entries b p) c' \<Longrightarrow>
      installed (rule_entries b p) c tb \<Longrightarrow> installed (rule_entries b p) c (perform c' tb)" for c c' tb
    by (cases c; cases c') auto
qed simp

lemma batch_writes:
  assumes "c \<in> set (batch_commands b upfMsgTypeAdd p)"
  shows "writes (rule_entries b p) c"
  using assms batch_commands_add [OF assms] by (cases c rule: command.exhaust) (auto simp: rule_entries_def commands_write_def)

lemma delete_exact:
  assumes "SendMsgToUPFWithCompletion b env upfMsgTypeDel p u tb = (tb', CauseRequestAccepted, True)"
    and "\<forall>(i, ft)\<in>set (steps env). answered ft"
  shows "tb' = tb |` (- rule_locations p)"
proof
  fix l
  show "tb' l = (tb |` (- rule_locations p)) l"
  proof (cases "l \<in> rule_locations p")
    case True
    then have "Del l \<in> set (batch_commands b upfMsgTypeDel p)" by (simp add: batch_commands_delete)
    from removal.finished_batch [OF assms _ _ _ this] have "tb' l = None"
      using batch_commands_delete(2) by auto
    then show ?thesis using True by simp
  next
    case False
    have "tb' l = tb l \<or> (\<exists>c\<in>set (batch_commands b upfMsgTypeDel p). touches c l (tb' l))"
      using SendMsg_touches [OF assms(1), of l] by simp
    moreover have "\<not> touches c l (tb' l)" if "c \<in> set (batch_commands b upfMsgTypeDel p)" for c
      using that batch_commands_delete(1) [of l] batch_commands_delete(2) [OF that] False by (cases c rule: command.exhaust) auto
    ultimately show ?thesis using False by auto
  qed
qed

lemma add_exact:
  assumes "SendMsgToUPFWithCompletion b env m p u tb = (tb', CauseRequestAccepted, True)"
    and "m = upfMsgTypeAdd \<and> q = p \<or> m = upfMsgTypeMod \<and> q = u"
    and "\<forall>(i, ft)\<in>set (steps env). answered ft"
  shows "if l \<in> rule_locations q then \<exists>e. (l, e) \<in> rule_entries b q \<and> tb' l = Some e else tb' l = tb l"
proof -
  have cmds: "batch_commands b m q = batch_commands b upfMsgTypeAdd q" "m \<noteq> upfMsgTypeClear"
    and q: "q = (if m = upfMsgTypeMod then u else p)"
    using assms(2) by (auto simp: batch_commands_Mod)
  have W: "\<forall>c\<in>set (batch_commands b m q). writes (rule_entries b q) c" using batch_writes by (auto simp: cmds)
  show ?thesis
  proof (cases "l \<in> rule_locations q")
    case True
    then obtain e where "(l, e) \<in> rule_entries b q" 
      unfolding rule_entries_locations [of b q, symmetric] by auto
    then have "Add l e \<in> set (batch_commands b m q)" by (simp add: cmds rule_entries_def commands_write_def)
    from installation.finished_batch [OF assms(1,3) cmds(2) q W this] True show ?thesis by simp
  next
    case False
    have "\<not> touches c l (tb' l)" if "c \<in> set (batch_commands b m q)" for c
      using W that False rule_entries_locations [of b q] by (cases c rule: command.exhaust) force+
    then show ?thesis using SendMsg_touches [OF assms(1), of l] False q by auto
  qed
qed

end
