(* ===== verification/Driver_Properties.thy ===== *)
theory Driver_Properties
  imports Bess_Batch
begin

text \<open>
  Properties of the driver: the locations rules occupy, the effect of a batch on the tables, its
  completion, and the rates of meters.
\<close>

section \<open>The locations of packet detection rules\<close>

lemma ucast_inj_up:
  fixes x y :: "'a::len word"
  assumes "LENGTH('a) \<le> LENGTH('b)" "(ucast x :: 'b::len word) = ucast y"
  shows "x = y"
  using assms by (metis unat_ucast_up word_unat_eq_iff)

lemma ucast_64 [simp]:
  "(ucast (x8 :: u8) :: u64) = ucast y8 \<longleftrightarrow> x8 = y8"
  "(ucast (x32 :: u32) :: u64) = ucast y32 \<longleftrightarrow> x32 = y32"
  "(ucast (x16 :: u16) :: u64) = ucast y16 \<longleftrightarrow> x16 = y16"
  using ucast_inj_up [where 'b = 64, of x8 y8] ucast_inj_up [where 'b = 64, of x32 y32]
    ucast_inj_up [where 'b = 64, of x16 y16] by auto

text \<open>The part of a location that does not come from the ports.\<close>

definition same_head :: "pdr \<Rightarrow> pdr \<Rightarrow> bool" where
  "same_head p q \<longleftrightarrow>
     srcIface p = srcIface q \<and> srcIfaceMask p = srcIfaceMask q \<and>
     tunnelIP4Dst p = tunnelIP4Dst q \<and> tunnelIP4DstMask p = tunnelIP4DstMask q \<and>
     tunnelTEID p = tunnelTEID q \<and> tunnelTEIDMask p = tunnelTEIDMask q \<and>
     af_srcIP (appFilter p) = af_srcIP (appFilter q) \<and>
     af_srcIPMask (appFilter p) = af_srcIPMask (appFilter q) \<and>
     af_dstIP (appFilter p) = af_dstIP (appFilter q) \<and>
     af_dstIPMask (appFilter p) = af_dstIPMask (appFilter q) \<and>
     af_proto (appFilter p) = af_proto (appFilter q) \<and>
     af_protoMask (appFilter p) = af_protoMask (appFilter q)"

lemma pdr_location_eq: "pdr_location p r = pdr_location q s \<longleftrightarrow> same_head p q \<and> r = s"
  by (cases r; cases s) (auto simp: pdr_location_def same_head_def)

lemma same_head_location: "same_head p q \<Longrightarrow> pdr_location p = pdr_location q"
  by (rule ext) (simp add: pdr_location_eq)

lemma inj_pdr_location: "inj (pdr_location p)"
  by (rule injI) (simp add: pdr_location_eq)

definition ranges_ok :: "pdr \<Rightarrow> bool" where
  "ranges_ok p \<longleftrightarrow>
     low (af_srcPortRange (appFilter p)) \<le> high (af_srcPortRange (appFilter p)) \<and>
     low (af_dstPortRange (appFilter p)) \<le> high (af_dstPortRange (appFilter p))"

lemma products_match:
  assumes "ranges_ok p" "translatable p"
  shows "(\<exists>r\<in>set (pdr_products p). product_matches r sp dp) \<longleftrightarrow>
    in_range (af_srcPortRange (appFilter p)) sp \<and> in_range (af_dstPortRange (appFilter p)) dp"
proof -
  obtain rs where rs: "pdr_rules p = Some (Inr rs)" using assms(2) by (auto simp: translatable_def)
  then have "pdr_products p = rs" by (simp add: pdr_products_def)
  moreover have "(\<exists>r\<in>set rs. product_matches r sp dp) \<longleftrightarrow>
      in_range (af_srcPortRange (appFilter p)) sp \<and> in_range (af_dstPortRange (appFilter p)) dp"
    using product_exact [of "af_srcPortRange (appFilter p)" "af_dstPortRange (appFilter p)"] assms(1) rs
    unfolding ranges_ok_def pdr_rules_def by (metis option.inject)
  ultimately show ?thesis by simp
qed

lemma ranges_of_matches:
  assumes "ranges_ok p" "ranges_ok q"
    and "\<forall>sp dp. in_range (af_srcPortRange (appFilter p)) sp \<and> in_range (af_dstPortRange (appFilter p)) dp \<longleftrightarrow>
      in_range (af_srcPortRange (appFilter q)) sp \<and> in_range (af_dstPortRange (appFilter q)) dp"
  shows "sameMatch (af_srcPortRange (appFilter p)) (af_srcPortRange (appFilter q)) \<and>
    sameMatch (af_dstPortRange (appFilter p)) (af_dstPortRange (appFilter q))"
  using assms in_range_low unfolding ranges_ok_def by (intro conjI sameMatch_in_range; blast)

text \<open>
  C33. Two packet detection rules that the driver can translate occupy the same entry, as
  \<^verbatim>\<open>occupiesSameEntryAs\<close> decides it, exactly when the driver writes them to the same locations
  of the match table.
\<close>

theorem occupiesSameEntryAs_locations:
  assumes "ranges_ok p" "ranges_ok q" "translatable p" "translatable q"
  shows "pdr_occupiesSameEntryAs p q \<longleftrightarrow> pdr_locations p = pdr_locations q"
proof
  assume "pdr_occupiesSameEntryAs p q"
  then have "same_head p q" "pdr_products p = pdr_products q"
    using product_sameMatch by (auto simp: pdr_occupiesSameEntryAs_def same_head_def pdr_products_def pdr_rules_def)
  then show "pdr_locations p = pdr_locations q"
    by (simp add: pdr_locations_def same_head_location)
next
  assume eq: "pdr_locations p = pdr_locations q"
  let ?s = "low (af_srcPortRange (appFilter p))" and ?d = "low (af_dstPortRange (appFilter p))"
  have "\<exists>r\<in>set (pdr_products p). product_matches r ?s ?d"
    using products_match [OF assms(1,3)] assms(1) in_range_low by (simp add: ranges_ok_def)
  then obtain r where "r \<in> set (pdr_products p)" by blast
  then have "pdr_location p r \<in> pdr_locations q" using eq by (auto simp: pdr_locations_def)
  then have head: "same_head p q" by (auto simp: pdr_locations_def pdr_location_eq)
  then have "set (pdr_products p) = set (pdr_products q)"
    using eq by (simp add: pdr_locations_def same_head_location inj_image_eq_iff [OF inj_pdr_location])
  then have "sameMatch (af_srcPortRange (appFilter p)) (af_srcPortRange (appFilter q)) \<and>
      sameMatch (af_dstPortRange (appFilter p)) (af_dstPortRange (appFilter q))"
    using ranges_of_matches [OF assms(1,2)] products_match [OF assms(1,3)] products_match [OF assms(2,4)] by simp
  then show "pdr_occupiesSameEntryAs p q" using head by (simp add: pdr_occupiesSameEntryAs_def same_head_def)
qed

lemma wildcard_translatable:
  assumes "isWildcardMatch (af_srcPortRange (appFilter p))" "isWildcardMatch (af_dstPortRange (appFilter p))"
  shows "translatable p"
  using assms
  by (simp add: translatable_def pdr_rules_def CreatePortRangeCartesianProduct_def isRangeMatch_def
      asTrivialTernaryMatch_def)

theorem occupiesSameEntryAs_locations_witness:
  "\<exists>p q. ranges_ok p \<and> ranges_ok q \<and> translatable p \<and> translatable q \<and> p \<noteq> q \<and>
     pdr_occupiesSameEntryAs p q \<and> pdr_locations p = pdr_locations q"
proof -
  let ?p = "zero_pdr"
  let ?q = "zero_pdr\<lparr>precedence := 7, appFilter := zero_filter\<lparr>af_dstPortRange := newWildcardPortRange\<rparr>\<rparr>"
  have w: "isWildcardMatch \<lparr>low = 0, high = 0\<rparr>" "isWildcardMatch newWildcardPortRange"
    by (simp_all add: isWildcardMatch_def newWildcardPortRange_def MaxUint16_def)
  have ok: "ranges_ok ?p" "ranges_ok ?q" "translatable ?p" "translatable ?q" "pdr_occupiesSameEntryAs ?p ?q"
    using w by (auto intro!: wildcard_translatable
        simp: ranges_ok_def zero_pdr_def zero_filter_def newWildcardPortRange_def pdr_occupiesSameEntryAs_def
        sameMatch_def)
  moreover have "?p \<noteq> ?q" by (simp add: zero_pdr_def)
  ultimately show ?thesis using occupiesSameEntryAs_locations [OF ok(1-4)] by blast
qed

section \<open>The effect of a batch\<close>

text \<open>
  C34. Whatever the environment does to a batch, a location that no rule of the batch occupies
  keeps its entry; a location that one occupies keeps its entry or, for a deletion, is emptied
  and, for the other methods, holds an entry of the batch.
\<close>

theorem SendMsgToUPF_frame:
  "case SendMsgToUPFWithCompletion b env m p u tb of (tb', _) \<Rightarrow>
     let q = (if m = upfMsgTypeMod then u else p)
     in tb' l = tb l \<or>
        l \<in> rule_locations q \<and>
          (if m = upfMsgTypeDel then tb' l = None else (\<exists>e. (l, e) \<in> rule_entries b q \<and> tb' l = Some e))"
proof -
  obtain tb' c fin where send: "SendMsgToUPFWithCompletion b env m p u tb = (tb', c, fin)"
    using prod_cases3 by blast
  define q where "q = (if m = upfMsgTypeMod then u else p)"
  have "tb' l = tb l \<or> l \<in> rule_locations q \<and>
    (if m = upfMsgTypeDel then tb' l = None else (\<exists>e. (l, e) \<in> rule_entries b q \<and> tb' l = Some e))"
  proof (cases "tb' l = tb l")
    case False
    then obtain d where d: "d \<in> set (batch_commands b m q)" "touches d l (tb' l)"
      using SendMsg_touches [OF send, of l] unfolding q_def by blast
    show ?thesis
    proof (cases "m = upfMsgTypeDel")
      case True
      then show ?thesis using d batch_commands_delete [of _ b q]
        by (cases d rule: command.exhaust) fastforce+
    next
      case False
      then have "d \<in> set (batch_commands b upfMsgTypeAdd q)"
        using d(1) by (cases m) (auto simp: batch_commands_Mod, auto simp: batch_commands_def batch_jobs_def)
      from batch_writes [OF this] obtain e where "(l, e) \<in> rule_entries b q" "tb' l = Some e"
        using d(2) by (cases d rule: command.exhaust) auto
      then show ?thesis using False rule_entries_locations [of b q] by force
    qed
  qed simp
  then show ?thesis unfolding send q_def by (simp add: Let_def)
qed

text \<open>
  C13. A deletion that finished and was accepted, every call having been answered, has emptied
  exactly the locations of its rules.
\<close>

theorem SendMsgToUPF_delete_exact:
  assumes "SendMsgToUPFWithCompletion b env upfMsgTypeDel p u tb = (tb', CauseRequestAccepted, True)"
    and "\<forall>(i, ft)\<in>set (steps env). answered ft"
  shows "tb' = tb |` (- rule_locations p)"
  using delete_exact [OF assms] .

definition one_far :: rules where
  "one_far = \<lparr>pdrs = [], fars = [zero_far], qers = []\<rparr>"

definition plain_driver :: driver where
  "plain_driver = \<lparr>pathMonitoring = False, qciQosConfig = [], calcBurstSizeFromRate = (\<lambda>_ _. 0)\<rparr>"

definition one_call :: batch_env where
  "one_call = \<lparr>steps = [(0, Taken True)], received = 1\<rparr>"

lemmas concrete_batch =
  SendMsgToUPFWithCompletion_def one_far_def plain_driver_def one_call_def batch_jobs_def new_worker_def
  addFAR_def delFAR_def advance_def process_def ModuleCommand_def commandOutcome_def refused_def results_def

theorem SendMsgToUPF_delete_exact_witness:
  "\<exists>tb'. SendMsgToUPFWithCompletion plain_driver one_call upfMsgTypeDel one_far no_rules
      [far_location zero_far \<mapsto> far_entry zero_far] = (tb', CauseRequestAccepted, True) \<and>
    tb' = [far_location zero_far \<mapsto> far_entry zero_far] |` (- rule_locations one_far)"
proof -
  obtain tb' where send: "SendMsgToUPFWithCompletion plain_driver one_call upfMsgTypeDel one_far no_rules
      [far_location zero_far \<mapsto> far_entry zero_far] = (tb', CauseRequestAccepted, True)"
    by (simp add: concrete_batch)
  moreover have "\<forall>(i, ft)\<in>set (steps one_call). answered ft" by (simp add: one_call_def)
  ultimately show ?thesis using SendMsgToUPF_delete_exact by blast
qed

text \<open>
  C14. An installation or a modification that finished and was accepted, every call having been
  answered, has put an entry of its rules at each of their locations and touched no other.
\<close>

theorem SendMsgToUPF_install_exact:
  assumes "SendMsgToUPFWithCompletion b env m p u tb = (tb', CauseRequestAccepted, True)"
    and "m = upfMsgTypeAdd \<and> q = p \<or> m = upfMsgTypeMod \<and> q = u"
    and "\<forall>(i, ft)\<in>set (steps env). answered ft"
  shows "if l \<in> rule_locations q then \<exists>e. (l, e) \<in> rule_entries b q \<and> tb' l = Some e else tb' l = tb l"
  using add_exact [OF assms] .

theorem SendMsgToUPF_install_exact_witness:
  "\<exists>tb'. SendMsgToUPFWithCompletion plain_driver one_call upfMsgTypeAdd one_far no_rules Map.empty =
      (tb', CauseRequestAccepted, True) \<and> far_location zero_far \<in> rule_locations one_far \<and>
    (\<exists>e. (far_location zero_far, e) \<in> rule_entries plain_driver one_far \<and> tb' (far_location zero_far) = Some e)"
proof -
  obtain tb' where send: "SendMsgToUPFWithCompletion plain_driver one_call upfMsgTypeAdd one_far no_rules
      Map.empty = (tb', CauseRequestAccepted, True)"
    by (simp add: concrete_batch)
  have "\<forall>(i, ft)\<in>set (steps one_call). answered ft" "far_location zero_far \<in> rule_locations one_far"
    by (simp_all add: one_call_def rule_locations_def one_far_def)
  then show ?thesis
    using send SendMsgToUPF_install_exact [OF send, of one_far "far_location zero_far"] by auto
qed

section \<open>Completion\<close>

fun taken :: "fate \<Rightarrow> bool" where
  "taken (Taken _) = True"
| "taken _ = False"

definition turns :: "nat \<Rightarrow> (nat \<times> fate) list \<Rightarrow> nat" where
  "turns i st = length (filter (\<lambda>s. fst s = i) st)"

definition ready :: "command list \<Rightarrow> worker" where
  "ready cs = \<lparr>todo = cs, reported = (if cs = [] then Some True else None)\<rparr>"

lemma advance_taken:
  assumes "taken ft"
  shows "fst (advance ft (ready cs) tb) = ready (drop 1 cs)"
proof (cases cs)
  case (Cons c ds)
  obtain says where "ft = Taken says" using assms by (cases ft) auto
  moreover have "goes_on (Taken says) c (snd (process (Taken says) c tb))"
    by (cases c) (auto simp: process_def ModuleCommand_def commandOutcome_def refused_def)
  ultimately show ?thesis using Cons by (auto simp: advance_def ready_def split: prod.splits)
qed (simp add: advance_def ready_def)

lemma run_batch_taken:
  assumes "\<forall>(i, ft)\<in>set st. taken ft"
  shows "fst (run_batch st (map ready css) tb) = map (\<lambda>i. ready (drop (turns i st) (css ! i))) [0..<length css]"
  using assms
proof (induction st arbitrary: css tb)
  case Nil
  show ?case by (rule nth_equalityI) (simp_all add: turns_def)
next
  case (Cons s st)
  obtain i ft where s: "s = (i, ft)" "taken ft" using Cons.prems by (cases s) auto
  show ?case
  proof (cases "i < length css")
    case True
    obtain w tb1 where adv: "advance ft (ready (css ! i)) tb = (w, tb1)" by fastforce
    then have "w = ready (drop 1 (css ! i))" using advance_taken [OF s(2), of "css ! i" tb] by simp
    then have ws: "(map ready css)[i := w] = map ready (css[i := drop 1 (css ! i)])" by (simp add: map_update)
    have "fst (run_batch (s # st) (map ready css) tb) =
        map (\<lambda>k. ready (drop (turns k st) (css[i := drop 1 (css ! i)] ! k))) [0..<length css]"
      using Cons.IH [of "css[i := drop 1 (css ! i)]" tb1] Cons.prems True adv s(1) by (simp add: ws del: drop_Suc)
    also have "\<dots> = map (\<lambda>k. ready (drop (turns k (s # st)) (css ! k))) [0..<length css]"
      by (intro map_cong refl) (auto simp: turns_def s(1) nth_list_update add.commute)
    finally show ?thesis .
  next
    case False
    then have "fst (run_batch (s # st) (map ready css) tb) = fst (run_batch st (map ready css) tb)"
      by (simp add: s(1))
    also have "\<dots> = map (\<lambda>k. ready (drop (turns k (s # st)) (css ! k))) [0..<length css]"
      unfolding Cons.IH [OF Cons.prems [unfolded list.set, simplified, THEN conjunct2]]
      using False by (intro map_cong refl) (auto simp: turns_def s(1))
    finally show ?thesis .
  qed
qed

lemma GRPCJoin_replicate: "GRPCJoin n s (replicate n True @ rs) = (True, s)"
  by (induction n arbitrary: s) simp_all

lemma results_ready: "results (replicate n (ready [])) = replicate n True"
  by (induction n) (simp_all add: results_def ready_def)

lemma translatable_jobs:
  assumes "\<forall>p\<in>set (pdrs q). translatable p" "j \<in> set (batch_jobs b m q)"
  shows "new_worker j = ready (job_commands j)"
proof -
  have "\<exists>cs. j = Some (Inr cs)"
    using assms by (cases m) (fastforce simp: batch_jobs_def translatable_def addPDR_def delPDR_def bind_result_def
        addFAR_def delFAR_def addQER_def delQER_def)+
  then show ?thesis by (auto simp: new_worker_def ready_def job_commands_def)
qed

text \<open>
  C35. A batch of rules that can all be translated finishes and is accepted, if the modules take
  every command, every goroutine gets a turn for each of its commands and all results arrive
  before the timer.
\<close>

theorem SendMsgToUPF_completes:
  assumes "m \<noteq> upfMsgTypeClear" "\<forall>p\<in>set (pdrs q). translatable p"
    and "q = (if m = upfMsgTypeMod then u else p)"
    and "\<forall>(i, ft)\<in>set (steps env). taken ft"
    and "\<forall>i<length (batch_jobs b m q). length (job_commands (batch_jobs b m q ! i)) \<le> turns i (steps env)"
    and "length (batch_jobs b m q) \<le> received env"
  shows "snd (SendMsgToUPFWithCompletion b env m p u tb) = (CauseRequestAccepted, True)"
proof (cases "batch_jobs b m q = []")
  case True
  then have "length (pdrs q) + length (fars q) + length (qers q) = 0"
    using length_batch_jobs [OF assms(1), of b q] by simp
  then show ?thesis
    unfolding SendMsgToUPFWithCompletion_def Let_def assms(3) [symmetric] by simp
next
  case False
  let ?js = "batch_jobs b m q"
  obtain ws tb' where run: "run_batch (steps env) (map new_worker ?js) tb = (ws, tb')" by fastforce
  have start: "map new_worker ?js = map ready (map job_commands ?js)"
    using translatable_jobs [OF assms(2), of _ b m] by simp
  have "ws = map (\<lambda>i. ready (drop (turns i (steps env)) (map job_commands ?js ! i))) [0..<length ?js]"
    using run_batch_taken [OF assms(4), of "map job_commands ?js" tb] run unfolding start by simp
  also have "\<dots> = map (\<lambda>_. ready []) [0..<length ?js]"
    using assms(5) by (intro map_cong refl) simp
  also have "\<dots> = replicate (length ?js) (ready [])" by (simp add: map_replicate_const)
  finally have "results ws = replicate (length ?js) True" by (simp add: results_ready)
  then have "GRPCJoin (length ?js) True (take (received env) (results ws)) = (True, True)"
    using GRPCJoin_replicate [of "length ?js" True "[]"] assms(6) by simp
  from SendMsg_run [OF assms(1,3) False run this] show ?thesis by simp
qed

theorem SendMsgToUPF_completes_witness:
  "snd (SendMsgToUPFWithCompletion plain_driver one_call upfMsgTypeAdd one_far no_rules Map.empty) =
     (CauseRequestAccepted, True)"
  by (rule SendMsgToUPF_completes [of _ one_far])
    (simp_all add: one_far_def one_call_def batch_jobs_def addFAR_def job_commands_def turns_def plain_driver_def)

section \<open>Meters\<close>

fun meter :: "command \<Rightarrow> (u64 \<times> u64 \<times> u64) option" where
  "meter (Add l (QosEntry g c p _ _ _ _ _)) = Some (g, c, p)"
| "meter _ = None"

definition meter_ok :: "u8 \<Rightarrow> u64 \<Rightarrow> u64 \<Rightarrow> u64 \<times> u64 \<times> u64 \<Rightarrow> bool" where
  "meter_ok status gbr mbr r =
     (case r of (g, c, p) \<Rightarrow>
        if status \<noteq> GateStatusOpen then g = qerGateStatusDrop
        else if mbr = 0 \<and> gbr = 0 then g = qerGateUnmeter
        else g = qerGateMeter \<and> 1 \<le> c \<and> c \<le> p \<and>
          (if unat gbr < 2 ^ 54 \<and> unat mbr < 2 ^ 54
           then unat c = max (unat gbr * 125) 1 \<and> unat p = max (unat mbr * 125) (unat c) else True))"

lemma rate_bytes:
  assumes "unat r < 2 ^ 54"
  shows "unat ((r * 1000) div 8 :: u64) = unat r * 125"
proof -
  have "unat r * 1000 < 2 ^ 64" using assms by simp
  then have "unat (r * 1000) = unat r * 1000" by (simp add: unat_word_ariths)
  then show ?thesis by (simp add: unat_div)
qed

lemma unat_maxUint64: "unat (maxUint64 x y) = max (unat x) (unat y)"
  by (simp add: maxUint64_def max_def word_less_nat_alt)

lemma maxUint64_ge: "x \<le> maxUint64 x y" "y \<le> maxUint64 x y"
  by (simp_all add: maxUint64_def order.strict_implies_order leI)

lemma metered:
  assumes "c = maxUint64 ((gbr * 1000) div 8) 1" "p = maxUint64 ((mbr * 1000) div 8) c" "mbr \<noteq> 0 \<or> gbr \<noteq> 0"
  shows "meter_ok GateStatusOpen gbr mbr (qerGateMeter, c, p)"
  using assms by (auto simp: meter_ok_def maxUint64_ge unat_maxUint64 rate_bytes)

lemma meter_QER:
  "meter (case l of ApplicationQos \<Rightarrow> addApplicationQER g i c p cb pb eb q
                  | SessionQos \<Rightarrow> addSessionQER g i c p cb pb eb q) = Some (g, c, p)"
  by (cases l) (simp_all add: addApplicationQER_def addSessionQER_def)

text \<open>
  C36. The meters of a QoS rule. A direction whose gate is not open is dropped; an open one is
  metered exactly when a rate is given, with a committed rate of at least one byte per second
  that the peak rate is not below. For rates below 2 to the 54 kilobits per second these are the
  given rates in bytes per second.
\<close>

theorem QER_meters:
  "(\<exists>r. meter (handleUplinkQER b q) = Some r \<and> meter_ok (ulStatus q) (ulGbr q) (ulMbr q) r) \<and>
   (\<exists>r. meter (handleDownlinkQER b q) = Some r \<and> meter_ok (dlStatus q) (dlGbr q) (dlMbr q) r)"
  using metered [of _ "ulGbr q" _ "ulMbr q"] metered [of _ "dlGbr q" _ "dlMbr q"]
  by (auto simp: handleUplinkQER_def handleDownlinkQER_def Let_def meter_QER)
    (auto simp: meter_ok_def)

end
