(* ===== verification/Pdr_Lookup.thy ===== *)
theory Pdr_Lookup
  imports Rule_Module Wildcard_Classify Driver_Properties
begin

text \<open>
  The driver and its classifier together. The driver of \<^verbatim>\<open>bess.go\<close> sends its packet detection
  rules to the module \<^verbatim>\<open>pdrLookup\<close>, a \<^verbatim>\<open>WildcardMatch\<close>; the model of the driver keeps what the
  module holds as a table from locations to entries. Here that table is shown to be what the model
  of the module implements, and the precedence of the rules is followed to the priority by which
  the module chooses.
\<close>

section \<open>Commands of the driver as commands of the module\<close>

definition wm_arg :: "u64 list \<Rightarrow> u64 list \<Rightarrow> entry \<Rightarrow> wm_rule" where
  "wm_arg vs ms e = \<lparr>r_gate = gate e, r_priority = priority e, r_values = map ValueInt vs,
     r_masks = map ValueInt ms, r_valuesv = map ValueInt (valuesv e)\<rparr>"

fun module_command :: "command \<Rightarrow> wm_command option" where
  "module_command (Add (PdrLookup, vs, ms) (WildcardEntry g pr vv)) = Some (WmAdd (wm_arg vs ms (WildcardEntry g pr vv)))"
| "module_command (Del (PdrLookup, vs, ms)) = Some (WmDelete (map ValueInt vs) (map ValueInt ms))"
| "module_command (Clear PdrLookup) = Some WmClear"
| "module_command _ = None"

text \<open>The module holds what the table has for \<^verbatim>\<open>pdrLookup\<close>.\<close>

definition represents :: "('h, wm_data) hash_api \<Rightarrow> 'h wildcard_match \<Rightarrow> tables \<Rightarrow> bool" where
  "represents api wm tb \<longleftrightarrow>
     (\<forall>vs ms mk. rule_key wm (map ValueInt vs) (map ValueInt ms) = Some mk \<longrightarrow>
        wm_rules api wm mk = Option.bind (tb (PdrLookup, vs, ms)) (\<lambda>e. rule_data wm (wm_arg vs ms e)))"

section \<open>Different locations are different rules\<close>

lemma rule_field_int:
  assumes "wf_size f \<le> 8" "1 \<le> wf_size f" "length (rule_field f (ValueInt v)) = wf_size f"
    "rule_field f (ValueInt v) = rule_field f (ValueInt w)"
  shows "v = w"
proof -
  obtain a where a: "uint64_to_bin v (wf_size f) True = Some a"
    using assms(2,3) by (cases "uint64_to_bin v (wf_size f) True") (auto simp: rule_field_def field_word_def)
  have "length (rule_field f (ValueInt w)) = wf_size f" using assms(3,4) by simp
  then obtain b where b: "uint64_to_bin w (wf_size f) True = Some b"
    using assms(2) by (cases "uint64_to_bin w (wf_size f) True") (auto simp: rule_field_def field_word_def)
  have "a = b" using assms(4) a b uint64_to_bin_length [OF a] uint64_to_bin_length [OF b]
    by (simp add: rule_field_def field_word_def)
  then show ?thesis using uint64_to_bin_value [OF a] uint64_to_bin_value [OF b] by (simp add: word_unat_eq_iff)
qed

lemma layout_sizes: "layout pos fs \<Longrightarrow> f \<in> set fs \<Longrightarrow> 1 \<le> wf_size f \<and> wf_size f \<le> 8"
  by (induction fs arbitrary: pos) auto

lemma rule_fields_inject:
  assumes "layout 0 fs" "length vs = length fs" "length ws = length fs"
    "\<forall>i<length fs. length (rule_field (fs ! i) (ValueInt (vs ! i))) = wf_size (fs ! i) \<and>
       length (rule_field (fs ! i) (ValueInt (ws ! i))) = wf_size (fs ! i)"
    "concat (map2 rule_field fs (map ValueInt vs)) = concat (map2 rule_field fs (map ValueInt ws))"
  shows "vs = ws"
proof (rule nth_equalityI)
  show "length vs = length ws" using assms(2,3) by simp
  fix i assume "i < length vs"
  then have i: "i < length fs" using assms(2) by simp
  have "\<forall>i<length fs. map2 rule_field fs (map ValueInt vs) ! i = map2 rule_field fs (map ValueInt ws) ! i"
    using concat_eq_nth [THEN iffD1, OF _ _ assms(5)] assms(2-4) by simp
  then have "rule_field (fs ! i) (ValueInt (vs ! i)) = rule_field (fs ! i) (ValueInt (ws ! i))" using i assms(2,3) by simp
  then show "vs ! i = ws ! i" using rule_field_int [of "fs ! i"] layout_sizes [OF assms(1) nth_mem [OF i]] assms(4) i by blast
qed

lemma rule_key_inject:
  assumes "wm_ready wm" "rule_key wm (map ValueInt vs) (map ValueInt ms) = Some mk"
    "rule_key wm (map ValueInt vs') (map ValueInt ms') = Some mk"
  shows "vs = vs' \<and> ms = ms'"
proof -
  obtain m k where mk: "mk = (m, k)" by fastforce
  note a = rule_key_content [OF assms(1) assms(2) [unfolded mk]]
  note b = rule_key_content [OF assms(1) assms(3) [unfolded mk]]
  have lay: "layout 0 (wm_fields wm)" using assms(1) by (simp add: wm_ready_def)
  have "concat (map2 rule_field (wm_fields wm) (map ValueInt vs)) = concat (map2 rule_field (wm_fields wm) (map ValueInt vs'))"
    "concat (map2 rule_field (wm_fields wm) (map ValueInt ms)) = concat (map2 rule_field (wm_fields wm) (map ValueInt ms'))"
    using a(3,4) b(3,4) by simp_all
  then show ?thesis
    using rule_fields_inject [OF lay, of vs vs'] rule_fields_inject [OF lay, of ms ms'] a b by simp
qed

section \<open>The module implements the driver's table\<close>

fun succeeded :: "('s \<times> unit response) option \<Rightarrow> 's option" where
  "succeeded (Some (s, Inr _)) = Some s"
| "succeeded _ = None"

lemma succeeded_Some: "succeeded r = Some s \<longleftrightarrow> r = Some (s, Inr ())"
  by (cases r rule: succeeded.cases) auto

definition pdr_inv :: "('h, wm_data) hash_api \<Rightarrow> 'h wildcard_match \<Rightarrow> bool" where
  "pdr_inv api wm \<longleftrightarrow> hash_laws api \<and> wm_inv api wm \<and> wm_ready wm"

lemma pdr_inv_config: "pdr_inv api wm \<Longrightarrow> wm_inv api wm' \<Longrightarrow> same_config wm wm' \<Longrightarrow> pdr_inv api wm'"
  by (auto simp: pdr_inv_def wm_ready_def same_config_def)

interpretation pdr: rule_module "pdr_inv api" "wm_rules api"
  "\<lambda>wm l. rule_key wm (map ValueInt (fst l)) (map ValueInt (snd l))" "\<lambda>wm l e. rule_data wm (wm_arg (fst l) (snd l) e)"
  "\<lambda>wm l e. succeeded (CommandAdd api wm (wm_arg (fst l) (snd l) e))"
  "\<lambda>wm l. succeeded (CommandDelete api wm (map ValueInt (fst l)) (map ValueInt (snd l)))" WildcardMatch_Clear for api
proof
  fix wm l l' k
  assume "pdr_inv api wm" "rule_key wm (map ValueInt (fst l)) (map ValueInt (snd l)) = Some k"
    "rule_key wm (map ValueInt (fst l')) (map ValueInt (snd l')) = Some k"
  then show "l' = l" using rule_key_inject [of wm "fst l" "snd l" k "fst l'" "snd l'"] by (simp add: pdr_inv_def prod_eq_iff)
next
  fix wm wm' l e assume inv: "pdr_inv api wm" and run: "succeeded (CommandAdd api wm (wm_arg (fst l) (snd l) e)) = Some wm'"
  note post = CommandAdd_post [OF _ _ run [unfolded succeeded_Some]]
  have "wm_inv api wm'" "same_config wm wm'" "\<exists>mk d. rule_key wm (map ValueInt (fst l)) (map ValueInt (snd l)) = Some mk \<and>
      rule_data wm (wm_arg (fst l) (snd l) e) = Some d \<and> wm_rules api wm' = (wm_rules api wm)(mk \<mapsto> d)"
    using post inv by (simp_all add: pdr_inv_def wm_arg_def)
  then show "pdr_inv api wm' \<and>
      (\<lambda>l. rule_key wm' (map ValueInt (fst l)) (map ValueInt (snd l))) = (\<lambda>l. rule_key wm (map ValueInt (fst l)) (map ValueInt (snd l))) \<and>
      (\<lambda>l e. rule_data wm' (wm_arg (fst l) (snd l) e)) = (\<lambda>l e. rule_data wm (wm_arg (fst l) (snd l) e)) \<and>
      (\<exists>k d. rule_key wm (map ValueInt (fst l)) (map ValueInt (snd l)) = Some k \<and>
        rule_data wm (wm_arg (fst l) (snd l) e) = Some d \<and> wm_rules api wm' = (wm_rules api wm)(k \<mapsto> d))"
    using pdr_inv_config [OF inv] rule_config [of wm wm'] by simp
next
  fix wm wm' l assume inv: "pdr_inv api wm"
    and run: "succeeded (CommandDelete api wm (map ValueInt (fst l)) (map ValueInt (snd l))) = Some wm'"
  note post = CommandDelete_post [OF _ _ run [unfolded succeeded_Some]]
  have "wm_inv api wm'" "same_config wm wm'" "\<exists>mk. rule_key wm (map ValueInt (fst l)) (map ValueInt (snd l)) = Some mk \<and>
      wm_rules api wm' = (wm_rules api wm)(mk := None)"
    using post inv by (simp_all add: pdr_inv_def)
  then show "pdr_inv api wm' \<and>
      (\<lambda>l. rule_key wm' (map ValueInt (fst l)) (map ValueInt (snd l))) = (\<lambda>l. rule_key wm (map ValueInt (fst l)) (map ValueInt (snd l))) \<and>
      (\<lambda>l e. rule_data wm' (wm_arg (fst l) (snd l) e)) = (\<lambda>l e. rule_data wm (wm_arg (fst l) (snd l) e)) \<and>
      (\<exists>k. rule_key wm (map ValueInt (fst l)) (map ValueInt (snd l)) = Some k \<and> wm_rules api wm' = (wm_rules api wm)(k := None))"
    using pdr_inv_config [OF inv] rule_config [of wm wm'] by simp
next
  fix wm wm' assume inv: "pdr_inv api wm" and run: "WildcardMatch_Clear wm = Some wm'"
  then have "wm_inv api wm'" "same_config wm wm'" "wm_rules api wm' = Map.empty"
    using Clear_post [of api wm] by (auto simp: pdr_inv_def)
  then show "pdr_inv api wm' \<and>
      (\<lambda>l. rule_key wm' (map ValueInt (fst l)) (map ValueInt (snd l))) = (\<lambda>l. rule_key wm (map ValueInt (fst l)) (map ValueInt (snd l))) \<and>
      (\<lambda>l e. rule_data wm' (wm_arg (fst l) (snd l) e)) = (\<lambda>l e. rule_data wm (wm_arg (fst l) (snd l) e)) \<and>
      wm_rules api wm' = Map.empty"
    using pdr_inv_config [OF inv] rule_config [of wm wm'] by simp
qed

lemma represents_holds: "represents api wm tb \<longleftrightarrow> pdr.holds api wm (\<lambda>l. tb (PdrLookup, fst l, snd l))"
  by (simp add: represents_def pdr.holds_def)

text \<open>
  C5. A command of the driver for \<^verbatim>\<open>pdrLookup\<close> that the module answers with success changes the
  rules of the module the way the driver's model changes its table: the entry of the location is
  installed, removed, or all entries are cleared, and every other location keeps its entry.
\<close>

theorem pdrLookup_performs:
  assumes "hash_laws api" "wm_inv api wm" "wm_ready wm" "represents api wm tb"
    "module_command c = Some w" "wm_step api wm w = Some (wm', Inr ())"
  shows "wm_inv api wm' \<and> represents api wm' (perform c tb)"
proof -
  have inv: "pdr_inv api wm" using assms(1-3) by (simp add: pdr_inv_def)
  note h = assms(4) [unfolded represents_holds]
  consider (add) us ns e where "c = Add (PdrLookup, us, ns) e" "w = WmAdd (wm_arg us ns e)"
    | (del) us ns where "c = Del (PdrLookup, us, ns)" "w = WmDelete (map ValueInt us) (map ValueInt ns)"
    | (clear) "c = Clear PdrLookup" "w = WmClear"
    using assms(5) by (cases c rule: module_command.cases) auto
  then have "pdr_inv api wm' \<and> pdr.holds api wm' (\<lambda>l. perform c tb (PdrLookup, fst l, snd l))"
  proof cases
    case add
    have "(\<lambda>l. perform c tb (PdrLookup, fst l, snd l)) = (\<lambda>l. tb (PdrLookup, fst l, snd l))((us, ns) \<mapsto> e)"
      using add by (auto simp: fun_eq_iff)
    then show ?thesis using pdr.add_holds [OF inv h, of "(us, ns)" e wm'] assms(6) add by (simp add: succeeded_Some)
  next
    case del
    have "(\<lambda>l. perform c tb (PdrLookup, fst l, snd l)) = (\<lambda>l. tb (PdrLookup, fst l, snd l))((us, ns) := None)"
      using del by (auto simp: fun_eq_iff)
    then show ?thesis using pdr.del_holds [OF inv h, of "(us, ns)" wm'] assms(6) del by (simp add: succeeded_Some)
  next
    case clear
    then show ?thesis using pdr.clear_holds [OF inv, of wm'] assms(6) by auto
  qed
  then show ?thesis by (simp add: pdr_inv_def represents_holds)
qed

definition up4_fields :: "wm_field list" where
  "up4_fields =
     [\<lparr>wf_attr = Some 0, wf_offset = 0, wf_pos = 0, wf_size = 1\<rparr>, \<lparr>wf_attr = Some 1, wf_offset = 0, wf_pos = 1, wf_size = 4\<rparr>,
      \<lparr>wf_attr = Some 2, wf_offset = 0, wf_pos = 5, wf_size = 4\<rparr>, \<lparr>wf_attr = Some 3, wf_offset = 0, wf_pos = 9, wf_size = 4\<rparr>,
      \<lparr>wf_attr = Some 4, wf_offset = 0, wf_pos = 13, wf_size = 4\<rparr>, \<lparr>wf_attr = Some 5, wf_offset = 0, wf_pos = 17, wf_size = 2\<rparr>,
      \<lparr>wf_attr = Some 6, wf_offset = 0, wf_pos = 19, wf_size = 2\<rparr>, \<lparr>wf_attr = Some 7, wf_offset = 0, wf_pos = 21, wf_size = 1\<rparr>]"

definition up4_values :: "wm_field list" where
  "up4_values =
     [\<lparr>wf_attr = Some 8, wf_offset = 0, wf_pos = 0, wf_size = 4\<rparr>, \<lparr>wf_attr = Some 9, wf_offset = 0, wf_pos = 4, wf_size = 8\<rparr>,
      \<lparr>wf_attr = Some 10, wf_offset = 0, wf_pos = 12, wf_size = 4\<rparr>, \<lparr>wf_attr = Some 11, wf_offset = 0, wf_pos = 16, wf_size = 4\<rparr>,
      \<lparr>wf_attr = Some 12, wf_offset = 0, wf_pos = 20, wf_size = 4\<rparr>]"

text \<open>The module \<^verbatim>\<open>pdrLookup\<close> as the pipeline \<^verbatim>\<open>conf/up4.bess\<close> configures it, before any rule.\<close>

definition up4_lookup :: "(hkey \<times> wm_data) list wildcard_match" where
  "up4_lookup = \<lparr>wm_fields = up4_fields, wm_values = up4_values, wm_tuples = replicate MAX_TUPLES new_tuple,
     default_gate = DROP_GATE, total_key_size = 24, total_value_size = 24, wm_entries = 0\<rparr>"

lemma up4_lookup_ok:
  "wm_inv api up4_lookup" "wm_ready up4_lookup" "represents api up4_lookup Map.empty"
proof -
  show "wm_inv api up4_lookup" by (auto simp: wm_inv_def tuple_ok_def new_tuple_def up4_lookup_def)
  show "wm_ready up4_lookup"
    by (simp add: wm_ready_def up4_lookup_def up4_fields_def up4_values_def HASH_KEY_SIZE_def)
  have "slot_of up4_lookup m = None" for m by (simp add: slot_of_None up4_lookup_def new_tuple_def)
  then show "represents api up4_lookup Map.empty" by (simp add: represents_def wm_rules_def)
qed

abbreviation sample_pdr_entry :: entry where
  "sample_pdr_entry \<equiv> WildcardEntry 1 4294967040 [1, 2, 3, 4, 5]"

theorem pdrLookup_performs_witness:
  "\<exists>wm'. wm_step (list_hash 8) up4_lookup (WmAdd (wm_arg [1, 2, 3, 4, 5, 6, 7, 8] [255, 255, 255, 255, 255, 255, 255, 255] sample_pdr_entry)) =
      Some (wm', Inr ()) \<and>
    represents (list_hash 8) wm' [(PdrLookup, [1, 2, 3, 4, 5, 6, 7, 8], [255, 255, 255, 255, 255, 255, 255, 255]) \<mapsto> sample_pdr_entry]"
proof -
  let ?c = "Add (PdrLookup, [1, 2, 3, 4, 5, 6, 7, 8], [255, 255, 255, 255, 255, 255, 255, 255]) sample_pdr_entry"
  let ?w = "WmAdd (wm_arg [1, 2, 3, 4, 5, 6, 7, 8] [255, 255, 255, 255, 255, 255, 255, 255] sample_pdr_entry)"
  have "case wm_step (list_hash 8) up4_lookup ?w of Some (_, Inr _) \<Rightarrow> True | _ \<Rightarrow> False" by code_simp
  then obtain wm' where run: "wm_step (list_hash 8) up4_lookup ?w = Some (wm', Inr ())"
    by (auto split: option.splits prod.splits sum.splits)
  have "module_command ?c = Some ?w" by simp
  from pdrLookup_performs [OF list_hash_laws up4_lookup_ok this run] run show ?thesis by auto
qed

section \<open>Precedence\<close>

lemma sint_u32: "sint (x :: u32) = (if x < 0x80000000 then uint x else uint x - 4294967296)"
proof -
  have b: "uint x < 4294967296" using uint_lt2p [of x] by simp
  have "uint x div 2147483648 = (if uint x < 2147483648 then 0 else 1)"
  proof (cases "uint x < 2147483648")
    case False
    then show ?thesis using b int_div_pos_eq [of "uint x" 2147483648 1 "uint x - 2147483648"] by simp
  qed simp
  then have "bit (uint x) 31 \<longleftrightarrow> \<not> uint x < 2147483648" by (simp add: bit_iff_odd)
  then show ?thesis
    using b by (simp add: sint_uint signed_take_bit_eq_take_bit_minus take_bit_int_eq_self word_less_def)
qed

lemma pdr_priority:
  assumes "rule_data wm (wm_arg vs ms (pdr_entry p)) = Some d"
  shows "wd_priority d = (if precedence p < 0x80000000 then - 1 - uint (precedence p) else 4294967295 - uint (precedence p))"
proof -
  let ?y = "(- 1 :: u32) - precedence p"
  have u: "uint ?y = 4294967295 - uint (precedence p)"
    using uint_lt2p [of "precedence p"] by (simp add: uint_sub_if' unsigned_minus_1_eq_mask mask_eq_exp_minus_1)
  have "wd_priority d = sint ?y"
    using assms by (auto simp: rule_data_def wm_arg_def pdr_entry_def split: option.splits sum.splits)
  then show ?thesis using u by (simp add: sint_u32 word_less_def)
qed

text \<open>The order in which the module prefers precedences.\<close>

definition preferred :: "u32 \<Rightarrow> u32 \<Rightarrow> bool" where
  "preferred a b \<longleftrightarrow> (if (a < 0x80000000) = (b < 0x80000000) then a < b else b < 0x80000000)"

lemma preferred_total: "a \<noteq> b \<Longrightarrow> \<not> preferred a b \<Longrightarrow> preferred b a"
  by (auto simp: preferred_def split: if_splits)

lemma preferred_priority:
  assumes "rule_data wm (wm_arg vs ms (pdr_entry p)) = Some d" "rule_data wm (wm_arg vs' ms' (pdr_entry q)) = Some d'"
    "preferred (precedence p) (precedence q)"
  shows "wd_priority d' < wd_priority d"
proof -
  have order: "(if b < 2147483648 then - 1 - b else 4294967295 - b) < (if a < 2147483648 then - 1 - a else 4294967295 - a)"
    if "if (a < 2147483648) = (b < 2147483648) then a < b else b < 2147483648"
      "0 \<le> a" "a < 4294967296" "0 \<le> b" "b < 4294967296" for a b :: int
    using that by (auto split: if_splits)
  have "if (uint (precedence p) < 2147483648) = (uint (precedence q) < 2147483648)
      then uint (precedence p) < uint (precedence q) else uint (precedence q) < 2147483648"
    using assms(3) unfolding preferred_def word_less_def by (simp split: if_splits)
  from order [OF this] uint_lt2p [of "precedence p"] uint_lt2p [of "precedence q"] show ?thesis
    unfolding pdr_priority [OF assms(1)] pdr_priority [OF assms(2)] word_less_def by simp
qed

lemma value_loop_length:
  "value_loop fs vs keyv = Some (Inr r) \<Longrightarrow> layout pos fs \<Longrightarrow> length keyv = HASH_KEY_SIZE \<Longrightarrow> length r = HASH_KEY_SIZE"
proof (induction fs vs keyv arbitrary: pos rule: value_loop.induct)
  case (1 f fs vd vs keyv)
  then show ?case by (auto simp: length_field_word split: sum.splits if_splits)
qed auto

lemma rule_data_length:
  assumes "wm_ready wm" "rule_data wm arg = Some d"
  shows "length (wd_keyv d) = HASH_KEY_SIZE"
proof -
  obtain keyv where "ExtractValue wm (r_valuesv arg) = Some (Inr keyv)" "wd_keyv d = keyv"
    using assms(2) by (auto simp: rule_data_def split: option.splits sum.splits)
  then show ?thesis using value_loop_length [of "wm_values wm" _ _ keyv 0] assms(1)
    by (auto simp: ExtractValue_def wm_ready_def split: if_splits)
qed

lemma rule_data_location: "rule_data wm (wm_arg vs ms e) = rule_data wm (wm_arg [] [] e)"
  by (auto simp: rule_data_def wm_arg_def split: option.splits sum.splits)

text \<open>Of the rules of a table only two match, and one of them has the higher priority.\<close>

lemma best_of_two:
  assumes "best_match (R((m, mask_key key m n) \<mapsto> d, (m', mask_key key m' n) \<mapsto> d')) n key r"
    "\<forall>m. R (m, mask_key key m n) = None" "(m, mask_key key m n) \<noteq> (m', mask_key key m' n)"
  shows "wd_priority d' < wd_priority d \<Longrightarrow> r = Some d" "wd_priority d < wd_priority d' \<Longrightarrow> r = Some d'"
proof -
  let ?S = "R((m, mask_key key m n) \<mapsto> d, (m', mask_key key m' n) \<mapsto> d')"
  have S: "?S (m, mask_key key m n) = Some d" "?S (m', mask_key key m' n) = Some d'" using assms(3) by auto
  then obtain e where e: "r = Some e" using assms(1) by (cases r) (auto simp: best_match_def)
  have "e = d \<or> e = d'" using assms(1,2) e by (auto simp: best_match_def split: if_splits)
  moreover have "wd_priority d \<le> wd_priority e" "wd_priority d' \<le> wd_priority e"
    using assms(1) S unfolding e best_match_def option.case by blast+
  ultimately show "wd_priority d' < wd_priority d \<Longrightarrow> r = Some d" "wd_priority d < wd_priority d' \<Longrightarrow> r = Some d'"
    using e by auto
qed

text \<open>The rules after two additions.\<close>

lemma add_two_rules:
  assumes "hash_laws api" "wm_inv api wm" "wm_ready wm" "(vs, ms) \<noteq> (vs', ms')"
    "CommandAdd api wm (wm_arg vs ms e) = Some (wm1, Inr ())" "CommandAdd api wm1 (wm_arg vs' ms' e') = Some (wm2, Inr ())"
  obtains mk mk' d d' where "rule_key wm (map ValueInt vs) (map ValueInt ms) = Some mk"
    "rule_key wm (map ValueInt vs') (map ValueInt ms') = Some mk'" "mk \<noteq> mk'"
    "rule_data wm (wm_arg vs ms e) = Some d" "rule_data wm (wm_arg vs' ms' e') = Some d'"
    "wm_inv api wm2" "same_config wm wm2" "wm_rules api wm2 = (wm_rules api wm)(mk \<mapsto> d, mk' \<mapsto> d')"
proof -
  note post1 = CommandAdd_post [OF assms(1,2,5)]
  have inv1: "wm_inv api wm1" "same_config wm wm1" using post1 by simp_all
  note post2 = CommandAdd_post [OF assms(1) inv1(1) assms(6)]
  obtain mk d where 1: "rule_key wm (map ValueInt vs) (map ValueInt ms) = Some mk" "rule_data wm (wm_arg vs ms e) = Some d"
    "wm_rules api wm1 = (wm_rules api wm)(mk \<mapsto> d)" using post1 by (auto simp: wm_arg_def)
  obtain mk' d' where 2: "rule_key wm (map ValueInt vs') (map ValueInt ms') = Some mk'" "rule_data wm (wm_arg vs' ms' e') = Some d'"
    "wm_rules api wm2 = (wm_rules api wm1)(mk' \<mapsto> d')"
    using post2 rule_config [OF inv1(2)] by (auto simp: wm_arg_def)
  have "mk \<noteq> mk'" using rule_key_inject [OF assms(3) 1(1)] 2(1) assms(4) by auto
  then show ?thesis using that 1 2 post2 same_config_trans [OF inv1(2)] by (metis (no_types, lifting))
qed

text \<open>
  C22. Which of two packet detection rules with different precedences \<^verbatim>\<open>pdrLookup\<close> applies, for a packet
  that both match and no earlier rule does. If both precedences are below 2^31, or both not below, it is the
  one with the lower precedence value, as PFCP demands. Otherwise it is the one with the higher value,
  because \<^verbatim>\<open>CommandAdd\<close> keeps the 64-bit priority of the command in an \<^verbatim>\<open>int\<close>. The packet leaves by the gate
  of that rule and with its values.
\<close>

theorem pdr_precedence_decides:
  assumes "hash_laws api" "wm_inv api wm" "wm_ready wm" "attrs_ok attr_offset (wm_fields wm)" "attrs_ok attr_offset (wm_values wm)"
    "\<forall>d\<in>ran (wm_rules api wm). length (wd_keyv d) = HASH_KEY_SIZE" "buffer_ok pkt" "\<forall>i. length (stack i) = HASH_KEY_SIZE"
    "CommandAdd api wm (wm_arg vs ms (pdr_entry p)) = Some (wm1, Inr ())"
    "CommandAdd api wm1 (wm_arg vs' ms' (pdr_entry q)) = Some (wm2, Inr ())"
    "(vs, ms) \<noteq> (vs', ms')" "precedence p \<noteq> precedence q" "make_key attr_offset wm (stack 0) pkt = Some key"
    "\<forall>m. wm_rules api wm (m, mask_key key m (total_key_size wm)) = None"
    "rule_key wm (map ValueInt vs) (map ValueInt ms) = Some (m, mask_key key m (total_key_size wm))"
    "rule_key wm (map ValueInt vs') (map ValueInt ms') = Some (m', mask_key key m' (total_key_size wm))"
    "w = (if (precedence p < 0x80000000) = (precedence q < 0x80000000)
          then if precedence p < precedence q then p else q
          else if precedence q < 0x80000000 then p else q)"
  shows "\<exists>pkt' keyv. WildcardMatch_ProcessBatch api attr_offset wm2 stack [pkt] = Some [(pkt', ucast (needDecap w))] \<and>
    ExtractValue wm (map ValueInt (valuesv (pdr_entry w))) = Some (Inr keyv) \<and>
    set_values attr_offset keyv (wm_values wm) pkt = Some pkt'"
proof -
  let ?n = "total_key_size wm"
  obtain d d' where d: "rule_data wm (wm_arg vs ms (pdr_entry p)) = Some d" "rule_data wm (wm_arg vs' ms' (pdr_entry q)) = Some d'"
    "wm_inv api wm2" "same_config wm wm2" "(m, mask_key key m ?n) \<noteq> (m', mask_key key m' ?n)"
    "wm_rules api wm2 = (wm_rules api wm)((m, mask_key key m ?n) \<mapsto> d, (m', mask_key key m' ?n) \<mapsto> d')"
    by (rule add_two_rules [OF assms(1-3,11,9,10)]) (use assms(15,16) in auto)
  note conf = d(4) [unfolded same_config_def]
  have ready: "wm_ready wm2" "attrs_ok attr_offset (wm_fields wm2)" "attrs_ok attr_offset (wm_values wm2)"
    using assms(3-5) conf by (simp_all add: wm_ready_def)
  have "\<forall>d\<in>ran (wm_rules api wm2). length (wd_keyv d) = HASH_KEY_SIZE"
    using assms(6) rule_data_length [OF assms(3) d(1)] rule_data_length [OF assms(3) d(2)]
    unfolding d(6) by (auto simp: ran_def split: if_splits)
  from ProcessBatch_best [OF d(3) ready this, of "[pkt]" stack] assms(7,8)
  obtain out r key2 where out: "WildcardMatch_ProcessBatch api attr_offset wm2 stack [pkt] = Some [out]"
    "make_key attr_offset wm2 (stack 0) pkt = Some key2" "best_match (wm_rules api wm2) (total_key_size wm2) key2 r"
    "leaves_as attr_offset wm2 r pkt out" by (auto simp: length_Suc_conv)
  have "key2 = key" using out(2) assms(13) conf by (simp add: make_key_def split: if_splits)
  then have best: "best_match ((wm_rules api wm)((m, mask_key key m ?n) \<mapsto> d, (m', mask_key key m' ?n) \<mapsto> d')) ?n key r"
    using out(3) conf d(6) by simp
  have "r = rule_data wm (wm_arg [] [] (pdr_entry w))"
  proof (cases "preferred (precedence p) (precedence q)")
    case True
    then have "w = p" unfolding assms(17) preferred_def by (auto split: if_splits)
    then show ?thesis using best_of_two(1) [OF best assms(14) d(5) preferred_priority [OF d(1,2) True]] d(1)
        rule_data_location by metis
  next
    case False
    then have "w = q" unfolding assms(17) preferred_def by (auto split: if_splits)
    moreover have "preferred (precedence q) (precedence p)" using preferred_total [OF assms(12) False] .
    ultimately show ?thesis using best_of_two(2) [OF best assms(14) d(5) preferred_priority [OF d(2,1)]] d(2)
        rule_data_location by metis
  qed
  moreover have "r \<noteq> None" using best by (cases r) (auto simp: best_match_def dest: spec [of _ m'])
  ultimately obtain keyv where keyv: "ExtractValue wm (map ValueInt (valuesv (pdr_entry w))) = Some (Inr keyv)"
    "r = Some \<lparr>wd_priority = sint (of_int (priority (pdr_entry w)) :: u32), wd_ogate = ucast (gate (pdr_entry w)), wd_keyv = keyv\<rparr>"
    by (auto simp: rule_data_def wm_arg_def split: option.splits sum.splits)
  have gate: "ucast (gate (pdr_entry w)) = (ucast (needDecap w) :: u16)"
    by (rule bit_word_eqI) (auto simp: pdr_entry_def bit_simps dest: bit_imp_le_length)
  have "set_values attr_offset keyv (wm_values wm) pkt = Some (fst out)" "snd out = ucast (needDecap w)"
    using out(4) conf gate keyv(2) by (simp_all add: leaves_as_def)
  then show ?thesis using out(1) keyv(1) by (cases out) auto
qed

abbreviation any_masks :: "u64 list" where "any_masks \<equiv> [0, 0, 0, 0, 0, 0, 0, 0]"

definition late_pdr :: pdr where "late_pdr = zero_pdr\<lparr>precedence := 0x80000000, pdrID := 1\<rparr>"
definition early_pdr :: pdr where "early_pdr = zero_pdr\<lparr>precedence := 5, pdrID := 2\<rparr>"

text \<open>Two rules that match every packet, and every packet from interface 0.\<close>

theorem pdr_precedence_decides_witness:
  "\<exists>wm1 wm2 pkt' keyv.
     CommandAdd (list_hash 8) up4_lookup (wm_arg any_masks any_masks (pdr_entry late_pdr)) = Some (wm1, Inr ()) \<and>
     CommandAdd (list_hash 8) wm1 (wm_arg any_masks (255 # tl any_masks) (pdr_entry early_pdr)) = Some (wm2, Inr ()) \<and>
     WildcardMatch_ProcessBatch (list_hash 8) (\<lambda>i. 8 * int i) wm2 (\<lambda>_. replicate HASH_KEY_SIZE 0) [sample_buffer] =
       Some [(pkt', ucast (needDecap late_pdr))] \<and>
     ExtractValue up4_lookup (map ValueInt (valuesv (pdr_entry late_pdr))) = Some (Inr keyv) \<and>
     set_values (\<lambda>i. 8 * int i) keyv (wm_values up4_lookup) sample_buffer = Some pkt'"
proof -
  let ?api = "list_hash 8" and ?z = "replicate 24 (0 :: u8)"
  let ?add1 = "CommandAdd ?api up4_lookup (wm_arg any_masks any_masks (pdr_entry late_pdr))"
  let ?add2 = "\<lambda>wm. CommandAdd ?api wm (wm_arg any_masks (255 # tl any_masks) (pdr_entry early_pdr))"
  have "case ?add1 of Some (wm1, Inr _) \<Rightarrow> (case ?add2 wm1 of Some (_, Inr _) \<Rightarrow> True | _ \<Rightarrow> False) | _ \<Rightarrow> False" by code_simp
  then obtain wm1 wm2 where run: "?add1 = Some (wm1, Inr ())" "?add2 wm1 = Some (wm2, Inr ())"
    by (auto split: option.splits prod.splits sum.splits)
  have key: "make_key (\<lambda>i. 8 * int i) up4_lookup (replicate HASH_KEY_SIZE 0) sample_buffer = Some (replicate HASH_KEY_SIZE 0)"
    by code_simp
  have keys: "rule_key up4_lookup (map ValueInt any_masks) (map ValueInt any_masks) =
      Some (?z, mask_key (replicate HASH_KEY_SIZE 0) ?z (total_key_size up4_lookup))"
    "rule_key up4_lookup (map ValueInt any_masks) (map ValueInt (255 # tl any_masks)) =
      Some (?z[0 := 255], mask_key (replicate HASH_KEY_SIZE 0) (?z[0 := 255]) (total_key_size up4_lookup))" by code_simp+
  have "slot_of up4_lookup m = None" for m by (simp add: slot_of_None up4_lookup_def new_tuple_def)
  then have rules: "wm_rules ?api up4_lookup = Map.empty" by (simp add: wm_rules_def fun_eq_iff)
  have offs: "attrs_ok (\<lambda>i. 8 * int i) (wm_fields up4_lookup)" "attrs_ok (\<lambda>i. 8 * int i) (wm_values up4_lookup)"
    by (auto simp: attrs_ok_def up4_lookup_def up4_fields_def up4_values_def)
  have w: "late_pdr = (if (precedence late_pdr < 0x80000000) = (precedence early_pdr < 0x80000000)
          then if precedence late_pdr < precedence early_pdr then late_pdr else early_pdr
          else if precedence early_pdr < 0x80000000 then late_pdr else early_pdr)"
    by (simp add: late_pdr_def early_pdr_def)
  have "precedence late_pdr \<noteq> precedence early_pdr" by (simp add: late_pdr_def early_pdr_def)
  from pdr_precedence_decides [OF list_hash_laws up4_lookup_ok(1,2) offs _ sample_buffer_ok _ run _ this key _ keys w] run
  show ?thesis by (simp add: rules)
qed

end
