(* ===== verification/Exact_Match.thy ===== *)
theory Exact_Match
  imports Wildcard_Match
begin

text \<open>
  Model of the module \<^verbatim>\<open>ExactMatch\<close> (\<^verbatim>\<open>bess/core/modules/exact_match.h\<close> and \<^verbatim>\<open>.cc\<close>) with its table
  (\<^verbatim>\<open>bess/core/utils/exact_match_table.h\<close>), the lookup that holds the forwarding action rules. A
  key is made of the masked fields of a packet; the table is DPDK's, the parameter \<open>api\<close>. Keys and
  values are the 64 bytes of an \<^verbatim>\<open>ExactMatchKey\<close>. Workers that read while a command runs are not
  modelled.
\<close>

section \<open>Data\<close>

text \<open>A field with its mask, eight bytes in memory order; \<^verbatim>\<open>pos\<close>, \<^verbatim>\<open>size\<close>, \<^verbatim>\<open>offset\<close> and \<^verbatim>\<open>attr_id\<close> as in \<open>wm_field\<close>.\<close>

record em_field =
  em_mask :: "u8 list"
  em_at :: wm_field

record em_value =
  ev_gate :: u16
  ev_action :: hkey

record 'h exact_match =
  em_fields :: "em_field list"
  em_values :: "em_field list"
  em_key_size :: nat
  em_default_gate :: u16
  em_empty_masks :: bool
  em_table :: 'h

definition MAX_FIELDS :: nat where "MAX_FIELDS = 8"

definition SetBitsHigh :: "nat \<Rightarrow> u64" where
  "SetBitsHigh n = (if n = 0 then 0 else if n \<ge> 64 then NOT 0 else push_bit n 1 - 1)"

section \<open>Fields\<close>

text \<open>
  \<^verbatim>\<open>DoAddField\<close> and, with the other access mode, \<^verbatim>\<open>DoAddValue\<close>: the field at index \<open>idx\<close> and
  position \<open>pos\<close>. Its attribute or its offset first, then its mask; the bytes of an integer in
  memory are its \<open>bin_loop\<close>.
\<close>

definition field_source ::
    "access_mode \<Rightarrow> string \<Rightarrow> int \<Rightarrow> nat \<Rightarrow> registry \<times> attribute list \<Rightarrow>
     (nat option \<times> nat \<times> registry \<times> attribute list) response" where
  "field_source mode mt_attr_name off sz st =
     (if mt_attr_name \<noteq> []
      then bind_response (AddMetadataAttr mt_attr_name sz mode st) (\<lambda>(i, st). Inr (Some i, 0, st))
      else if off < 0 \<or> off > 1024 then Inl EINVAL else Inr (None, nat off, st))"

definition field_mask :: "u64 \<Rightarrow> nat \<Rightarrow> bool \<Rightarrow> u8 list response" where
  "field_mask m sz force_be =
     bind_response
       (if m = 0 then Inr (fst (bin_loop 8 (SetBitsHigh (sz * 8))))
        else case uint64_to_bin m sz force_be of
               None \<Rightarrow> Inl EINVAL
             | Some bs \<Rightarrow> Inr (bs @ replicate (8 - sz) 0))
       (\<lambda>m8. if m8 = replicate 8 0 then Inl EINVAL else Inr m8)"

definition DoAddField ::
    "access_mode \<Rightarrow> string \<Rightarrow> int \<Rightarrow> int \<Rightarrow> u64 \<Rightarrow> nat \<Rightarrow> nat \<Rightarrow> registry \<times> attribute list \<Rightarrow>
     (em_field \<times> registry \<times> attribute list) response" where
  "DoAddField mode mt_attr_name off sz m idx pos st =
     (if idx \<ge> MAX_FIELDS then Inl EINVAL
      else if sz < 1 \<or> sz > MAX_FIELD_SIZE then Inl EINVAL
      else bind_response (field_source mode mt_attr_name off (nat sz) st) (\<lambda>(attr, off, st).
        bind_response (field_mask m (nat sz) (attr = None)) (\<lambda>m8.
          Inr (\<lparr>em_mask = m8, em_at = \<lparr>wf_attr = attr, wf_offset = off, wf_pos = pos, wf_size = nat sz\<rparr>\<rparr>, st))))"

definition mask64 :: "field_data \<Rightarrow> u64 response" where
  "mask64 d =
     (case d of
        ValueInt v \<Rightarrow> Inr v
      | ValueBin bs \<Rightarrow> if length bs > 8 then Inl EINVAL else Inr (of_nat (bytes_value bs))
      | NoValue \<Rightarrow> Inr 0)"

definition ExactMatch_AddFieldOne ::
    "access_mode \<Rightarrow> field_arg \<Rightarrow> field_data \<Rightarrow> nat \<Rightarrow> nat \<Rightarrow> registry \<times> attribute list \<Rightarrow>
     (em_field \<times> registry \<times> attribute list) response" where
  "ExactMatch_AddFieldOne mode field d idx pos st =
     bind_response (mask64 d) (\<lambda>m.
       (case fst field of
          AtAttr attr \<Rightarrow> DoAddField mode attr 0 (sint (snd field)) m idx pos st
        | AtOffset off \<Rightarrow> DoAddField mode [] (sint off) (sint (snd field)) m idx pos st
        | NoPosition \<Rightarrow> Inl EINVAL))"

section \<open>Initialisation\<close>

text \<open>The loops of \<^verbatim>\<open>Init\<close>; a list of masks that is too short has no element to read.\<close>

fun em_add_fields ::
    "access_mode \<Rightarrow> field_arg list \<Rightarrow> field_data list \<Rightarrow> nat \<Rightarrow> nat \<Rightarrow> registry \<times> attribute list \<Rightarrow>
     (em_field list \<times> nat \<times> registry \<times> attribute list) response option" where
  "em_add_fields mode [] ms idx pos st = Some (Inr ([], pos, st))"
| "em_add_fields mode (fd # fds) [] idx pos st = None"
| "em_add_fields mode (fd # fds) (m # ms) idx pos st =
     (case ExactMatch_AddFieldOne mode fd m idx pos st of
        Inl e \<Rightarrow> Some (Inl e)
      | Inr (f, st) \<Rightarrow>
          map_option (\<lambda>r. bind_response r (\<lambda>(fs, n, st). Inr (f # fs, n, st)))
            (em_add_fields mode fds ms (idx + 1) (pos + wf_size (em_at f)) st))"

definition ExactMatch_Init ::
    "('h, em_value) hash_api \<Rightarrow> field_arg list \<Rightarrow> field_data list \<Rightarrow> field_arg list \<Rightarrow> field_data list \<Rightarrow> u32 \<Rightarrow>
     registry \<times> attribute list \<Rightarrow> ('h exact_match \<times> registry \<times> attribute list) response option" where
  "ExactMatch_Init api fds ms vds msv entries st =
     (let empty_masks = (ms = [])
      in if length fds \<noteq> length ms \<and> \<not> empty_masks then Some (Inl EINVAL)
      else do {
        r \<leftarrow> em_add_fields kRead fds (if empty_masks then replicate (length fds) NoValue else ms) 0 0 st;
        (case r of
           Inl e \<Rightarrow> Some (Inl e)
         | Inr (fs, n, st) \<Rightarrow> do {
             r \<leftarrow> em_add_fields kWrite vds (if msv = [] then replicate (length vds) NoValue else msv) 0 0 st;
             (case r of
                Inl e \<Rightarrow> Some (Inl e)
              | Inr (vs, k, st) \<Rightarrow>
                  let key_size = unat (align_ceil (of_nat n) 8)
                  in (case hash_create api key_size (if entries \<noteq> 0 then entries else 32768) of
                        None \<Rightarrow> Some (Inl ENOMEM)
                      | Some h \<Rightarrow>
                          Some (Inr (\<lparr>em_fields = fs, em_values = vs, em_key_size = key_size,
                            em_default_gate = DROP_GATE, em_empty_masks = (msv = []), em_table = h\<rparr>, st))))
           })
      })"

section \<open>Rules\<close>

text \<open>
  \<^verbatim>\<open>RuleFieldsFromPb\<close>: the bytes of every field. An integer of a field at an offset is big-endian,
  and one that does not fit ends the list with an empty element; one of an attribute is
  little-endian and cut to the size of the field.
\<close>

fun RuleFieldsFromPb :: "em_field list \<Rightarrow> field_data list \<Rightarrow> u8 list list" where
  "RuleFieldsFromPb (f # fs) (d # ds) =
     (case d of
        ValueBin bs \<Rightarrow> bs # RuleFieldsFromPb fs ds
      | _ \<Rightarrow>
          let v = (case d of ValueInt v \<Rightarrow> v | _ \<Rightarrow> 0)
          in if wf_attr (em_at f) = None
             then (case uint64_to_bin v (wf_size (em_at f)) True of
                     None \<Rightarrow> [[]]
                   | Some bs \<Rightarrow> bs # RuleFieldsFromPb fs ds)
             else fst (bin_loop (wf_size (em_at f)) v) # RuleFieldsFromPb fs ds)"
| "RuleFieldsFromPb _ _ = []"

fun gather_loop :: "em_field list \<Rightarrow> u8 list list \<Rightarrow> hkey \<Rightarrow> hkey response" where
  "gather_loop (f # fs) (bs # bss) key =
     (if length bs \<noteq> wf_size (em_at f) then Inl EINVAL
      else gather_loop fs bss (put_field (wf_pos (em_at f)) bs key))"
| "gather_loop _ _ key = Inr key"

text \<open>\<^verbatim>\<open>gather_key\<close> of the table and, on the values, \<^verbatim>\<open>gather_value\<close> of the module.\<close>

definition gather_key :: "em_field list \<Rightarrow> u8 list list \<Rightarrow> hkey response" where
  "gather_key fs bss =
     (if length bss \<noteq> length fs then Inl EINVAL else gather_loop fs bss (replicate HASH_KEY_SIZE 0))"

definition CreateValue :: "em_field list \<Rightarrow> u8 list list \<Rightarrow> hkey response" where
  "CreateValue vs bss = (if bss = [] then Inl EINVAL else gather_key vs bss)"

record em_rule =
  er_gate :: u64
  er_fields :: "field_data list"
  er_values :: "field_data list"

definition table_AddRule ::
    "('h, em_value) hash_api \<Rightarrow> 'h exact_match \<Rightarrow> em_value \<Rightarrow> u8 list list \<Rightarrow> 'h exact_match response" where
  "table_AddRule api em v rule =
     (if rule = [] then Inl EINVAL
      else bind_response (gather_key (em_fields em) rule) (\<lambda>key.
        (case hash_add api (em_table em) (take (em_key_size em) key) v of
           None \<Rightarrow> Inl ENOSPC
         | Some h \<Rightarrow> Inr (em\<lparr>em_table := h\<rparr>))))"

definition table_DeleteRule ::
    "('h, em_value) hash_api \<Rightarrow> 'h exact_match \<Rightarrow> u8 list list \<Rightarrow> 'h exact_match response" where
  "table_DeleteRule api em rule =
     (if rule = [] then Inl EINVAL
      else bind_response (gather_key (em_fields em) rule) (\<lambda>key.
        let k = take (em_key_size em) key
        in if hash_lookup api (em_table em) k = None then Inl ENOENT
           else Inr (em\<lparr>em_table := hash_del api (em_table em) k\<rparr>)))"

definition ExactMatch_AddRule ::
    "('h, em_value) hash_api \<Rightarrow> 'h exact_match \<Rightarrow> em_rule \<Rightarrow> 'h exact_match response" where
  "ExactMatch_AddRule api em arg =
     (let gate = (ucast (er_gate arg) :: u16)
      in if \<not> is_valid_gate gate then Inl EINVAL
         else if er_fields arg = [] then Inl EINVAL
         else if length (er_fields arg) \<noteq> length (em_fields em) then Inl EINVAL
         else if length (er_values arg) \<noteq> length (em_values em) then Inl EINVAL
         else let rule = RuleFieldsFromPb (em_fields em) (er_fields arg)
         in bind_response
              (if er_values arg = [] then Inr (replicate HASH_KEY_SIZE 0)
               else CreateValue (em_values em) (RuleFieldsFromPb (em_values em) (er_values arg)))
              (\<lambda>action. table_AddRule api em \<lparr>ev_gate = gate, ev_action = action\<rparr> rule))"

section \<open>Commands\<close>

definition ExactMatch_CommandAdd ::
    "('h, em_value) hash_api \<Rightarrow> 'h exact_match \<Rightarrow> em_rule \<Rightarrow> 'h exact_match \<times> unit response" where
  "ExactMatch_CommandAdd api em arg =
     (case ExactMatch_AddRule api em arg of Inl e \<Rightarrow> (em, Inl e) | Inr em \<Rightarrow> (em, Inr ()))"

definition ExactMatch_CommandDelete ::
    "('h, em_value) hash_api \<Rightarrow> 'h exact_match \<Rightarrow> field_data list \<Rightarrow> 'h exact_match \<times> unit response" where
  "ExactMatch_CommandDelete api em fds =
     (if fds = [] then (em, Inl EINVAL)
      else if length fds \<noteq> length (em_fields em) then (em, Inl EINVAL)
      else case table_DeleteRule api em (RuleFieldsFromPb (em_fields em) fds) of
             Inl e \<Rightarrow> (em, Inl e)
           | Inr em \<Rightarrow> (em, Inr ()))"

definition ClearRules :: "('h, em_value) hash_api \<Rightarrow> 'h exact_match \<Rightarrow> 'h exact_match" where
  "ClearRules api em = em\<lparr>em_table := hash_reset api (em_table em)\<rparr>"

definition ExactMatch_CommandSetDefaultGate :: "u64 \<Rightarrow> 'h exact_match \<Rightarrow> 'h exact_match" where
  "ExactMatch_CommandSetDefaultGate gate em = em\<lparr>em_default_gate := ucast gate\<rparr>"

definition ExactMatch_CommandClear :: "('h, em_value) hash_api \<Rightarrow> 'h exact_match \<Rightarrow> 'h exact_match" where
  "ExactMatch_CommandClear api em = ClearRules api em"

text \<open>
  The arguments that would rebuild the module: the fields, and the masks unless \<^verbatim>\<open>empty_masks_\<close>,
  which \<^verbatim>\<open>Init\<close> leaves telling whether the values had masks.
\<close>

definition ExactMatch_GetInitialArg ::
    "attribute list \<Rightarrow> 'h exact_match \<Rightarrow> (field_arg list \<times> field_data list) option" where
  "ExactMatch_GetInitialArg attrs em = do {
     fds \<leftarrow> those (map (\<lambda>f.
       (case wf_attr (em_at f) of
          Some i \<Rightarrow> if i < length attrs then Some (AtAttr (attr_name (attrs ! i)), of_nat (wf_size (em_at f))) else None
        | None \<Rightarrow> Some (AtOffset (of_nat (wf_offset (em_at f))), of_nat (wf_size (em_at f))))) (em_fields em));
     Some (fds, if em_empty_masks em then [] else map (\<lambda>f. ValueBin (take (wf_size (em_at f)) (em_mask f))) (em_fields em))
   }"

text \<open>
  The rules of the runtime configuration are those of the entries the iterator of the map visits.
  The iterator walks the native buckets; a table in the DPDK mode is built with none.
\<close>

definition em_rule_of_entry :: "'h exact_match \<Rightarrow> hkey \<times> em_value \<Rightarrow> em_rule" where
  "em_rule_of_entry em e =
     \<lparr>er_gate = ucast (ev_gate (snd e)),
      er_fields = map (\<lambda>f. ValueBin (take (wf_size (em_at f)) (drop (wf_pos (em_at f)) (fst e)))) (em_fields em),
      er_values = []\<rparr>"

definition em_rule_rank :: "em_rule \<Rightarrow> u64 \<times> u8 list list" where
  "em_rule_rank r = (er_gate r, map bin (er_fields r))"

definition native_entries :: "'h exact_match \<Rightarrow> (hkey \<times> em_value) list" where
  "native_entries em = []"

definition ExactMatch_GetRuntimeConfig :: "'h exact_match \<Rightarrow> u64 \<times> em_rule list" where
  "ExactMatch_GetRuntimeConfig em =
     (ucast (em_default_gate em), sort_key em_rule_rank (map (em_rule_of_entry em) (native_entries em)))"

text \<open>A restore that fails leaves the rules added so far.\<close>

fun em_add_rules ::
    "('h, em_value) hash_api \<Rightarrow> 'h exact_match \<Rightarrow> em_rule list \<Rightarrow> 'h exact_match \<times> unit response" where
  "em_add_rules api em [] = (em, Inr ())"
| "em_add_rules api em (r # rs) =
     (case ExactMatch_AddRule api em r of Inl e \<Rightarrow> (em, Inl e) | Inr em \<Rightarrow> em_add_rules api em rs)"

definition ExactMatch_SetRuntimeConfig ::
    "('h, em_value) hash_api \<Rightarrow> 'h exact_match \<Rightarrow> u64 \<Rightarrow> em_rule list \<Rightarrow> 'h exact_match \<times> unit response" where
  "ExactMatch_SetRuntimeConfig api em gate rs =
     em_add_rules api (ClearRules api (em\<lparr>em_default_gate := ucast gate\<rparr>)) rs"

definition ExactMatch_GetDesc :: "('h, em_value) hash_api \<Rightarrow> 'h exact_match \<Rightarrow> nat \<times> nat" where
  "ExactMatch_GetDesc api em = (length (em_fields em), hash_count api (em_table em))"

text \<open>The table is freed.\<close>

definition ExactMatch_DeInit :: "'h exact_match \<Rightarrow> unit exact_match" where
  "ExactMatch_DeInit em =
     \<lparr>em_fields = em_fields em, em_values = em_values em, em_key_size = em_key_size em,
      em_default_gate = em_default_gate em, em_empty_masks = em_empty_masks em, em_table = ()\<rparr>"

section \<open>Lookup\<close>

text \<open>
  \<^verbatim>\<open>MakeKeys\<close>: every field brings eight masked bytes to its position. An attribute that has no
  place in the packet gives a null pointer.
\<close>

definition buffer_fn :: "(nat \<Rightarrow> int) \<Rightarrow> wm_field \<Rightarrow> packet \<Rightarrow> u8 list option" where
  "buffer_fn attr_offset f p =
     (case wf_attr f of
        None \<Rightarrow> load_bytes 8 (head_data p (wf_offset f)) p
      | Some i \<Rightarrow>
          if IsValidOffset (attr_offset i) then load_bytes 8 (SNBUF_METADATA_OFF + nat (attr_offset i)) p else None)"

fun make_keys_loop :: "(nat \<Rightarrow> int) \<Rightarrow> em_field list \<Rightarrow> packet \<Rightarrow> hkey \<Rightarrow> hkey option" where
  "make_keys_loop attr_offset [] p key = Some key"
| "make_keys_loop attr_offset (f # fs) p key = do {
     bs \<leftarrow> buffer_fn attr_offset (em_at f) p;
     (if wf_pos (em_at f) + 8 > length key then None
      else make_keys_loop attr_offset fs p (put_field (wf_pos (em_at f)) (map2 (AND) bs (em_mask f)) key))
   }"

definition MakeKeys :: "(nat \<Rightarrow> int) \<Rightarrow> 'h exact_match \<Rightarrow> hkey \<Rightarrow> packet \<Rightarrow> hkey option" where
  "MakeKeys attr_offset em stack p =
     (if em_key_size em = 0 \<or> em_key_size em > HASH_KEY_SIZE then None
      else make_keys_loop attr_offset (em_fields em) p
             (put_field ((em_key_size em - 1) div 8 * 8) (replicate 8 0) stack))"

definition ExactMatch_Find :: "('h, em_value) hash_api \<Rightarrow> 'h exact_match \<Rightarrow> hkey list \<Rightarrow> em_value option list" where
  "ExactMatch_Find api em keys = map (\<lambda>key. hash_lookup api (em_table em) (take (em_key_size em) key)) keys"

definition ExactMatch_setValues :: "(nat \<Rightarrow> int) \<Rightarrow> 'h exact_match \<Rightarrow> hkey \<Rightarrow> packet \<Rightarrow> packet option" where
  "ExactMatch_setValues attr_offset em action p = set_values attr_offset action (map em_at (em_values em)) p"

definition em_emit ::
    "(nat \<Rightarrow> int) \<Rightarrow> 'h exact_match \<Rightarrow> packet \<Rightarrow> em_value option \<Rightarrow> (packet \<times> u16) option" where
  "em_emit attr_offset em p res =
     (case res of
        None \<Rightarrow> Some (p, em_default_gate em)
      | Some v \<Rightarrow> do {
          p \<leftarrow> ExactMatch_setValues attr_offset em (ev_action v) p;
          Some (p, ev_gate v)
        })"

definition ExactMatch_ProcessBatch ::
    "('h, em_value) hash_api \<Rightarrow> (nat \<Rightarrow> int) \<Rightarrow> 'h exact_match \<Rightarrow> (nat \<Rightarrow> hkey) \<Rightarrow> packet list \<Rightarrow>
     (packet \<times> u16) list option" where
  "ExactMatch_ProcessBatch api attr_offset em stack pkts = do {
     keys \<leftarrow> those (map (\<lambda>(i, p). MakeKeys attr_offset em (stack i) p) (enumerate 0 pkts));
     bulk_chunks (\<lambda>b. those (map2 (\<lambda>(key, p) res. em_emit attr_offset em p res) b (ExactMatch_Find api em (map fst b))))
       (zip keys pkts)
   }"

end
