(* ===== verification/Exact_Correct.thy ===== *)
theory Exact_Correct
  imports Exact_Match Wildcard_Classify
begin

text \<open>
  Correctness of \<^verbatim>\<open>ExactMatch\<close>: the well-formedness of a module and of its table, the rules the
  table stands for, what every command does to them, and where the packets of a batch go.
\<close>

section \<open>Well-formed modules\<close>

definition em_field_ok :: "em_field \<Rightarrow> bool" where
  "em_field_ok f \<longleftrightarrow> length (em_mask f) = 8 \<and> drop (wf_size (em_at f)) (em_mask f) = replicate (8 - wf_size (em_at f)) 0"

abbreviation em_size :: "em_field list \<Rightarrow> nat" where
  "em_size fs \<equiv> fields_size (map em_at fs)"

definition em_ready :: "'h exact_match \<Rightarrow> bool" where
  "em_ready em \<longleftrightarrow> layout 0 (map em_at (em_fields em)) \<and> layout 0 (map em_at (em_values em)) \<and>
     em_fields em \<noteq> [] \<and> length (em_fields em) \<le> MAX_FIELDS \<and> length (em_values em) \<le> MAX_FIELDS \<and>
     (\<forall>f\<in>set (em_fields em). em_field_ok f) \<and>
     em_key_size em = (em_size (em_fields em) + 7) div 8 * 8"

definition em_typed :: "('h, em_value) hash_api \<Rightarrow> 'h exact_match \<Rightarrow> bool" where
  "em_typed api em \<longleftrightarrow> em_ready em \<and>
     (\<forall>k v. hash_lookup api (em_table em) k = Some v \<longrightarrow>
        length k = em_key_size em \<and> is_valid_gate (ev_gate v) \<and> length (ev_action v) = HASH_KEY_SIZE)"

lemma layout_bound: "layout pos fs \<Longrightarrow> fields_size fs \<le> 8 * length fs"
  by (induction fs arbitrary: pos) fastforce+

lemma em_readyD:
  assumes "em_ready em"
  shows "em_size (em_fields em) \<le> em_key_size em" "em_key_size em \<le> HASH_KEY_SIZE" "0 < em_key_size em"
    "em_key_size em < em_size (em_fields em) + 8" "em_size (em_values em) \<le> HASH_KEY_SIZE" "8 dvd em_key_size em"
proof -
  have b: "em_size (em_fields em) \<le> 64" "em_size (em_values em) \<le> 64"
    using assms layout_bound [of 0 "map em_at (em_fields em)"] layout_bound [of 0 "map em_at (em_values em)"]
    by (auto simp: em_ready_def MAX_FIELDS_def)
  have pos: "0 < em_size (em_fields em)" using assms by (cases "em_fields em") (auto simp: em_ready_def)
  have k: "em_key_size em = (em_size (em_fields em) + 7) div 8 * 8" using assms by (simp add: em_ready_def)
  show "em_size (em_fields em) \<le> em_key_size em" "em_key_size em \<le> HASH_KEY_SIZE" "0 < em_key_size em"
    "em_key_size em < em_size (em_fields em) + 8" "em_size (em_values em) \<le> HASH_KEY_SIZE" "8 dvd em_key_size em"
    using b pos unfolding k HASH_KEY_SIZE_def by auto
qed

subsection \<open>Initialisation gives a well-formed module\<close>

lemma nth_bin_loop: "i < n \<Longrightarrow> fst (bin_loop n v) ! i = ucast (drop_bit (8 * i) v)"
proof (induction n arbitrary: v i)
  case (Suc n)
  then show ?case by (cases i) (simp_all add: case_prod_unfold Let_def drop_bit_drop_bit add.commute)
qed simp

lemma bin_loop_SetBits:
  assumes "sz \<le> 8"
  shows "drop sz (fst (bin_loop 8 (SetBitsHigh (sz * 8)))) = replicate (8 - sz) 0"
proof (rule nth_equalityI)
  fix i assume i: "i < length (drop sz (fst (bin_loop 8 (SetBitsHigh (sz * 8)))))"
  then have "sz < 8" by simp
  then have "SetBitsHigh (sz * 8) = mask (sz * 8)" by (simp add: SetBitsHigh_def mask_eq_exp_minus_1 push_bit_eq_mult)
  moreover have "drop_bit (8 * (sz + i)) (mask (sz * 8) :: u64) = 0"
    by (rule bit_eqI) (simp add: bit_drop_bit_eq bit_mask_iff)
  ultimately show "drop sz (fst (bin_loop 8 (SetBitsHigh (sz * 8)))) ! i = replicate (8 - sz) 0 ! i"
    using i nth_bin_loop [of "sz + i" 8 "mask (sz * 8)"] by (simp add: algebra_simps)
qed simp

lemma field_source_offset: "field_source mode name off sz st = Inr (attr, o', st') \<Longrightarrow> o' \<le> 1024"
  by (auto simp: field_source_def bind_response_Inr split: if_splits)

lemma field_mask_ok:
  assumes "field_mask m sz be = Inr m8" "sz \<le> 8"
  shows "length m8 = 8" "drop sz m8 = replicate (8 - sz) 0"
  using assms bin_loop_SetBits [OF assms(2)] uint64_to_bin_length
  by (auto simp: field_mask_def bind_response_Inr split: if_splits option.splits)

lemma DoAddField_ok:
  assumes "DoAddField mode name off sz m idx pos st = Inr (f, st')"
  shows "em_field_ok f \<and> wf_pos (em_at f) = pos \<and> 1 \<le> wf_size (em_at f) \<and> wf_size (em_at f) \<le> 8 \<and>
    wf_offset (em_at f) \<le> 1024 \<and> idx < MAX_FIELDS"
  using assms field_mask_ok
  by (auto dest: field_source_offset simp: DoAddField_def bind_response_Inr MAX_FIELD_SIZE_def em_field_ok_def split: if_splits)

lemma em_add_fields_ok:
  assumes "em_add_fields mode fds ms idx pos st = Some (Inr (fs, n, st'))"
  shows "layout pos (map em_at fs) \<and> n = pos + em_size fs \<and> length fs = length fds \<and>
    (\<forall>f\<in>set fs. em_field_ok f) \<and> (fs \<noteq> [] \<longrightarrow> idx + length fs \<le> MAX_FIELDS)"
  using assms
proof (induction mode fds ms idx pos st arbitrary: fs n st' rule: em_add_fields.induct)
  case (3 mode fd fds m ms idx pos st)
  obtain f st1 gs where st: "ExactMatch_AddFieldOne mode fd m idx pos st = Inr (f, st1)"
    "em_add_fields mode fds ms (idx + 1) (pos + wf_size (em_at f)) st1 = Some (Inr (gs, n, st'))" "fs = f # gs"
    using "3.prems" by (auto simp: bind_response_Inr split: sum.splits)
  obtain name off k where "DoAddField mode name off (sint (snd fd)) k idx pos st = Inr (f, st1)"
    using st(1) by (cases "fst fd") (auto simp: ExactMatch_AddFieldOne_def bind_response_Inr)
  from DoAddField_ok [OF this] show ?case using "3.IH" [OF st(1) refl st(2)] st(3) by (cases "gs = []") auto
qed auto

lemma align_ceil_8_eq:
  assumes "n \<le> 64"
  shows "unat (align_ceil (of_nat n) 8) = (n + 7) div 8 * 8"
proof -
  define v :: u64 where "v = of_nat (n + 7)"
  have v: "unat v = n + 7" unfolding v_def unat_of_nat using assms by (simp add: take_bit_nat_eq_self_iff)
  have m: "unat (v mod 8) = (n + 7) mod 8" by (simp add: unat_mod_distrib v)
  then have "v mod 8 \<le> v" using v by (simp add: word_le_nat_alt)
  then have "unat (v - v mod 8) = n + 7 - (n + 7) mod 8" using v m by (simp add: unat_sub)
  moreover have "align_ceil (of_nat n) 8 = v - v mod 8" by (simp add: align_ceil_def align_floor_def v_def add.commute)
  ultimately show ?thesis by (simp add: minus_mod_eq_div_mult)
qed

lemma bind_InrE:
  assumes "Option.bind r (case_sum (\<lambda>e. Some (Inl e)) f) = Some (Inr y)"
  obtains x where "r = Some (Inr x)" "f x = Some (Inr y)"
proof (cases r)
  case (Some s)
  then show ?thesis using that assms by (cases s) auto
qed (use assms in simp)

lemma ExactMatch_Init_typed:
  assumes "hash_laws api" "ExactMatch_Init api fds ms vds msv entries st = Some (Inr (em, st'))" "fds \<noteq> []"
  shows "em_typed api em"
proof -
  define m1 m2 where m: "m1 = (if ms = [] then replicate (length fds) NoValue else ms)"
    "m2 = (if msv = [] then replicate (length vds) NoValue else msv)"
  define en where "en = (if entries \<noteq> 0 then entries else 32768)"
  note run = assms(2) [unfolded ExactMatch_Init_def Let_def, folded m en_def]
  obtain fs n st1 where r1: "em_add_fields kRead fds m1 0 0 st = Some (Inr (fs, n, st1))"
    using run by (auto split: if_splits elim!: bind_InrE)
  obtain vs k st2 where r2: "em_add_fields kWrite vds m2 0 0 st1 = Some (Inr (vs, k, st2))"
    using run r1 by (auto split: if_splits elim!: bind_InrE)
  have init: "em_add_fields kRead fds m1 0 0 st = Some (Inr (em_fields em, n, st1))"
    "em_add_fields kWrite vds m2 0 0 st1 = Some (Inr (em_values em, k, st2))"
    "em_key_size em = unat (align_ceil (of_nat n) 8)" "hash_create api (em_key_size em) en = Some (em_table em)"
    using run r1 r2 by (auto split: if_splits option.splits)
  note ok = em_add_fields_ok [OF init(1)] em_add_fields_ok [OF init(2)]
  have ne: "em_fields em \<noteq> []" using ok(1) assms(3) by auto
  have lens: "length (em_fields em) \<le> MAX_FIELDS" "length (em_values em) \<le> MAX_FIELDS"
    using ok ne by (auto simp: MAX_FIELDS_def)
  have "n \<le> 64" using ok(1) lens(1) layout_bound [of 0 "map em_at (em_fields em)"] by (simp add: MAX_FIELDS_def)
  then have "em_ready em" using ok ne lens align_ceil_8_eq init(3) by (simp add: em_ready_def)
  then show ?thesis using hash_lawsD(1) [OF assms(1) init(4)] by (simp add: em_typed_def)
qed

section \<open>Rules\<close>

text \<open>A rule is known by the bytes of its fields; the key of the table is their concatenation, padded.\<close>

definition em_shape :: "em_field list \<Rightarrow> u8 list list \<Rightarrow> bool" where
  "em_shape fs bss \<longleftrightarrow> map length bss = map (\<lambda>f. wf_size (em_at f)) fs"

definition em_key :: "'h exact_match \<Rightarrow> u8 list list \<Rightarrow> u8 list" where
  "em_key em bss = concat bss @ replicate (em_key_size em - em_size (em_fields em)) 0"

definition em_rules :: "('h, em_value) hash_api \<Rightarrow> 'h exact_match \<Rightarrow> u8 list list \<rightharpoonup> em_value" where
  "em_rules api em bss = (if em_shape (em_fields em) bss then hash_lookup api (em_table em) (em_key em bss) else None)"

lemma em_shape_length: "em_shape fs bss \<Longrightarrow> length bss = length fs \<and> length (concat bss) = em_size fs"
  by (simp add: em_shape_def length_concat comp_def) (metis length_map)

lemma length_em_key:
  assumes "em_ready em" "em_shape (em_fields em) bss"
  shows "length (em_key em bss) = em_key_size em"
  using em_readyD(1) [OF assms(1)] em_shape_length [OF assms(2)] by (simp add: em_key_def)

lemma em_key_inject:
  assumes "em_shape (em_fields em) xs" "em_shape (em_fields em) ys" "em_key em xs = em_key em ys"
  shows "xs = ys"
proof -
  have len: "length xs = length ys" "map length xs = map length ys"
    using assms(1,2) em_shape_length by (simp_all add: em_shape_def)
  then have "\<forall>i<length xs. length (xs ! i) = length (ys ! i)" by (metis nth_map)
  then show ?thesis using assms(3) len(1) concat_eq_nth [OF len(1)] by (simp add: em_key_def nth_equalityI)
qed

lemma gather_loop_content:
  assumes "layout pos (map em_at fs)" "length bss = length fs" "pos + em_size fs \<le> length key"
  shows "gather_loop fs bss key =
    (if em_shape fs bss then Inr (take pos key @ concat bss @ drop (pos + em_size fs) key) else Inl EINVAL)"
  using assms
proof (induction fs bss key arbitrary: pos rule: gather_loop.induct)
  case (1 f fs bs bss key)
  show ?case
  proof (cases "length bs = wf_size (em_at f)")
    case True
    have put: "take (pos + length bs) (put_field pos bs key) = take pos key @ bs"
      "drop (pos + length bs + em_size fs) (put_field pos bs key) = drop (pos + length bs + em_size fs) key"
      "length (put_field pos bs key) = length key"
      using "1.prems" True by (auto simp: put_field_def min_def add.commute)
    show ?thesis
      using "1.IH" [of "pos + length bs"] "1.prems" True put by (auto simp: em_shape_def add.assoc)
  qed (simp add: em_shape_def)
qed (auto simp: em_shape_def)

lemma gather_key_content:
  assumes "layout 0 (map em_at fs)" "em_size fs \<le> HASH_KEY_SIZE"
  shows "gather_key fs bss =
    (if em_shape fs bss then Inr (concat bss @ replicate (HASH_KEY_SIZE - em_size fs) 0) else Inl EINVAL)"
  using gather_loop_content [OF assms(1), of bss "replicate HASH_KEY_SIZE 0"] assms(2) em_shape_length [of fs bss]
  by (auto simp: gather_key_def)

lemma table_key_gather:
  assumes "em_ready em" "em_shape (em_fields em) bss"
  shows "take (em_key_size em) (concat bss @ replicate (HASH_KEY_SIZE - em_size (em_fields em)) 0) = em_key em bss"
  using em_readyD(1,2) [OF assms(1)] em_shape_length [OF assms(2)] by (simp add: em_key_def min_def)

lemma table_AddRule_eq:
  assumes "em_ready em"
  shows "table_AddRule api em v rule =
    (if em_shape (em_fields em) rule
     then (case hash_add api (em_table em) (em_key em rule) v of None \<Rightarrow> Inl ENOSPC | Some h \<Rightarrow> Inr (em\<lparr>em_table := h\<rparr>))
     else Inl EINVAL)"
proof -
  have "gather_key (em_fields em) rule =
      (if em_shape (em_fields em) rule then Inr (concat rule @ replicate (HASH_KEY_SIZE - em_size (em_fields em)) 0) else Inl EINVAL)"
    using gather_key_content assms em_readyD(1,2) [OF assms] by (simp add: em_ready_def)
  moreover have "\<not> em_shape (em_fields em) []" using assms by (simp add: em_shape_def em_ready_def)
  ultimately show ?thesis using table_key_gather [OF assms] by (simp add: table_AddRule_def)
qed

lemma table_DeleteRule_eq:
  assumes "em_ready em"
  shows "table_DeleteRule api em rule =
    (if em_shape (em_fields em) rule
     then if em_rules api em rule = None then Inl ENOENT
          else Inr (em\<lparr>em_table := hash_del api (em_table em) (em_key em rule)\<rparr>)
     else Inl EINVAL)"
proof -
  have "gather_key (em_fields em) rule =
      (if em_shape (em_fields em) rule then Inr (concat rule @ replicate (HASH_KEY_SIZE - em_size (em_fields em)) 0) else Inl EINVAL)"
    using gather_key_content assms em_readyD(1,2) [OF assms] by (simp add: em_ready_def)
  moreover have "\<not> em_shape (em_fields em) []" using assms by (simp add: em_shape_def em_ready_def)
  ultimately show ?thesis using table_key_gather [OF assms] by (simp add: table_DeleteRule_def em_rules_def Let_def)
qed

section \<open>Commands\<close>

datatype em_command =
    EmAdd em_rule
  | EmDelete "field_data list"
  | EmClear
  | EmSetDefaultGate u64
  | EmSetRuntimeConfig u64 "em_rule list"

fun em_step :: "('h, em_value) hash_api \<Rightarrow> em_command \<Rightarrow> 'h exact_match \<Rightarrow> 'h exact_match \<times> unit response" where
  "em_step api (EmAdd arg) em = ExactMatch_CommandAdd api em arg"
| "em_step api (EmDelete fds) em = ExactMatch_CommandDelete api em fds"
| "em_step api EmClear em = (ExactMatch_CommandClear api em, Inr ())"
| "em_step api (EmSetDefaultGate g) em = (ExactMatch_CommandSetDefaultGate g em, Inr ())"
| "em_step api (EmSetRuntimeConfig g rs) em = ExactMatch_SetRuntimeConfig api em g rs"

text \<open>The specification: a map from the bytes of the fields to results, and a default gate.\<close>

definition em_rule_key :: "'h exact_match \<Rightarrow> field_data list \<Rightarrow> u8 list list option" where
  "em_rule_key em fds =
     (if length fds = length (em_fields em) \<and> em_shape (em_fields em) (RuleFieldsFromPb (em_fields em) fds)
      then Some (RuleFieldsFromPb (em_fields em) fds) else None)"

definition em_rule_data :: "'h exact_match \<Rightarrow> em_rule \<Rightarrow> em_value option" where
  "em_rule_data em arg =
     (let bss = RuleFieldsFromPb (em_values em) (er_values arg)
      in if is_valid_gate (ucast (er_gate arg)) \<and> length (er_values arg) = length (em_values em) \<and> em_shape (em_values em) bss
         then Some \<lparr>ev_gate = ucast (er_gate arg), ev_action = concat bss @ replicate (HASH_KEY_SIZE - em_size (em_values em)) 0\<rparr>
         else None)"

type_synonym em_abstract = "(u8 list list \<rightharpoonup> em_value) \<times> u16"

definition em_spec_add :: "'h exact_match \<Rightarrow> em_rule \<Rightarrow> em_abstract \<Rightarrow> em_abstract \<Rightarrow> unit response \<Rightarrow> bool" where
  "em_spec_add em arg A A' r \<longleftrightarrow>
     (case (em_rule_key em (er_fields arg), em_rule_data em arg) of
        (Some k, Some d) \<Rightarrow> A' = ((fst A)(k \<mapsto> d), snd A) \<and> r = Inr () \<or> A' = A \<and> r = Inl ENOSPC
      | _ \<Rightarrow> A' = A \<and> r = Inl EINVAL)"

fun em_spec_adds :: "'h exact_match \<Rightarrow> em_rule list \<Rightarrow> em_abstract \<Rightarrow> em_abstract \<Rightarrow> unit response \<Rightarrow> bool" where
  "em_spec_adds em [] A A' r = (A' = A \<and> r = Inr ())"
| "em_spec_adds em (arg # args) A A' r =
     (\<exists>B s. em_spec_add em arg A B s \<and> (if s = Inr () then em_spec_adds em args B A' r else A' = B \<and> r = s))"

fun em_spec :: "'h exact_match \<Rightarrow> em_command \<Rightarrow> em_abstract \<Rightarrow> em_abstract \<Rightarrow> unit response \<Rightarrow> bool" where
  "em_spec em (EmAdd arg) A A' r = em_spec_add em arg A A' r"
| "em_spec em (EmDelete fds) A A' r =
     (case em_rule_key em fds of
        None \<Rightarrow> A' = A \<and> r = Inl EINVAL
      | Some k \<Rightarrow> if fst A k = None then A' = A \<and> r = Inl ENOENT
                  else A' = ((fst A)(k := None), snd A) \<and> r = Inr ())"
| "em_spec em EmClear A A' r = (A' = (Map.empty, snd A) \<and> r = Inr ())"
| "em_spec em (EmSetDefaultGate g) A A' r = (A' = (fst A, ucast g) \<and> r = Inr ())"
| "em_spec em (EmSetRuntimeConfig g rs) A A' r = em_spec_adds em rs (Map.empty, ucast g) A' r"

definition em_abs :: "('h, em_value) hash_api \<Rightarrow> 'h exact_match \<Rightarrow> em_abstract" where
  "em_abs api em = (em_rules api em, em_default_gate em)"

definition em_same_config :: "'h exact_match \<Rightarrow> 'h exact_match \<Rightarrow> bool" where
  "em_same_config em em' \<longleftrightarrow> em_fields em' = em_fields em \<and> em_values em' = em_values em \<and> em_key_size em' = em_key_size em"

lemma em_same_config_cong:
  assumes "em_same_config em em'"
  shows "em_rule_key em' = em_rule_key em" "em_rule_data em' = em_rule_data em" "em_ready em' = em_ready em"
    "em_key em' = em_key em" "em_spec_add em' = em_spec_add em"
proof -
  note c = assms [unfolded em_same_config_def, THEN conjunct1] assms [unfolded em_same_config_def, THEN conjunct2, THEN conjunct1]
    assms [unfolded em_same_config_def, THEN conjunct2, THEN conjunct2]
  show k: "em_rule_key em' = em_rule_key em" and d: "em_rule_data em' = em_rule_data em"
    by (rule ext, simp only: em_rule_key_def em_rule_data_def c)+
  show "em_ready em' = em_ready em" by (simp only: em_ready_def c)
  show "em_key em' = em_key em" by (rule ext) (simp only: em_key_def c)
  show "em_spec_add em' = em_spec_add em" by (intro ext) (simp only: em_spec_add_def k d)
qed

subsection \<open>Adding\<close>

lemma AddRule_eq:
  assumes "em_ready em"
  shows "ExactMatch_AddRule api em arg =
    (case (em_rule_key em (er_fields arg), em_rule_data em arg) of
       (Some k, Some d) \<Rightarrow>
         (case hash_add api (em_table em) (em_key em k) d of None \<Rightarrow> Inl ENOSPC | Some h \<Rightarrow> Inr (em\<lparr>em_table := h\<rparr>))
     | _ \<Rightarrow> Inl EINVAL)"
proof -
  have ne: "er_fields arg \<noteq> []" if "length (er_fields arg) = length (em_fields em)"
    using that assms by (auto simp: em_ready_def)
  have vals: "CreateValue (em_values em) bss =
      (if em_shape (em_values em) bss then Inr (concat bss @ replicate (HASH_KEY_SIZE - em_size (em_values em)) 0) else Inl EINVAL)"
    if "em_values em \<noteq> []" for bss
    using that assms gather_key_content [of "em_values em" bss] em_readyD(5) [OF assms]
    by (auto simp: CreateValue_def em_ready_def em_shape_def)
  show ?thesis
  proof (cases "em_values em = []")
    case True
    then show ?thesis using ne table_AddRule_eq [OF assms]
      by (auto simp: ExactMatch_AddRule_def em_rule_key_def em_rule_data_def Let_def em_shape_def)
  next
    case False
    then show ?thesis using ne table_AddRule_eq [OF assms] vals [OF False]
      by (auto simp: ExactMatch_AddRule_def em_rule_key_def em_rule_data_def Let_def)
  qed
qed

lemma em_table_update:
  assumes "em_ready em" "em_shape (em_fields em) k"
    "hash_lookup api h = (hash_lookup api (em_table em))(em_key em k := x)"
  shows "em_rules api (em\<lparr>em_table := h\<rparr>) = (em_rules api em)(k := x)"
  using assms(2,3) em_key_inject [OF _ assms(2)] by (auto simp: em_rules_def fun_eq_iff em_key_def)

lemma CommandAdd_post_em:
  assumes "hash_laws api" "em_typed api em" "ExactMatch_CommandAdd api em arg = (em', r)"
  shows "em_typed api em' \<and> em_same_config em em' \<and> em_spec_add em arg (em_abs api em) (em_abs api em') r"
proof -
  have rd: "em_ready em" using assms(2) by (simp add: em_typed_def)
  note add = assms(3) [unfolded ExactMatch_CommandAdd_def AddRule_eq [OF rd]]
  show ?thesis
  proof (cases "em_rule_key em (er_fields arg) = None \<or> em_rule_data em arg = None")
    case True
    then show ?thesis using add assms(2) by (auto simp: em_spec_add_def em_same_config_def split: option.splits)
  next
    case False
    then obtain k d where kd: "em_rule_key em (er_fields arg) = Some k" "em_rule_data em arg = Some d" by auto
    have k: "em_shape (em_fields em) k" using kd(1) by (auto simp: em_rule_key_def split: if_splits)
    have d: "is_valid_gate (ev_gate d)" "length (ev_action d) = HASH_KEY_SIZE"
      using kd(2) em_readyD(5) [OF rd] em_shape_length [of "em_values em"]
      by (auto simp: em_rule_data_def Let_def split: if_splits)
    show ?thesis
    proof (cases "hash_add api (em_table em) (em_key em k) d")
      case None
      then show ?thesis using add kd assms(2) by (auto simp: em_spec_add_def em_same_config_def)
    next
      case (Some h)
      note look = hash_lawsD(2) [OF assms(1) Some]
      have em': "em' = em\<lparr>em_table := h\<rparr>" "r = Inr ()" using add kd Some by auto
      have "em_typed api em'"
        using assms(2) look d length_em_key [OF rd k] by (auto simp: em' em_typed_def em_ready_def)
      then show ?thesis using em_table_update [OF rd k look] kd
        by (simp add: em' em_spec_add_def em_same_config_def em_abs_def)
    qed
  qed
qed

subsection \<open>Deleting and restoring\<close>

lemma CommandDelete_post_em:
  assumes "hash_laws api" "em_typed api em" "ExactMatch_CommandDelete api em fds = (em', r)"
  shows "em_typed api em' \<and> em_same_config em em' \<and> em_spec em (EmDelete fds) (em_abs api em) (em_abs api em') r"
proof -
  have rd: "em_ready em" using assms(2) by (simp add: em_typed_def)
  have ne: "fds \<noteq> []" if "length fds = length (em_fields em)" using that rd by (auto simp: em_ready_def)
  note del = assms(3) [unfolded ExactMatch_CommandDelete_def table_DeleteRule_eq [OF rd]]
  show ?thesis
  proof (cases "em_rule_key em fds")
    case None
    then have "em' = em" "r = Inl EINVAL" using del by (auto simp: em_rule_key_def split: if_splits)
    then show ?thesis using None assms(2) by (simp add: em_same_config_def)
  next
    case (Some k)
    then have k: "em_shape (em_fields em) k" "k = RuleFieldsFromPb (em_fields em) fds" "length fds = length (em_fields em)"
      by (auto simp: em_rule_key_def split: if_splits)
    show ?thesis
    proof (cases "em_rules api em k = None")
      case True
      then have "em' = em" "r = Inl ENOENT" using del k ne by auto
      then show ?thesis using Some True assms(2) by (simp add: em_same_config_def em_abs_def)
    next
      case False
      note look = hash_lawsD(3) [OF assms(1), of "em_table em" "em_key em k"]
      have em': "em' = em\<lparr>em_table := hash_del api (em_table em) (em_key em k)\<rparr>" "r = Inr ()" using del k ne False by auto
      have "em_typed api em'" using assms(2) look by (auto simp: em' em_typed_def em_ready_def split: if_splits)
      then show ?thesis using em_table_update [OF rd k(1) look] Some False
        by (simp add: em' em_same_config_def em_abs_def)
    qed
  qed
qed

lemma em_reset:
  assumes "hash_laws api" "em_typed api em"
  shows "em_typed api (ClearRules api (em\<lparr>em_default_gate := g\<rparr>))" "em_same_config em (ClearRules api (em\<lparr>em_default_gate := g\<rparr>))"
    "em_abs api (ClearRules api (em\<lparr>em_default_gate := g\<rparr>)) = (Map.empty, g)"
  using assms(2) hash_lawsD(5) [OF assms(1)]
  by (auto simp: ClearRules_def em_typed_def em_ready_def em_same_config_def em_abs_def em_rules_def fun_eq_iff)

lemma em_add_rules_post:
  assumes "hash_laws api" "em_typed api em" "em_add_rules api em rs = (em', r)"
  shows "em_typed api em' \<and> em_same_config em em' \<and> em_spec_adds em rs (em_abs api em) (em_abs api em') r"
  using assms(2,3)
proof (induction rs arbitrary: em)
  case (Cons a rs)
  obtain em1 s where one: "ExactMatch_CommandAdd api em a = (em1, s)" by force
  note post = CommandAdd_post_em [OF assms(1) Cons.prems(1) one]
  show ?case
  proof (cases s)
    case (Inl e)
    then have "em' = em1" "r = Inl e"
      using Cons.prems(2) one by (auto simp: ExactMatch_CommandAdd_def split: sum.splits)
    then show ?thesis using post Inl
      by (simp del: split_paired_Ex) (intro exI [of _ "em_abs api em1"] exI [of _ s], simp)
  next
    case (Inr u)
    then have rest: "em_add_rules api em1 rs = (em', r)"
      using Cons.prems(2) one by (auto simp: ExactMatch_CommandAdd_def split: sum.splits)
    have same: "em_spec_adds em1 qs = em_spec_adds em qs" for qs
      using em_same_config_cong(5) [of em em1] post by (induction qs) (auto simp: fun_eq_iff)
    have "em_typed api em' \<and> em_same_config em1 em' \<and> em_spec_adds em rs (em_abs api em1) (em_abs api em') r"
      using Cons.IH [OF _ rest] post same by metis
    then show ?thesis using post Inr
      by (simp add: em_same_config_def del: split_paired_Ex) (intro exI [of _ "em_abs api em1"] exI [of _ s], simp)
  qed
qed (simp add: em_same_config_def)

lemma em_step_post:
  assumes "hash_laws api" "em_typed api em" "em_step api c em = (em', r)"
  shows "em_typed api em' \<and> em_same_config em em' \<and> em_spec em c (em_abs api em) (em_abs api em') r"
proof (cases c)
  case (EmAdd arg)
  then show ?thesis using CommandAdd_post_em [OF assms(1,2)] assms(3) by simp
next
  case (EmDelete fds)
  then show ?thesis using CommandDelete_post_em [OF assms(1,2)] assms(3) by (simp only: em_step.simps)
next
  case EmClear
  have "em' = ClearRules api (em\<lparr>em_default_gate := em_default_gate em\<rparr>)" "r = Inr ()"
    using assms(3) EmClear by (simp_all add: ExactMatch_CommandClear_def)
  then show ?thesis using em_reset [OF assms(1,2), of "em_default_gate em"] EmClear by (simp add: em_abs_def [of api em])
next
  case (EmSetDefaultGate g)
  then have "em' = em\<lparr>em_default_gate := ucast g\<rparr>" "r = Inr ()"
    using assms(3) by (simp_all add: ExactMatch_CommandSetDefaultGate_def)
  then show ?thesis using EmSetDefaultGate assms(2)
    by (auto simp: em_typed_def em_ready_def em_same_config_def em_abs_def em_rules_def em_key_def fun_eq_iff)
next
  case (EmSetRuntimeConfig g rs)
  let ?em = "ClearRules api (em\<lparr>em_default_gate := ucast g\<rparr>)"
  have "em_add_rules api ?em rs = (em', r)"
    using assms(3) EmSetRuntimeConfig by (simp add: ExactMatch_SetRuntimeConfig_def)
  note post = em_add_rules_post [OF assms(1) em_reset(1) [OF assms(1,2)] this]
  have same: "em_spec_adds ?em qs = em_spec_adds em qs" for qs
    using em_same_config_cong(5) [OF em_reset(2) [OF assms(1,2)]] by (induction qs) (auto simp: fun_eq_iff)
  show ?thesis using post same em_reset(2,3) [OF assms(1,2)] EmSetRuntimeConfig by (auto simp: em_same_config_def)
qed

end
