(* ===== verification/Exact_Properties.thy ===== *)
theory Exact_Properties
  imports Exact_Correct
begin

text \<open>
  The properties of \<^verbatim>\<open>ExactMatch\<close>: its commands implement a map from the bytes of the fields to
  results, every module stays well formed, a batch leaves by the results of the rules that equal
  its packets' fields, and what the dumps of the configuration lose.
\<close>

section \<open>The key of a packet\<close>

definition em_packet_field :: "(nat \<Rightarrow> int) \<Rightarrow> packet \<Rightarrow> em_field \<Rightarrow> u8 list" where
  "em_packet_field attr_offset p f =
     (case buffer_fn attr_offset (em_at f) p of
        None \<Rightarrow> []
      | Some bs \<Rightarrow> take (wf_size (em_at f)) (map2 (AND) bs (em_mask f)))"

lemma length_buffer_fn: "buffer_fn attr_offset f p = Some bs \<Longrightarrow> length bs = 8"
  by (auto simp: buffer_fn_def load_bytes_def split: option.splits if_splits)

lemma masked_tail:
  assumes "em_field_ok f" "length bs = 8" "wf_size (em_at f) \<le> i" "i < 8"
  shows "map2 (AND) bs (em_mask f) ! i = 0"
proof -
  note m = assms(1) [unfolded em_field_ok_def]
  have "drop (wf_size (em_at f)) (em_mask f) ! (i - wf_size (em_at f)) = 0"
    by (subst m [THEN conjunct2]) (use assms in simp)
  then have "em_mask f ! i = 0" using assms(3,4) m [THEN conjunct1] by simp
  then show ?thesis using assms(2,4) m [THEN conjunct1] by simp
qed

lemma make_keys_content:
  assumes "make_keys_loop attr_offset fs p key = Some K" "layout pos (map em_at fs)" "\<forall>f\<in>set fs. em_field_ok f"
    "pos \<le> length key"
  shows "length K = length key \<and> pos + em_size fs \<le> length key \<and>
    take (pos + em_size fs) K = take pos key @ concat (map (em_packet_field attr_offset p) fs) \<and>
    em_shape fs (map (em_packet_field attr_offset p) fs) \<and>
    (\<forall>j<length key. pos + em_size fs \<le> j \<longrightarrow> key ! j = 0 \<longrightarrow> K ! j = 0)"
  using assms
proof (induction fs arbitrary: key pos)
  case (Cons f fs)
  define bs8 where "bs8 = map2 (AND) (the (buffer_fn attr_offset (em_at f) p)) (em_mask f)"
  obtain bs where bs: "buffer_fn attr_offset (em_at f) p = Some bs" "pos + 8 \<le> length key" "wf_pos (em_at f) = pos"
    "wf_size (em_at f) \<le> 8" "make_keys_loop attr_offset fs p (put_field pos bs8 key) = Some K"
    "layout (pos + wf_size (em_at f)) (map em_at fs)"
    using Cons.prems(1,2) by (auto simp: bs8_def Option.bind_eq_Some_conv split: if_splits)
  have ok: "em_field_ok f" "\<forall>g\<in>set fs. em_field_ok g" using Cons.prems(3) by auto
  have len: "length bs = 8" "length bs8 = 8" using length_buffer_fn [OF bs(1)] ok(1) bs(1) by (simp_all add: bs8_def em_field_ok_def)
  have put: "length (put_field pos bs8 key) = length key"
    "take (pos + wf_size (em_at f)) (put_field pos bs8 key) = take pos key @ take (wf_size (em_at f)) bs8"
    using bs(2,4) len(2) take_put_field [of pos bs8 key "wf_size (em_at f)"] by simp_all
  have zero: "put_field pos bs8 key ! j = 0" if "j < length key" "pos + wf_size (em_at f) \<le> j" "key ! j = 0" for j
    using that masked_tail [OF ok(1) len(1), of "j - pos"] bs(1,2) len(2)
    by (auto simp: nth_put_field bs8_def)
  have field: "em_packet_field attr_offset p f = take (wf_size (em_at f)) bs8" using bs(1) by (simp add: em_packet_field_def bs8_def)
  note IH = Cons.IH [OF bs(5,6) ok(2)]
  show ?case
    using IH put zero bs(2,4) len field by (auto simp: add.assoc em_shape_def)
qed (simp add: em_shape_def)

lemma last_word: "0 < n \<Longrightarrow> 8 dvd n \<Longrightarrow> (n - 1) div 8 * 8 = n - (8 :: nat) \<and> 8 \<le> n"
  by presburger

lemma MakeKeys_content:
  assumes "em_ready em" "MakeKeys attr_offset em stack p = Some K" "length stack = HASH_KEY_SIZE"
  shows "take (em_key_size em) K = em_key em (map (em_packet_field attr_offset p) (em_fields em))"
    "em_shape (em_fields em) (map (em_packet_field attr_offset p) (em_fields em))"
proof -
  note rd = em_readyD [OF assms(1)]
  let ?n = "em_key_size em" and ?raw = "em_size (em_fields em)"
  define key where "key = put_field ((?n - 1) div 8 * 8) (replicate 8 0) stack"
  have last: "(?n - 1) div 8 * 8 = ?n - 8" "8 \<le> ?n" using last_word [OF rd(3,6)] by blast+
  have key: "length key = HASH_KEY_SIZE" "\<forall>j. ?raw \<le> j \<longrightarrow> j < ?n \<longrightarrow> key ! j = 0"
    unfolding key_def last(1) using rd last(2) assms(3) by (auto simp: nth_put_field)
  have loop: "make_keys_loop attr_offset (em_fields em) p key = Some K"
    using assms(2) by (simp add: MakeKeys_def key_def split: if_splits)
  note c = make_keys_content [OF loop, of 0]
  have c': "length K = HASH_KEY_SIZE" "take ?raw K = concat (map (em_packet_field attr_offset p) (em_fields em))"
    "em_shape (em_fields em) (map (em_packet_field attr_offset p) (em_fields em))"
    "\<forall>j<HASH_KEY_SIZE. ?raw \<le> j \<longrightarrow> key ! j = 0 \<longrightarrow> K ! j = 0"
    using c assms(1) key(1) by (auto simp: em_ready_def)
  show "em_shape (em_fields em) (map (em_packet_field attr_offset p) (em_fields em))" by (rule c'(3))
  have "take ?n K = take ?raw K @ drop ?raw (take ?n K)" using rd(1) by (metis append_take_drop_id min.absorb1 take_take)
  moreover have "drop ?raw (take ?n K) = replicate (?n - ?raw) 0"
    using c'(1,4) key(2) rd(1,2) by (intro nth_equalityI) auto
  ultimately show "take ?n K = em_key em (map (em_packet_field attr_offset p) (em_fields em))"
    using c'(2) by (simp add: em_key_def)
qed

section \<open>Lookups return\<close>

lemma buffer_fn_returns:
  assumes "buffer_ok p" "wf_offset f \<le> 1024" "attrs_ok attr_offset (f # fs)"
  shows "\<exists>bs. buffer_fn attr_offset f p = Some bs"
  using assms
  by (auto simp: buffer_fn_def load_bytes_def buffer_ok_def attrs_ok_def head_data_def snbuf_defs IsValidOffset_def
    split: option.splits)

lemma make_keys_returns:
  assumes "buffer_ok p" "layout pos (map em_at fs)" "attrs_ok attr_offset (map em_at fs)" "pos \<le> 8 * idx"
    "idx + length fs \<le> MAX_FIELDS" "length key = HASH_KEY_SIZE" "\<forall>f\<in>set fs. em_field_ok f"
  shows "\<exists>K. make_keys_loop attr_offset fs p key = Some K"
  using assms(2-7)
proof (induction fs arbitrary: pos idx key)
  case (Cons f fs)
  obtain bs where bs: "buffer_fn attr_offset (em_at f) p = Some bs"
    using buffer_fn_returns [OF assms(1), of "em_at f" attr_offset "map em_at fs"] Cons.prems(1,2) by auto
  have pos: "pos + 8 \<le> HASH_KEY_SIZE" using Cons.prems(3,4) by (simp add: MAX_FIELDS_def HASH_KEY_SIZE_def)
  have "\<exists>K. make_keys_loop attr_offset fs p (put_field pos (map2 (AND) bs (em_mask f)) key) = Some K"
    using Cons.prems pos length_buffer_fn [OF bs]
    by (intro Cons.IH [of "pos + wf_size (em_at f)" "Suc idx"]) (auto simp: attrs_ok_def em_field_ok_def)
  then show ?case using Cons.prems(1,5) bs pos by auto
qed simp

lemma MakeKeys_returns:
  assumes "em_ready em" "attrs_ok attr_offset (map em_at (em_fields em))" "buffer_ok p" "length stack = HASH_KEY_SIZE"
  shows "\<exists>K. MakeKeys attr_offset em stack p = Some K"
proof -
  note rd = em_readyD [OF assms(1)]
  have "(em_key_size em - 1) div 8 * 8 + 8 \<le> HASH_KEY_SIZE" using last_word [OF rd(3,6)] rd(2) by linarith
  then have "length (put_field ((em_key_size em - 1) div 8 * 8) (replicate 8 0) stack) = HASH_KEY_SIZE"
    using assms(4) by simp
  then show ?thesis
    using make_keys_returns [OF assms(3) _ assms(2), of 0 0] assms(1) rd by (auto simp: MakeKeys_def em_ready_def)
qed

section \<open>Processing a batch\<close>

definition em_leaves_as :: "(nat \<Rightarrow> int) \<Rightarrow> 'h exact_match \<Rightarrow> em_value option \<Rightarrow> packet \<Rightarrow> packet \<times> u16 \<Rightarrow> bool" where
  "em_leaves_as attr_offset em r p e \<longleftrightarrow>
     (case r of
        None \<Rightarrow> e = (p, em_default_gate em)
      | Some v \<Rightarrow> ExactMatch_setValues attr_offset em (ev_action v) p = Some (fst e) \<and> snd e = ev_gate v)"

definition em_one ::
    "('h, em_value) hash_api \<Rightarrow> (nat \<Rightarrow> int) \<Rightarrow> 'h exact_match \<Rightarrow> hkey \<times> packet \<Rightarrow> (packet \<times> u16) option" where
  "em_one api attr_offset em = (\<lambda>(key, p). em_emit attr_offset em p (hash_lookup api (em_table em) (take (em_key_size em) key)))"

lemma ExactMatch_pointwise:
  "those (map2 (\<lambda>(key, p) res. em_emit attr_offset em p res) b (ExactMatch_Find api em (map fst b))) =
   those (map (em_one api attr_offset em) b)"
  by (auto simp: ExactMatch_Find_def em_one_def case_prod_unfold intro!: arg_cong [of _ _ those] nth_equalityI)

lemma em_one_leaves:
  assumes "em_typed api em" "attrs_ok attr_offset (map em_at (em_values em))" "buffer_ok p"
    "MakeKeys attr_offset em stack p = Some K" "length stack = HASH_KEY_SIZE"
  shows "\<exists>e. em_one api attr_offset em (K, p) = Some e \<and>
    em_leaves_as attr_offset em (em_rules api em (map (em_packet_field attr_offset p) (em_fields em))) p e"
proof -
  have rd: "em_ready em" using assms(1) by (simp add: em_typed_def)
  note key = MakeKeys_content [OF rd assms(4,5)]
  let ?r = "em_rules api em (map (em_packet_field attr_offset p) (em_fields em))"
  have r: "hash_lookup api (em_table em) (take (em_key_size em) K) = ?r" using key by (simp add: em_rules_def)
  show ?thesis
  proof (cases ?r)
    case None
    then show ?thesis using r by (simp add: em_one_def em_emit_def em_leaves_as_def)
  next
    case (Some v)
    then have "length (ev_action v) = HASH_KEY_SIZE" using assms(1) r by (metis em_typed_def)
    then obtain q where "ExactMatch_setValues attr_offset em (ev_action v) p = Some q"
      using set_values_returns [OF assms(3) _ _ assms(2), of 0 "ev_action v"] rd em_readyD(5) [OF rd]
      by (auto simp: ExactMatch_setValues_def em_ready_def)
    then show ?thesis using r Some by (simp add: em_one_def em_emit_def em_leaves_as_def)
  qed
qed

text \<open>
  C6. \<^verbatim>\<open>ProcessBatch\<close> of \<^verbatim>\<open>ExactMatch\<close> emits every packet of a batch, in order: a packet whose
  masked fields are the bytes of a rule leaves by the gate of that rule and carries its values, any
  other packet leaves unchanged by the default gate.
\<close>

theorem ExactMatch_classifies:
  assumes "em_typed api em" "attrs_ok attr_offset (map em_at (em_fields em))" "attrs_ok attr_offset (map em_at (em_values em))"
    "\<forall>p\<in>set pkts. buffer_ok p" "\<forall>i. length (stack i) = HASH_KEY_SIZE"
  shows "\<exists>outs. ExactMatch_ProcessBatch api attr_offset em stack pkts = Some outs \<and> length outs = length pkts \<and>
    (\<forall>i<length pkts. em_leaves_as attr_offset em
      (em_rules api em (map (em_packet_field attr_offset (pkts ! i)) (em_fields em))) (pkts ! i) (outs ! i))"
proof -
  have rd: "em_ready em" using assms(1) by (simp add: em_typed_def)
  let ?mk = "\<lambda>(i, p). MakeKeys attr_offset em (stack i) p"
  define keys where "keys = map (\<lambda>x. the (?mk x)) (enumerate 0 pkts)"
  have mk: "those (map ?mk (enumerate 0 pkts)) = Some keys"
    unfolding keys_def using MakeKeys_returns [OF rd assms(2)] assms(4,5)
    by (intro those_returns) (auto simp: in_set_enumerate_eq)
  have len: "length keys = length pkts" by (simp add: keys_def)
  have key: "MakeKeys attr_offset em (stack i) (pkts ! i) = Some (keys ! i)" if "i < length pkts" for i
    using MakeKeys_returns [OF rd assms(2), of "pkts ! i" "stack i"] assms(4,5) that
    by (auto simp: keys_def nth_enumerate_eq)
  define outs where "outs = map (\<lambda>x. the (em_one api attr_offset em x)) (zip keys pkts)"
  have one: "\<exists>e. em_one api attr_offset em (keys ! i, pkts ! i) = Some e \<and> em_leaves_as attr_offset em
      (em_rules api em (map (em_packet_field attr_offset (pkts ! i)) (em_fields em))) (pkts ! i) e" if "i < length pkts" for i
    using em_one_leaves [OF assms(1,3) _ key [OF that]] assms(4,5) that by simp
  have "those (map (em_one api attr_offset em) (zip keys pkts)) = Some outs"
    unfolding outs_def
  proof (rule those_returns)
    fix x assume "x \<in> set (zip keys pkts)"
    then obtain i where "i < length pkts" "x = (keys ! i, pkts ! i)" using len by (auto simp: in_set_zip)
    then show "\<exists>y. em_one api attr_offset em x = Some y" using one by blast
  qed
  then have "ExactMatch_ProcessBatch api attr_offset em stack pkts = Some outs"
    by (simp add: ExactMatch_ProcessBatch_def mk ExactMatch_pointwise bulk_chunks_pointwise)
  moreover have "outs ! i = the (em_one api attr_offset em (keys ! i, pkts ! i))" "length outs = length pkts"
    if "i < length pkts" for i using that len by (simp_all add: outs_def)
  moreover have "length outs = length pkts" using len by (simp add: outs_def)
  ultimately show ?thesis using one by fastforce
qed

section \<open>The commands refine a map\<close>

text \<open>
  C7. Every command of \<^verbatim>\<open>ExactMatch\<close> does to the module what the specification does to a map from
  the bytes of the fields to results and a default gate, and answers as it says: a malformed rule
  is refused and changes nothing, a rule that is absent is not deleted, a restore that fails keeps
  the rules added before. The configuration of the fields stays.
\<close>

theorem ExactMatch_refines:
  assumes "hash_laws api" "em_typed api em" "em_step api c em = (em', r)"
  shows "em_spec em c (em_abs api em) (em_abs api em') r \<and> em_same_config em em'"
  using em_step_post [OF assms] by blast

text \<open>
  C23. A module that was initialised with at least one field stays well formed under every sequence
  of commands: the fields are laid out in the key one after the other, every stored key has the
  size of the table's keys, and every stored result has a valid gate and 64 bytes of values.
\<close>

theorem ExactMatch_well_typed:
  assumes "hash_laws api" "ExactMatch_Init api fds ms vds msv entries st = Some (Inr (em, st'))" "fds \<noteq> []"
  shows "em_typed api (fold (\<lambda>c em. fst (em_step api c em)) cs em)"
proof -
  have "em_typed api em \<Longrightarrow> em_typed api (fold (\<lambda>c em. fst (em_step api c em)) cs em)" for em
  proof (induction cs arbitrary: em)
    case (Cons c cs)
    have "em_typed api (fst (em_step api c em))" using em_step_post [OF assms(1) Cons.prems, of c] by (metis prod.collapse)
    then show ?case using Cons.IH by simp
  qed simp
  then show ?thesis using ExactMatch_Init_typed [OF assms] by blast
qed

section \<open>The module of the pipeline\<close>

text \<open>The fields and values of \<^verbatim>\<open>farLookup\<close> in \<^verbatim>\<open>conf/up4.bess\<close>.\<close>

definition attr_field :: "nat \<Rightarrow> nat \<Rightarrow> nat \<Rightarrow> em_field" where
  "attr_field i pos sz = \<lparr>em_mask = replicate sz 255 @ replicate (8 - sz) 0,
     em_at = \<lparr>wf_attr = Some i, wf_offset = 0, wf_pos = pos, wf_size = sz\<rparr>\<rparr>"

lemma attr_field_simps [simp]:
  "em_mask (attr_field i pos sz) = replicate sz 255 @ replicate (8 - sz) 0"
  "wf_attr (em_at (attr_field i pos sz)) = Some i" "wf_offset (em_at (attr_field i pos sz)) = 0"
  "wf_pos (em_at (attr_field i pos sz)) = pos" "wf_size (em_at (attr_field i pos sz)) = sz"
  by (simp_all add: attr_field_def)

definition up4_far_fields :: "em_field list" where
  "up4_far_fields = [attr_field 0 0 4, attr_field 1 4 8]"

definition up4_far_values :: "em_field list" where
  "up4_far_values = [attr_field 2 0 1, attr_field 3 1 1, attr_field 4 2 4, attr_field 5 6 4, attr_field 6 10 4, attr_field 7 14 2]"

definition up4_far_lookup :: "(hkey \<times> em_value) list exact_match" where
  "up4_far_lookup = \<lparr>em_fields = up4_far_fields, em_values = up4_far_values, em_key_size = 16,
     em_default_gate = DROP_GATE, em_empty_masks = True, em_table = []\<rparr>"

abbreviation up4_far_args :: "field_arg list" where
  "up4_far_args \<equiv> [(AtAttr ''far_id'', 4), (AtAttr ''fseid'', 8)]"

abbreviation up4_far_vals :: "field_arg list" where
  "up4_far_vals \<equiv> [(AtAttr ''action'', 1), (AtAttr ''tunnel_out_type'', 1), (AtAttr ''tunnel_out_src_ip4addr'', 4),
     (AtAttr ''tunnel_out_dst_ip4addr'', 4), (AtAttr ''tunnel_out_teid'', 4), (AtAttr ''tunnel_out_udp_port'', 2)]"

lemma up4_far_init:
  "\<exists>st. ExactMatch_Init (list_hash 8) up4_far_args [] up4_far_vals [] 0 (Map.empty, []) = Some (Inr (up4_far_lookup, st))"
proof -
  have "case ExactMatch_Init (list_hash 8) up4_far_args [] up4_far_vals [] 0 (Map.empty, []) of
      Some (Inr (em, _)) \<Rightarrow> em = up4_far_lookup | _ \<Rightarrow> False" by code_simp
  then show ?thesis by (auto split: option.splits sum.splits)
qed

lemma up4_far_lookup_typed: "em_typed (list_hash 8) up4_far_lookup"
  using up4_far_init ExactMatch_Init_typed [OF list_hash_laws] by blast

theorem ExactMatch_well_typed_witness:
  "em_typed (list_hash 8) (fold (\<lambda>c em. fst (em_step (list_hash 8) c em)) [EmClear, EmSetDefaultGate 3] up4_far_lookup)"
  using up4_far_init ExactMatch_well_typed [OF list_hash_laws] by blast

theorem ExactMatch_refines_witness:
  "em_spec up4_far_lookup (EmDelete [ValueInt 1, ValueInt 2]) (em_abs (list_hash 8) up4_far_lookup)
    (em_abs (list_hash 8) up4_far_lookup) (Inl ENOENT)"
proof -
  have "em_step (list_hash 8) (EmDelete [ValueInt 1, ValueInt 2]) up4_far_lookup = (up4_far_lookup, Inl ENOENT)" by code_simp
  from ExactMatch_refines [OF list_hash_laws up4_far_lookup_typed this] show ?thesis by blast
qed

theorem ExactMatch_classifies_witness:
  "\<exists>out. ExactMatch_ProcessBatch (list_hash 8) (\<lambda>i. 8 * int i) up4_far_lookup (\<lambda>_. replicate 64 0) [sample_buffer] = Some [out] \<and>
    out = (sample_buffer, DROP_GATE)"
proof -
  have ok: "attrs_ok (\<lambda>i. 8 * int i) (map em_at (em_fields up4_far_lookup))" "attrs_ok (\<lambda>i. 8 * int i) (map em_at (em_values up4_far_lookup))"
    by (auto simp: attrs_ok_def up4_far_lookup_def up4_far_fields_def up4_far_values_def)
  have none: "em_rules (list_hash 8) up4_far_lookup bss = None" for bss by (simp add: em_rules_def up4_far_lookup_def list_hash_def)
  obtain outs where "ExactMatch_ProcessBatch (list_hash 8) (\<lambda>i. 8 * int i) up4_far_lookup (\<lambda>_. replicate 64 0) [sample_buffer] = Some outs"
    "length outs = 1" "em_leaves_as (\<lambda>i. 8 * int i) up4_far_lookup None sample_buffer (outs ! 0)"
    using ExactMatch_classifies [OF up4_far_lookup_typed ok, of "[sample_buffer]" "\<lambda>_. replicate 64 0"] sample_buffer_ok none
    by (auto simp: HASH_KEY_SIZE_def)
  then show ?thesis by (cases outs) (auto simp: em_leaves_as_def up4_far_lookup_def)
qed

section \<open>What the dumps lose\<close>

text \<open>No rule is in a saved configuration, and restoring it clears the module.\<close>

lemma GetRuntimeConfig_no_rules: "snd (ExactMatch_GetRuntimeConfig em) = []"
  by (simp add: ExactMatch_GetRuntimeConfig_def native_entries_def)

lemma restore_clears:
  assumes "hash_laws api" "em_typed api em" "ExactMatch_GetRuntimeConfig em = (g, rs)"
  shows "em_abs api (fst (ExactMatch_SetRuntimeConfig api em g rs)) = (Map.empty, em_default_gate em)"
  using assms(3) em_reset(3) [OF assms(1,2)]
  by (auto simp: ExactMatch_GetRuntimeConfig_def native_entries_def ExactMatch_SetRuntimeConfig_def unsigned_ucast_eq take_bit_word_eq_self)

text \<open>The masks of the fields are dropped when the values had none.\<close>

lemma GetInitialArg_drops_masks:
  assumes "ExactMatch_Init api fds ms vds [] entries st = Some (Inr (em, st'))" "ExactMatch_GetInitialArg attrs em = Some (a, b)"
  shows "b = []"
proof -
  have "em_empty_masks em"
    using assms(1) unfolding ExactMatch_Init_def Let_def
    by (auto split: if_splits option.splits elim!: bind_InrE)
  then show ?thesis using assms(2) by (auto simp: ExactMatch_GetInitialArg_def Option.bind_eq_Some_conv)
qed

text \<open>A mask of a field at an offset comes back with its bytes reversed.\<close>

lemma GetInitialArg_reverses_mask:
  assumes "field_mask m sz True = Inr m8" "m \<noteq> 0" "sz \<le> 8"
  shows "mask64 (ValueBin (take sz m8)) = Inr (of_nat (bytes_value (rev (fst (bin_loop sz m)))))"
  using assms by (auto simp: field_mask_def mask64_def uint64_to_bin_def bind_response_Inr case_prod_unfold Let_def
    split: if_splits option.splits)

end
