(* ===== verification/Far_Lookup.thy ===== *)
theory Far_Lookup
  imports Rule_Module Exact_Properties Driver_Properties
begin

text \<open>
  The driver and the module \<^verbatim>\<open>farLookup\<close> together, an \<^verbatim>\<open>ExactMatch\<close>: the table the model of the
  driver keeps for the forwarding action rules is what the model of the module implements, and a
  packet of a session leaves with the tunnel of the rule the driver installed.
\<close>

section \<open>Commands of the driver as commands of the module\<close>

definition em_arg :: "u64 list \<Rightarrow> entry \<Rightarrow> em_rule" where
  "em_arg vs e = \<lparr>er_gate = gate e, er_fields = map ValueInt vs, er_values = map ValueInt (valuesv e)\<rparr>"

fun far_command :: "command \<Rightarrow> em_command option" where
  "far_command (Add (FarLookup, vs, []) (ExactEntry g vv)) = Some (EmAdd (em_arg vs (ExactEntry g vv)))"
| "far_command (Del (FarLookup, vs, [])) = Some (EmDelete (map ValueInt vs))"
| "far_command (Clear FarLookup) = Some EmClear"
| "far_command _ = None"

text \<open>The integers that fit the fields; the module cuts others.\<close>

definition fits :: "em_field list \<Rightarrow> u64 list \<Rightarrow> bool" where
  "fits fs vs \<longleftrightarrow> list_all2 (\<lambda>f v. drop_bit (8 * wf_size (em_at f)) v = 0) fs vs"

definition far_key :: "'h exact_match \<Rightarrow> u64 list \<Rightarrow> u8 list list option" where
  "far_key em vs = (if fits (em_fields em) vs then em_rule_key em (map ValueInt vs) else None)"

definition far_represents :: "('h, em_value) hash_api \<Rightarrow> 'h exact_match \<Rightarrow> tables \<Rightarrow> bool" where
  "far_represents api em tb \<longleftrightarrow>
     (\<forall>vs k. far_key em vs = Some k \<longrightarrow>
        em_rules api em k = Option.bind (tb (FarLookup, vs, [])) (\<lambda>e. em_rule_data em (em_arg vs e)))"

section \<open>Different locations are different rules\<close>

text \<open>The bytes of an integer that fits its field, in the order of the field.\<close>

definition int_bytes :: "em_field \<Rightarrow> u64 \<Rightarrow> u8 list" where
  "int_bytes f v =
     (if wf_attr (em_at f) = None then rev (fst (bin_loop (wf_size (em_at f)) v)) else fst (bin_loop (wf_size (em_at f)) v))"

lemma int_bytes_inject:
  assumes "drop_bit (8 * wf_size (em_at f)) v = 0" "drop_bit (8 * wf_size (em_at f)) w = 0" "int_bytes f v = int_bytes f w"
  shows "v = w"
proof -
  have "fst (bin_loop (wf_size (em_at f)) v) = fst (bin_loop (wf_size (em_at f)) w)"
    using assms(3) by (simp add: int_bytes_def split: if_splits)
  then show ?thesis
    using bin_loop_value [of "wf_size (em_at f)" v] bin_loop_value [of "wf_size (em_at f)" w] assms(1,2)
    by (simp add: bin_loop_left word_unat_eq_iff)
qed

lemma RuleFields_fits:
  assumes "fits fs vs"
  shows "RuleFieldsFromPb fs (map ValueInt vs) = map2 int_bytes fs vs"
  using assms unfolding fits_def
proof (induction fs vs rule: list_all2_induct)
  case (Cons f fs v vs)
  then show ?case
    by (auto simp: int_bytes_def uint64_to_bin_def bin_loop_left case_prod_unfold Let_def)
qed simp

lemma fits_shape: "fits fs vs \<Longrightarrow> em_shape fs (map2 int_bytes fs vs)"
  unfolding fits_def em_shape_def by (induction fs vs rule: list_all2_induct) (auto simp: int_bytes_def)

lemma far_key_fits:
  "far_key em vs = (if fits (em_fields em) vs then Some (map2 int_bytes (em_fields em) vs) else None)"
  using RuleFields_fits [of "em_fields em" vs] fits_shape [of "em_fields em" vs]
  by (auto simp: far_key_def em_rule_key_def fits_def dest: list_all2_lengthD)

lemma far_key_inject:
  assumes "far_key em vs = Some k" "far_key em ws = Some k"
  shows "vs = ws"
proof -
  have fit: "fits (em_fields em) vs" "fits (em_fields em) ws" "map2 int_bytes (em_fields em) vs = map2 int_bytes (em_fields em) ws"
    using assms by (auto simp: far_key_fits split: if_splits)
  have "length vs = length ws" using fit(1,2) by (auto simp: fits_def dest!: list_all2_lengthD)
  moreover have "vs ! i = ws ! i" if "i < length vs" for i
  proof -
    have i: "i < length (em_fields em)" "i < length ws" using that fit(1,2) by (auto simp: fits_def dest!: list_all2_lengthD)
    then have "int_bytes (em_fields em ! i) (vs ! i) = int_bytes (em_fields em ! i) (ws ! i)"
      using arg_cong [OF fit(3), of "\<lambda>xs. xs ! i"] that by simp
    moreover have "drop_bit (8 * wf_size (em_at (em_fields em ! i))) (vs ! i) = 0"
      "drop_bit (8 * wf_size (em_at (em_fields em ! i))) (ws ! i) = 0"
      using fit(1,2) i that by (simp_all add: fits_def list_all2_conv_all_nth)
    ultimately show ?thesis using int_bytes_inject by blast
  qed
  ultimately show ?thesis by (simp add: nth_equalityI)
qed

section \<open>The module implements the driver's table\<close>

definition far_inv :: "('h, em_value) hash_api \<Rightarrow> 'h exact_match \<Rightarrow> bool" where
  "far_inv api em \<longleftrightarrow> hash_laws api \<and> em_typed api em"

definition far_step :: "('h, em_value) hash_api \<Rightarrow> em_command \<Rightarrow> 'h exact_match \<Rightarrow> 'h exact_match option" where
  "far_step api c em = (case em_step api c em of (em', Inr _) \<Rightarrow> Some em' | _ \<Rightarrow> None)"

lemma far_step_Some: "far_step api c em = Some em' \<longleftrightarrow> em_step api c em = (em', Inr ())"
  by (auto simp: far_step_def split: prod.splits sum.splits)

lemma far_step_post:
  assumes "far_inv api em" "far_step api c em = Some em'"
  shows "far_inv api em'" "far_key em' = far_key em" "em_rule_data em' = em_rule_data em"
    "em_spec em c (em_abs api em) (em_abs api em') (Inr ())"
proof -
  note post = em_step_post [OF _ _ assms(2) [unfolded far_step_Some]]
  have "em_same_config em em'" "em_typed api em'" "em_spec em c (em_abs api em) (em_abs api em') (Inr ())"
    using post assms(1) by (auto simp: far_inv_def)
  then show "far_inv api em'" "far_key em' = far_key em" "em_rule_data em' = em_rule_data em"
    "em_spec em c (em_abs api em) (em_abs api em') (Inr ())"
    using assms(1) em_same_config_cong [of em em'] by (auto simp: far_inv_def far_key_def fun_eq_iff em_same_config_def)
qed

interpretation far: rule_module "far_inv api" "em_rules api" far_key "\<lambda>em vs e. em_rule_data em (em_arg vs e)"
  "\<lambda>em vs e. if far_key em vs = None then None else far_step api (EmAdd (em_arg vs e)) em"
  "\<lambda>em vs. if far_key em vs = None then None else far_step api (EmDelete (map ValueInt vs)) em"
  "far_step api EmClear" for api
proof
  fix em vs k ws assume "far_key em vs = Some k" "far_key em ws = Some k"
  then show "ws = vs" using far_key_inject by blast
next
  fix em em' vs e assume inv: "far_inv api em"
    and run: "(if far_key em vs = None then None else far_step api (EmAdd (em_arg vs e)) em) = Some em'"
  then obtain k where k: "far_key em vs = Some k" "far_step api (EmAdd (em_arg vs e)) em = Some em'" by (auto split: if_splits)
  note post = far_step_post [OF inv k(2)]
  have key: "em_rule_key em (er_fields (em_arg vs e)) = Some k" using k(1) by (auto simp: far_key_def em_arg_def split: if_splits)
  then have "\<exists>d. em_rule_data em (em_arg vs e) = Some d \<and> em_rules api em' = (em_rules api em)(k \<mapsto> d)"
    using post(4) by (auto simp: em_spec_add_def em_abs_def split: option.splits)
  then show "far_inv api em' \<and> far_key em' = far_key em \<and>
      (\<lambda>vs e. em_rule_data em' (em_arg vs e)) = (\<lambda>vs e. em_rule_data em (em_arg vs e)) \<and>
      (\<exists>k d. far_key em vs = Some k \<and> em_rule_data em (em_arg vs e) = Some d \<and> em_rules api em' = (em_rules api em)(k \<mapsto> d))"
    using post(1-3) k(1) by auto
next
  fix em em' vs assume inv: "far_inv api em"
    and run: "(if far_key em vs = None then None else far_step api (EmDelete (map ValueInt vs)) em) = Some em'"
  then obtain k where k: "far_key em vs = Some k" "far_step api (EmDelete (map ValueInt vs)) em = Some em'" by (auto split: if_splits)
  note post = far_step_post [OF inv k(2)]
  have key: "em_rule_key em (map ValueInt vs) = Some k" using k(1) by (auto simp: far_key_def split: if_splits)
  then have "em_rules api em' = (em_rules api em)(k := None)"
    using post(4) by (auto simp: em_abs_def split: if_splits)
  then show "far_inv api em' \<and> far_key em' = far_key em \<and>
      (\<lambda>vs e. em_rule_data em' (em_arg vs e)) = (\<lambda>vs e. em_rule_data em (em_arg vs e)) \<and>
      (\<exists>k. far_key em vs = Some k \<and> em_rules api em' = (em_rules api em)(k := None))"
    using post(1-3) k(1) by auto
next
  fix em em' assume "far_inv api em" "far_step api EmClear em = Some em'"
  from far_step_post [OF this] show "far_inv api em' \<and> far_key em' = far_key em \<and>
      (\<lambda>vs e. em_rule_data em' (em_arg vs e)) = (\<lambda>vs e. em_rule_data em (em_arg vs e)) \<and> em_rules api em' = Map.empty"
    by (simp add: em_abs_def)
qed

lemma far_represents_holds: "far_represents api em tb \<longleftrightarrow> far.holds api em (\<lambda>vs. tb (FarLookup, vs, []))"
  by (simp add: far_represents_def far.holds_def)

lemma far_performs:
  assumes "hash_laws api" "em_typed api em" "far_represents api em tb" "far_command c = Some w"
    "case c of Add (_, vs, _) _ \<Rightarrow> fits (em_fields em) vs | Del (_, vs, _) \<Rightarrow> fits (em_fields em) vs | _ \<Rightarrow> True"
    "em_step api w em = (em', Inr ())"
  shows "em_typed api em' \<and> far_represents api em' (perform c tb)"
proof -
  have inv: "far_inv api em" using assms(1,2) by (simp add: far_inv_def)
  note h = assms(3) [unfolded far_represents_holds]
  note run = assms(6) [folded far_step_Some]
  consider (add) vs e where "c = Add (FarLookup, vs, []) e" "w = EmAdd (em_arg vs e)"
    | (del) vs where "c = Del (FarLookup, vs, [])" "w = EmDelete (map ValueInt vs)"
    | (clear) "c = Clear FarLookup" "w = EmClear"
    using assms(4) by (cases c rule: far_command.cases) auto
  then have "far_inv api em' \<and> far.holds api em' (\<lambda>vs. perform c tb (FarLookup, vs, []))"
  proof cases
    case add
    have "(\<lambda>vs. perform c tb (FarLookup, vs, [])) = (\<lambda>vs. tb (FarLookup, vs, []))(vs \<mapsto> e)"
      using add by (auto simp: fun_eq_iff)
    then show ?thesis using far.add_holds [OF inv h, of vs e em'] assms(5) run add by (simp add: far_key_fits)
  next
    case del
    have "(\<lambda>vs. perform c tb (FarLookup, vs, [])) = (\<lambda>vs. tb (FarLookup, vs, []))(vs := None)"
      using del by (auto simp: fun_eq_iff)
    then show ?thesis using far.del_holds [OF inv h, of vs em'] assms(5) run del by (simp add: far_key_fits)
  next
    case clear
    then show ?thesis using far.clear_holds [OF inv, of em'] run by simp
  qed
  then show ?thesis by (simp add: far_inv_def far_represents_holds)
qed

text \<open>
  C8. A command of the driver for \<^verbatim>\<open>farLookup\<close> whose key fits the fields and that the module answers
  with success changes the rules of the module the way the driver's model changes its table.
\<close>

theorem farLookup_performs:
  assumes "hash_laws api" "em_typed api em" "far_represents api em tb" "far_command c = Some w"
    "case c of Add (_, vs, _) _ \<Rightarrow> fits (em_fields em) vs | Del (_, vs, _) \<Rightarrow> fits (em_fields em) vs | _ \<Rightarrow> True"
    "em_step api w em = (em', Inr ())"
  shows "em_typed api em' \<and> far_represents api em' (perform c tb)"
  by (rule far_performs [OF assms])

text \<open>A rule added to the module of the pipeline.\<close>

lemma up4_far_lookup_empty: "far_represents (list_hash 8) up4_far_lookup Map.empty"
  by (simp add: far_represents_def em_rules_def up4_far_lookup_def list_hash_def)

lemma zero_far_added:
  "\<exists>em. em_step (list_hash 8) (EmAdd (em_arg [ucast (farID zero_far), far_fseID zero_far] (far_entry zero_far))) up4_far_lookup =
    (em, Inr ())"
proof -
  have "case em_step (list_hash 8) (EmAdd (em_arg [ucast (farID zero_far), far_fseID zero_far] (far_entry zero_far)))
      up4_far_lookup of (_, Inr _) \<Rightarrow> True | _ \<Rightarrow> False" by code_simp
  then show ?thesis by (auto split: prod.splits sum.splits)
qed

theorem farLookup_performs_witness:
  "\<exists>em. em_typed (list_hash 8) em \<and> far_represents (list_hash 8) em [far_location zero_far \<mapsto> far_entry zero_far]"
proof -
  obtain em where run: "em_step (list_hash 8) (EmAdd (em_arg [ucast (farID zero_far), far_fseID zero_far] (far_entry zero_far)))
      up4_far_lookup = (em, Inr ())"
    using zero_far_added by blast
  have "em_typed (list_hash 8) em \<and> far_represents (list_hash 8) em
      (perform (Add (far_location zero_far) (far_entry zero_far)) Map.empty)"
    by (rule farLookup_performs [OF list_hash_laws up4_far_lookup_typed up4_far_lookup_empty _ _ run])
      (simp_all add: far_location_def far_entry_def fits_def up4_far_lookup_def up4_far_fields_def zero_far_def)
  then show ?thesis by auto
qed

end
