(* ===== verification/Header_Modules.thy ===== *)
theory Header_Modules
  imports Module_Attrs Checksum
begin

text \<open>
  Models of the modules that add, remove and rewrite packet headers: \<^verbatim>\<open>vlan_push.cc\<close>,
  \<^verbatim>\<open>vlan_pop.cc\<close>, \<^verbatim>\<open>vlan_split.cc\<close>, \<^verbatim>\<open>mpls_pop.cc\<close>, \<^verbatim>\<open>macswap.cc\<close>, \<^verbatim>\<open>ipswap.cc\<close>,
  \<^verbatim>\<open>update_ttl.cc\<close>, \<^verbatim>\<open>generic_encap.cc\<close>, \<^verbatim>\<open>generic_decap.cc\<close>, \<^verbatim>\<open>ether_encap.cc\<close>,
  \<^verbatim>\<open>ip_encap.cc\<close>, \<^verbatim>\<open>ip_checksum.cc\<close> and \<^verbatim>\<open>l4_checksum.cc\<close>. Each \<^verbatim>\<open>ProcessBatch\<close> handles
  its packets one after the other, so a module is the function of one packet, lifted to a batch by
  \<open>process_batch\<close>. The offsets of a module's attributes are computed by the pipeline and are
  the argument \<open>attr_offset\<close>. The hardware checksum flags of the mbuf are an argument.
\<close>

section \<open>Header fields\<close>

definition kIpv4 :: u16 where "kIpv4 = 0x0800"
definition kArp :: u16 where "kArp = 0x0806"
definition kVlan :: u16 where "kVlan = 0x8100"
definition kQinQ :: u16 where "kQinQ = 0x88a8"
definition kMpls :: u16 where "kMpls = 0x8847"

definition kIcmp :: u8 where "kIcmp = 1"
definition kTcp :: u8 where "kTcp = 6"
definition kUdp :: u8 where "kUdp = 17"
definition kEsp :: u8 where "kEsp = 50"

abbreviation hload :: "nat \<Rightarrow> nat \<Rightarrow> packet \<Rightarrow> u8 list option" where
  "hload n i p \<equiv> load_bytes n (head_data p i) p"

abbreviation hstore :: "nat \<Rightarrow> u8 list \<Rightarrow> packet \<Rightarrow> packet option" where
  "hstore i bs p \<equiv> store_bytes (head_data p i) bs p"

definition to_le16 :: "u16 \<Rightarrow> u8 list" where
  "to_le16 w = rev (to_be16 w)"

text \<open>The bytes of an IPv4 header: its length is in the low half of the first byte, in words.\<close>

definition header_bytes :: "u8 \<Rightarrow> nat" where
  "header_bytes b = 4 * unat (b AND 0xf)"

section \<open>VLAN tags\<close>

record vlan_push =
  vlan_tag :: u32
  qinq_tag :: u32

definition CommandSetTci :: "u64 \<Rightarrow> vlan_push" where
  "CommandSetTci arg =
     (let tci = ucast arg :: u16
      in \<lparr>vlan_tag = push_bit 16 (ucast kVlan) OR ucast tci, qinq_tag = push_bit 16 (ucast kQinQ) OR ucast tci\<rparr>)"

definition VLANPush :: "vlan_push \<Rightarrow> packet \<Rightarrow> packet option" where
  "VLANPush st p =
     (case prepend 4 p of
        None \<Rightarrow> Some p
      | Some p \<Rightarrow> do {
          ethh \<leftarrow> hload 16 4 p;
          let tpid = be16 (drop 12 ethh);
          hstore 0 (take 12 ethh @ to_be32 (if tpid = kVlan then qinq_tag st else vlan_tag st)) p
        })"

definition VLANPop :: "packet \<Rightarrow> packet option" where
  "VLANPop p =
     (let old_head = head_data p 0
      in do {
        eth \<leftarrow> load_bytes 16 old_head p;
        let tpid = be16 (drop 12 eth);
        let tagged = (tpid = kVlan \<or> tpid = kQinQ);
        (case (if tagged then adj 4 p else None) of
           None \<Rightarrow> Some p
         | Some p \<Rightarrow> store_bytes old_head (replicate 4 0 @ take 12 eth) p)
      })"

definition VLANSplit :: "packet \<Rightarrow> emitted option" where
  "VLANSplit p =
     (let old_head = head_data p 0
      in do {
        eth \<leftarrow> load_bytes 16 old_head p;
        let tpid = be16 (drop 12 eth);
        let tagged = (tpid = kVlan \<or> tpid = kQinQ);
        (case (if tagged then adj 4 p else None) of
           None \<Rightarrow> Some (Emit p 0)
         | Some p \<Rightarrow> do {
             let tci = be16 (drop 14 eth);
             p \<leftarrow> store_bytes old_head (replicate 4 0 @ take 12 eth) p;
             Some (Emit p (unat (tci AND 0x0fff)))
           })
      })"

section \<open>MPLS\<close>

record mpls_pop =
  next_ether_type :: u16
  remove_eth_header :: bool

definition new_MPLSPop :: mpls_pop where
  "new_MPLSPop = \<lparr>next_ether_type = kIpv4, remove_eth_header = False\<rparr>"

definition MPLSPop_CommandSet :: "bool \<Rightarrow> u64 \<Rightarrow> mpls_pop" where
  "MPLSPop_CommandSet rm next_eth = \<lparr>next_ether_type = ucast next_eth, remove_eth_header = rm\<rparr>"

definition MPLSPop :: "mpls_pop \<Rightarrow> packet \<Rightarrow> emitted option" where
  "MPLSPop st p = do {
     ether_type \<leftarrow> hload 2 12 p;
     if be16 ether_type \<noteq> kMpls then Some (Emit p 1)
     else if remove_eth_header st
     then Some (Emit (case adj 18 p of Some p' \<Rightarrow> p' | None \<Rightarrow> p) 0)
     else do {
       src_addr \<leftarrow> hload 6 6 p;
       dst_addr \<leftarrow> hload 6 0 p;
       let p = (case adj 4 p of Some p' \<Rightarrow> p' | None \<Rightarrow> p);
       p \<leftarrow> hstore 6 src_addr p;
       p \<leftarrow> hstore 0 dst_addr p;
       p \<leftarrow> hstore 12 (to_be16 (next_ether_type st)) p;
       Some (Emit p 0)
     }
   }"

section \<open>Swapping addresses\<close>

definition MACSwap :: "packet \<Rightarrow> packet option" where
  "MACSwap p = do {
     tmp \<leftarrow> hload 6 0 p;
     src_addr \<leftarrow> hload 6 6 p;
     p \<leftarrow> hstore 0 src_addr p;
     hstore 6 tmp p
   }"

definition IPSwap :: "packet \<Rightarrow> packet option" where
  "IPSwap p = do {
     b \<leftarrow> hload 1 14 p;
     let udp = 14 + header_bytes (b ! 0);
     tmp_ip \<leftarrow> hload 4 26 p;
     dst \<leftarrow> hload 4 30 p;
     p \<leftarrow> hstore 26 dst p;
     p \<leftarrow> hstore 30 tmp_ip p;
     protocol \<leftarrow> hload 1 23 p;
     if protocol ! 0 = kTcp \<or> protocol ! 0 = kUdp
     then do {
       tmp_port \<leftarrow> hload 2 udp p;
       dst_port \<leftarrow> hload 2 (udp + 2) p;
       p \<leftarrow> hstore udp dst_port p;
       hstore (udp + 2) tmp_port p
     }
     else Some p
   }"

section \<open>Time to live\<close>

definition UpdateTTL :: "packet \<Rightarrow> emitted option" where
  "UpdateTTL p = do {
     ttl \<leftarrow> hload 1 22 p;
     if ttl ! 0 > 1
     then do {
       checksum \<leftarrow> hload 2 24 p;
       p \<leftarrow> hstore 24 (to_le16 (UpdateChecksum16 (le16 checksum) 2 1)) p;
       p \<leftarrow> hstore 22 [ttl ! 0 - 1] p;
       Some (Emit p 0)
     }
     else Some (Drop p)
   }"

section \<open>Generic encapsulation\<close>

text \<open>A field of the new header: the eight bytes of a constant, or an attribute.\<close>

record encap_field =
  ef_value :: "u8 list"
  ef_attr_id :: "nat option"
  ef_pos :: nat
  ef_size :: nat

datatype insertion = InsertAttribute string | InsertValue field_data | NoInsertion

definition GenericEncap_AddFieldOne ::
    "int \<times> insertion \<Rightarrow> nat \<Rightarrow> registry \<times> attribute list \<Rightarrow>
     (encap_field \<times> registry \<times> attribute list) response" where
  "GenericEncap_AddFieldOne field pos st =
     (let (sz, ins) = field
      in if sz < 1 \<or> sz > 8 then Inl EINVAL
         else case ins of
           InsertAttribute attr \<Rightarrow>
             bind_response (AddMetadataAttr attr (nat sz) kRead st) (\<lambda>(i, st).
               Inr (\<lparr>ef_value = replicate 8 0, ef_attr_id = Some i, ef_pos = pos, ef_size = nat sz\<rparr>, st))
         | InsertValue (ValueInt v) \<Rightarrow>
             (case uint64_to_bin v (nat sz) True of
                None \<Rightarrow> Inl EINVAL
              | Some bs \<Rightarrow>
                  Inr (\<lparr>ef_value = bs @ replicate (8 - nat sz) 0, ef_attr_id = None, ef_pos = pos, ef_size = nat sz\<rparr>, st))
         | InsertValue (ValueBin bs) \<Rightarrow>
             if length bs \<noteq> nat sz then Inl EINVAL
             else Inr (\<lparr>ef_value = bs @ replicate (8 - nat sz) 0, ef_attr_id = None, ef_pos = pos, ef_size = nat sz\<rparr>, st)
         | InsertValue NoValue \<Rightarrow>
             Inr (\<lparr>ef_value = replicate 8 0, ef_attr_id = None, ef_pos = pos, ef_size = nat sz\<rparr>, st)
         | NoInsertion \<Rightarrow> Inl EINVAL)"

fun GenericEncap_Init ::
    "(int \<times> insertion) list \<Rightarrow> nat \<Rightarrow> registry \<times> attribute list \<Rightarrow>
     (encap_field list \<times> nat \<times> registry \<times> attribute list) response" where
  "GenericEncap_Init [] size_acc st = Inr ([], size_acc, st)"
| "GenericEncap_Init (field # fs) size_acc st =
     bind_response (GenericEncap_AddFieldOne field size_acc st) (\<lambda>(f, st).
       bind_response (GenericEncap_Init fs (size_acc + ef_size f) st) (\<lambda>(r, n, st). Inr (f # r, n, st)))"

text \<open>
  The header of a packet: every field writes eight bytes at its position, and the next field
  overwrites what is beyond its size.
\<close>

fun encap_header :: "(nat \<Rightarrow> int) \<Rightarrow> encap_field list \<Rightarrow> packet \<Rightarrow> u8 list \<Rightarrow> u8 list option" where
  "encap_header attr_offset [] p hdr = Some hdr"
| "encap_header attr_offset (f # fs) p hdr = do {
     v \<leftarrow> (case ef_attr_id f of
             None \<Rightarrow> Some (ef_value f)
           | Some i \<Rightarrow> get_attr_with_offset 8 (attr_offset i) p);
     encap_header attr_offset fs p (put_field (ef_pos f) v hdr)
   }"

definition GenericEncap :: "(nat \<Rightarrow> int) \<Rightarrow> encap_field list \<Rightarrow> nat \<Rightarrow> packet \<Rightarrow> packet option" where
  "GenericEncap attr_offset fs encap_size p = do {
     hdr \<leftarrow> encap_header attr_offset fs p (replicate 64 0);
     (case prepend (of_nat encap_size) p of
        None \<Rightarrow> Some p
      | Some p \<Rightarrow> hstore 0 (take encap_size hdr) p)
   }"

definition GenericDecap_Init :: "int \<Rightarrow> int \<Rightarrow> int response" where
  "GenericDecap_Init decap_size bytes =
     (if bytes = 0 then Inr decap_size
      else if bytes \<le> 0 \<or> bytes > 1024 then Inl EINVAL else Inr bytes)"

definition GenericDecap :: "int \<Rightarrow> packet \<Rightarrow> packet" where
  "GenericDecap decap_size p = (case adj (of_int decap_size) p of Some p' \<Rightarrow> p' | None \<Rightarrow> p)"

section \<open>Ethernet and IPv4 encapsulation\<close>

definition EtherEncap :: "(nat \<Rightarrow> int) \<Rightarrow> packet \<Rightarrow> packet option" where
  "EtherEncap attr_offset p = do {
     ether_src \<leftarrow> get_attr_with_offset 6 (attr_offset 0) p;
     ether_dst \<leftarrow> get_attr_with_offset 6 (attr_offset 1) p;
     ether_type \<leftarrow> get_attr_with_offset 2 (attr_offset 2) p;
     (case prepend 14 p of
        None \<Rightarrow> Some p
      | Some p \<Rightarrow> do {
          p \<leftarrow> hstore 0 ether_dst p;
          p \<leftarrow> hstore 6 ether_src p;
          hstore 12 ether_type p
        })
   }"

definition IPEncap :: "(nat \<Rightarrow> int) \<Rightarrow> packet \<Rightarrow> packet option" where
  "IPEncap attr_offset p = do {
     ip_src \<leftarrow> get_attr_with_offset 4 (attr_offset 0) p;
     ip_dst \<leftarrow> get_attr_with_offset 4 (attr_offset 1) p;
     ip_proto \<leftarrow> get_attr_with_offset 1 (attr_offset 2) p;
     let total_len = (ucast (pkt_len p + 20) :: u16);
     (case prepend 20 p of
        None \<Rightarrow> Some p
      | Some p \<Rightarrow> do {
          p \<leftarrow> hstore 0 [0x45] p;
          p \<leftarrow> hstore 1 [0] p;
          p \<leftarrow> hstore 2 (to_be16 total_len) p;
          p \<leftarrow> hstore 6 (to_be16 0x4000) p;
          p \<leftarrow> hstore 8 [64] p;
          p \<leftarrow> hstore 9 ip_proto p;
          p \<leftarrow> hstore 12 ip_src p;
          p \<leftarrow> hstore 16 ip_dst p;
          iph \<leftarrow> hload 20 0 p;
          p \<leftarrow> hstore 10 (to_le16 (CalculateIpv4NoOptChecksum iph)) p;
          p \<leftarrow> set_attr_with_offset (attr_offset 3) ip_dst p;
          set_attr_with_offset (attr_offset 4) (to_be16 kIpv4) p
        })
   }"

section \<open>Checksums\<close>

text \<open>
  A reference to a header is the memory from its position on. \<open>rx_bad\<close> says that the network
  card has marked the checksum of the packet as wrong.
\<close>

abbreviation from_head :: "packet \<Rightarrow> nat \<Rightarrow> u8 list" where
  "from_head p i \<equiv> drop (head_data p i) (mem p)"

record checksum_module =
  verify :: bool
  hw :: bool

definition IPChecksum :: "bool \<Rightarrow> checksum_module \<Rightarrow> bool \<Rightarrow> packet \<Rightarrow> emitted option" where
  "IPChecksum avx2 st rx_bad p = do {
     t0 \<leftarrow> hload 2 12 p;
     (qinq, data, t1) \<leftarrow>
       (if be16 t0 = kQinQ
        then do { t \<leftarrow> hload 2 16 p; Some (True, 18, be16 t) }
        else Some (False, 14, be16 t0));
     if qinq \<and> t1 \<noteq> kVlan then Some (Emit p 0)
     else do {
       (data, t2) \<leftarrow>
         (if t1 = kVlan
          then do { t \<leftarrow> hload 2 (data + 2) p; Some (data + 4, be16 t) }
          else Some (data, t1));
       if t2 \<noteq> kIpv4 then Some (Emit p 0)
       else if verify st
       then Some (Emit p (if hw st then (if rx_bad then 1 else 0)
                          else if VerifyIpv4Checksum avx2 (from_head p data) then 0 else 1))
       else do {
         p \<leftarrow> hstore (data + 10) (to_le16 (CalculateIpv4Checksum avx2 (from_head p data))) p;
         Some (Emit p 0)
       }
     }
   }"

definition L4Checksum :: "bool \<Rightarrow> checksum_module \<Rightarrow> bool \<Rightarrow> packet \<Rightarrow> emitted option" where
  "L4Checksum avx2 st rx_bad p = do {
     ether_type \<leftarrow> hload 2 12 p;
     if be16 ether_type \<noteq> kIpv4 then Some (Emit p 0)
     else do {
       protocol \<leftarrow> hload 1 23 p;
       b \<leftarrow> hload 1 14 p;
       let l4 = 14 + header_bytes (b ! 0);
       if protocol ! 0 = kUdp
       then if verify st
            then Some (Emit p (if hw st then (if rx_bad then 1 else 0)
                               else if VerifyIpv4UdpChecksum avx2 (from_head p 14) (from_head p l4) then 0 else 1))
            else do {
              p \<leftarrow> hstore (l4 + 6) (to_le16 (CalculateIpv4UdpChecksum avx2 (from_head p 14) (from_head p l4))) p;
              Some (Emit p 0)
            }
       else if protocol ! 0 = kTcp
       then if verify st
            then Some (Emit p (if hw st then (if rx_bad then 1 else 0)
                               else if VerifyIpv4TcpChecksum avx2 (from_head p 14) (from_head p l4) then 0 else 1))
            else do {
              p \<leftarrow> hstore (l4 + 16) (to_le16 (CalculateIpv4TcpChecksum avx2 (from_head p 14) (from_head p l4))) p;
              Some (Emit p 0)
            }
       else Some (Emit p 0)
     }
   }"

end
