(* ===== verification/Tunnel_Modules.thy ===== *)
theory Tunnel_Modules
  imports Header_Modules
begin

text \<open>
  Model of the tunnel modules of the datapath: GTP-U (\<^verbatim>\<open>bess/core/utils/gtp.h\<close>, \<^verbatim>\<open>gtpu_encap.cc\<close>,
  \<^verbatim>\<open>gtpu_decap.cc\<close>, \<^verbatim>\<open>gtpu_parser.cc\<close>, \<^verbatim>\<open>gtpu_echo.cc\<close>) and VXLAN (\<^verbatim>\<open>vxlan_encap.cc\<close>, \<^verbatim>\<open>vxlan_decap.cc\<close>).
  The functions of DPDK they call, \<^verbatim>\<open>rte_hash_crc\<close> and \<^verbatim>\<open>rte_pktmbuf_append\<close>, are parameters.
\<close>

section \<open>The GTP-U header\<close>

definition GTP_GPDU :: u8 where "GTP_GPDU = 0xff"
definition GTPU_ECHO_RECOVERY :: u8 where "GTPU_ECHO_RECOVERY = 14"
definition GTPU_ECHO_RESPONSE :: u8 where "GTPU_ECHO_RESPONSE = 2"
definition UDP_PORT_GTPU :: u16 where "UDP_PORT_GTPU = 2152"

definition DEFAULT_GATE :: nat where "DEFAULT_GATE = 0"
definition FORWARD_GATE :: nat where "FORWARD_GATE = 1"

text \<open>
  \<^verbatim>\<open>Gtpv1::header_length\<close> on the bytes from the header on: the loop over the extension headers
  ends at one with no successor. A length byte of zero makes it run forever.
\<close>

partial_function (option) extension_loop :: "u8 list \<Rightarrow> nat \<Rightarrow> nat option" where
  "extension_loop pktptr len =
     (if len - 1 \<ge> length pktptr then None
      else if pktptr ! (len - 1) = 0 then Some len
      else if len \<ge> length pktptr then None
      else extension_loop pktptr (len + 4 * unat (pktptr ! len)))"

definition gtp_header_length :: "u8 list \<Rightarrow> nat option" where
  "gtp_header_length gtph =
     (if gtph = [] then None
      else let flags = gtph ! 0;
               len = (if flags AND 2 \<noteq> 0 \<or> flags AND 1 \<noteq> 0 \<or> flags AND 4 \<noteq> 0 then 12 else 8)
      in if flags AND 4 \<noteq> 0 then extension_loop gtph len else Some len)"

section \<open>Encapsulation\<close>

text \<open>The outer headers: IPv4, UDP, GTP-U, its option fields and the PDU session container.\<close>

definition PacketTemplate :: "u8 list" where
  "PacketTemplate =
     [0x45, 0, 0, 0] @ to_be16 0x513 @ [0, 0, 64, kUdp, 0, 0, 0, 0, 0, 0, 0, 0, 0, 0] @
     to_be16 UDP_PORT_GTPU @ to_be16 UDP_PORT_GTPU @ [0, 0, 0, 0] @
     [0x30, GTP_GPDU, 0, 0, 0, 0, 0, 0] @
     [0, 0, 0, 0x85] @
     [1, 0, 0, 0]"

record gtpu_encap =
  add_psc :: bool
  encap_size :: nat

definition GtpuEncap_Init :: "bool \<Rightarrow> gtpu_encap" where
  "GtpuEncap_Init psc = \<lparr>add_psc = psc, encap_size = (if psc then 44 else 44 - 4 - 4)\<rparr>"

record tunnel_attrs =
  at_pdu_type :: u8
  at_qfi :: u8
  at_tout_sip :: u32
  at_tout_dip :: u32
  at_tout_teid :: u32
  at_tout_uport :: u16

text \<open>
  The attributes in the order of \<^verbatim>\<open>Init\<close>: \<^verbatim>\<open>action\<close>, the tunnel's addresses, identifier and port,
  and \<^verbatim>\<open>qfi\<close>. They are read as native integers.
\<close>

definition read_tunnel_attrs :: "(nat \<Rightarrow> int) \<Rightarrow> packet \<Rightarrow> tunnel_attrs option" where
  "read_tunnel_attrs attr_offset p = do {
     pdu_type \<leftarrow> get_attr_with_offset 1 (attr_offset 0) p;
     qfi \<leftarrow> get_attr_with_offset 1 (attr_offset 5) p;
     sip \<leftarrow> get_attr_with_offset 4 (attr_offset 1) p;
     dip \<leftarrow> get_attr_with_offset 4 (attr_offset 2) p;
     teid \<leftarrow> get_attr_with_offset 4 (attr_offset 3) p;
     uport \<leftarrow> get_attr_with_offset 2 (attr_offset 4) p;
     Some \<lparr>at_pdu_type = pdu_type ! 0, at_qfi = qfi ! 0, at_tout_sip = le32 sip, at_tout_dip = le32 dip,
           at_tout_teid = le32 teid, at_tout_uport = le16 uport\<rparr>
   }"

text \<open>The template with the fields of a packet filled in; positions are those of the members.\<close>

definition outer_headers :: "gtpu_encap \<Rightarrow> tunnel_attrs \<Rightarrow> u16 \<Rightarrow> u8 \<Rightarrow> u8 list" where
  "outer_headers st at len tos =
     (let hdr = take (encap_size st) PacketTemplate;
          hdr = (if add_psc st
                 then put_field 42 [at_qfi at AND 0x3f] (put_field 41 [push_bit 4 (at_pdu_type at)]
                   (put_field 28 [0x34] hdr))
                 else hdr);
          gtplen = len + of_nat (encap_size st) - 8 - 8 - 20;
          udplen = gtplen + 8 + 8;
          iplen = udplen + 20;
          hdr = put_field 30 (to_be16 gtplen) hdr;
          hdr = put_field 32 (to_be32 (at_tout_teid at)) hdr;
          hdr = put_field 24 (to_be16 udplen) hdr;
          hdr = put_field 22 (to_be16 (at_tout_uport at)) hdr;
          hdr = put_field 20 (to_be16 (at_tout_uport at)) hdr;
          hdr = put_field 2 (to_be16 iplen) hdr;
          hdr = put_field 12 (to_be32 (at_tout_sip at)) hdr;
          hdr = put_field 16 (to_be32 (at_tout_dip at)) hdr
      in put_field 1 [tos] hdr)"

definition GtpuEncap :: "(nat \<Rightarrow> int) \<Rightarrow> gtpu_encap \<Rightarrow> packet \<Rightarrow> emitted option" where
  "GtpuEncap attr_offset st p = do {
     at \<leftarrow> read_tunnel_attrs attr_offset p;
     let len = (ucast (pkt_len p - 14) :: u16);
     tos \<leftarrow> hload 1 15 p;
     (case prepend (of_nat (encap_size st)) p of
        None \<Rightarrow> Some (Emit p DEFAULT_GATE)
      | Some p \<Rightarrow> do {
          eth \<leftarrow> hload 14 (encap_size st) p;
          p \<leftarrow> hstore 0 eth p;
          p \<leftarrow> hstore 14 (outer_headers st at len (tos ! 0)) p;
          Some (Emit p FORWARD_GATE)
        })
   }"

section \<open>Decapsulation\<close>

definition GtpuDecap :: "packet \<Rightarrow> packet option" where
  "GtpuDecap p = do {
     b \<leftarrow> hload 1 14 p;
     let ihl = header_bytes (b ! 0);
     glen \<leftarrow> gtp_header_length (drop (head_data p (14 + ihl + 8)) (mem p));
     eth \<leftarrow> hload 14 0 p;
     p \<leftarrow> adj (of_nat (ihl + 8 + glen)) p;
     hstore 0 eth p
   }"

section \<open>Parsing\<close>

text \<open>The attributes in the order of \<^verbatim>\<open>Init\<close>.\<close>

definition set_gtp_parsing_attrs ::
    "(nat \<Rightarrow> int) \<Rightarrow> u8 list \<Rightarrow> u8 list \<Rightarrow> u8 list \<Rightarrow> u8 list \<Rightarrow> u8 list \<Rightarrow> u8 list \<Rightarrow> u8 list \<Rightarrow> packet \<Rightarrow> packet option" where
  "set_gtp_parsing_attrs attr_offset sip dip sp dp teid tipd protoid p = do {
     p \<leftarrow> set_attr_with_offset (attr_offset 0) sip p;
     p \<leftarrow> set_attr_with_offset (attr_offset 1) dip p;
     p \<leftarrow> set_attr_with_offset (attr_offset 2) sp p;
     p \<leftarrow> set_attr_with_offset (attr_offset 3) dp p;
     p \<leftarrow> set_attr_with_offset (attr_offset 4) teid p;
     p \<leftarrow> set_attr_with_offset (attr_offset 5) tipd p;
     set_attr_with_offset (attr_offset 6) protoid p
   }"

text \<open>The addresses, the protocol and the end of the IPv4 header at a position.\<close>

definition ipv4_fields :: "nat \<Rightarrow> packet \<Rightarrow> (u8 list \<times> u8 list \<times> u8 list \<times> nat) option" where
  "ipv4_fields iph p = do {
     b \<leftarrow> hload 1 iph p;
     proto \<leftarrow> hload 1 (iph + 9) p;
     src \<leftarrow> hload 4 (iph + 12) p;
     dst \<leftarrow> hload 4 (iph + 16) p;
     Some (src, dst, proto, iph + header_bytes (b ! 0))
   }"

definition const_val :: "nat \<Rightarrow> u8 list" where
  "const_val n = replicate n 0xFF"

definition GtpuParser :: "(nat \<Rightarrow> int) \<Rightarrow> packet \<Rightarrow> emitted option" where
  "GtpuParser attr_offset p = do {
     t \<leftarrow> hload 2 12 p;
     if be16 t \<noteq> kIpv4 \<and> be16 t \<noteq> kArp then Some (Emit p DEFAULT_GATE)
     else do {
       (src, dst, proto, l4) \<leftarrow> ipv4_fields 14 p;
       p \<leftarrow>
         (if proto ! 0 = kTcp then do {
            sp \<leftarrow> hload 2 l4 p;
            dp \<leftarrow> hload 2 (l4 + 2) p;
            set_gtp_parsing_attrs attr_offset src dst sp dp (const_val 4) (const_val 4) proto p
          }
          else if proto ! 0 = kUdp then do {
            sp \<leftarrow> hload 2 l4 p;
            dp \<leftarrow> hload 2 (l4 + 2) p;
            if be16 dp = UDP_PORT_GTPU then do {
              let gtph = l4 + 8;
              teid \<leftarrow> hload 4 (gtph + 4) p;
              glen \<leftarrow> gtp_header_length (drop (head_data p gtph) (mem p));
              (isrc, idst, iproto, il4) \<leftarrow> ipv4_fields (gtph + glen) p;
              if iproto ! 0 = kTcp \<or> iproto ! 0 = kUdp then do {
                isp \<leftarrow> hload 2 il4 p;
                idp \<leftarrow> hload 2 (il4 + 2) p;
                set_gtp_parsing_attrs attr_offset isrc idst isp idp teid dst iproto p
              }
              else set_gtp_parsing_attrs attr_offset isrc idst (const_val 2) (const_val 2) teid dst iproto p
            }
            else set_gtp_parsing_attrs attr_offset src dst sp dp (const_val 4) (const_val 4) proto p
          }
          else if proto ! 0 = kIcmp \<or> proto ! 0 = kEsp
          then set_gtp_parsing_attrs attr_offset src dst (const_val 2) (const_val 2) (const_val 4) (const_val 4) proto p
          else Some p);
       Some (Emit p FORWARD_GATE)
     }
   }"

section \<open>Echo\<close>

definition GtpuEcho_Init :: "u32 \<Rightarrow> u32 response" where
  "GtpuEcho_Init s1u_sgw_ip = (if s1u_sgw_ip = 0 then Inl EINVAL else Inr s1u_sgw_ip)"

text \<open>
  The room that the Ethernet padding leaves is computed with unsigned numbers. The recovery
  information element has two bytes.
\<close>

definition process_echo_request :: "(u16 \<Rightarrow> packet \<Rightarrow> packet option) \<Rightarrow> packet \<Rightarrow> (packet \<times> bool) option" where
  "process_echo_request mbuf_append p = do {
     b \<leftarrow> hload 1 14 p;
     let udp = 14 + header_bytes (b ! 0);
     let gtph = udp + 8;
     iplen \<leftarrow> hload 2 16 p;
     glen \<leftarrow> hload 2 (gtph + 2) p;
     let room = (ucast (pkt_len p) :: u64) - (14 + ucast (be16 iplen));
     (case (if room > 2 then Some (p, head_data p (gtph + 8 + unat (be16 glen)))
            else map_option (\<lambda>q. (q, head_data p (unat (data_len p)))) (mbuf_append 2 p)) of
        None \<Rightarrow> Some (p, False)
      | Some (p, recovery_ie) \<Rightarrow> do {
          p \<leftarrow> hstore (gtph + 1) [GTPU_ECHO_RESPONSE] p;
          p \<leftarrow> hstore (gtph + 2) (to_be16 (be16 glen + 2)) p;
          p \<leftarrow> store_bytes recovery_ie [GTPU_ECHO_RECOVERY] p;
          p \<leftarrow> store_bytes (recovery_ie + 1) [0] p;
          src \<leftarrow> hload 4 26 p;
          dst \<leftarrow> hload 4 30 p;
          p \<leftarrow> hstore 26 dst p;
          p \<leftarrow> hstore 30 src p;
          iplen \<leftarrow> hload 2 16 p;
          p \<leftarrow> hstore 16 (to_be16 (be16 iplen + 2)) p;
          p \<leftarrow> hstore 24 [0, 0] p;
          sp \<leftarrow> hload 2 udp p;
          dp \<leftarrow> hload 2 (udp + 2) p;
          p \<leftarrow> hstore udp dp p;
          p \<leftarrow> hstore (udp + 2) sp p;
          ulen \<leftarrow> hload 2 (udp + 4) p;
          p \<leftarrow> hstore (udp + 4) (to_be16 (be16 ulen + 2)) p;
          p \<leftarrow> hstore (udp + 6) [0, 0] p;
          Some (p, True)
        })
   }"

definition GtpuEcho :: "(u16 \<Rightarrow> packet \<Rightarrow> packet option) \<Rightarrow> packet \<Rightarrow> emitted option" where
  "GtpuEcho mbuf_append p = do {
     (p, ok) \<leftarrow> process_echo_request mbuf_append p;
     Some (Emit p (if ok then FORWARD_GATE else DEFAULT_GATE))
   }"

section \<open>VXLAN\<close>

definition VXLANEncap_Init :: "u64 \<Rightarrow> u16 response" where
  "VXLANEncap_Init dstport =
     (if dstport = 0 then Inr 4789 else if dstport \<ge> 65536 then Inl EINVAL else Inr (ucast dstport))"

text \<open>The entropy of the source port: \<open>crc bytes initial\<close> is \<^verbatim>\<open>rte_hash_crc\<close>.\<close>

definition flow_hash :: "(u8 list \<Rightarrow> u32 \<Rightarrow> u32) \<Rightarrow> nat \<Rightarrow> packet \<Rightarrow> u32 option" where
  "flow_hash crc inner_eth p = do {
     t \<leftarrow> hload 2 (inner_eth + 12) p;
     if be16 t \<noteq> kIpv4 then do {
       addrs \<leftarrow> hload 12 inner_eth p;
       Some (crc addrs (- 1))
     }
     else do {
       let inner_ip = inner_eth + 14;
       b \<leftarrow> hload 1 inner_ip p;
       let ip_len = unat (b ! 0 AND 0xF);
       proto \<leftarrow> hload 1 (inner_ip + 9) p;
       let h = ucast (proto ! 0);
       h \<leftarrow>
         (if proto ! 0 = kTcp \<or> proto ! 0 = kUdp then do {
            ports \<leftarrow> hload 4 (inner_ip + ip_len) p;
            Some (crc ports h)
          }
          else Some h);
       addrs \<leftarrow> hload 8 (inner_ip + 12) p;
       Some (crc addrs h)
     }
   }"

definition VXLANEncap :: "(u8 list \<Rightarrow> u32 \<Rightarrow> u32) \<Rightarrow> (nat \<Rightarrow> int) \<Rightarrow> u16 \<Rightarrow> packet \<Rightarrow> packet option" where
  "VXLANEncap crc attr_offset dstport p = do {
     ip_src \<leftarrow> get_attr_with_offset 4 (attr_offset 0) p;
     ip_dst \<leftarrow> get_attr_with_offset 4 (attr_offset 1) p;
     vni \<leftarrow> get_attr_with_offset 4 (attr_offset 2) p;
     let inner_frame_len = pkt_len p + 8;
     (case prepend 16 p of
        None \<Rightarrow> Some p
      | Some p \<Rightarrow> do {
          p \<leftarrow> hstore 8 (to_be32 0x08000000) p;
          p \<leftarrow> hstore 12 (to_be32 (push_bit 8 (be32 vni))) p;
          h \<leftarrow> flow_hash crc 16 p;
          p \<leftarrow> hstore 0 (to_be16 (ucast (h OR 0xc000))) p;
          p \<leftarrow> hstore 2 (to_be16 dstport) p;
          p \<leftarrow> hstore 4 (to_be16 (ucast (8 + inner_frame_len))) p;
          p \<leftarrow> hstore 6 [0, 0] p;
          p \<leftarrow> set_attr_with_offset (attr_offset 3) ip_src p;
          p \<leftarrow> set_attr_with_offset (attr_offset 4) ip_dst p;
          set_attr_with_offset (attr_offset 5) [kUdp] p
        })
   }"

definition VXLANDecap :: "(nat \<Rightarrow> int) \<Rightarrow> packet \<Rightarrow> packet option" where
  "VXLANDecap attr_offset p = do {
     b \<leftarrow> hload 1 14 p;
     let ip_bytes = header_bytes (b ! 0);
     src \<leftarrow> hload 4 26 p;
     dst \<leftarrow> hload 4 30 p;
     vni \<leftarrow> hload 4 (14 + ip_bytes + 8 + 4) p;
     p \<leftarrow> set_attr_with_offset (attr_offset 0) src p;
     p \<leftarrow> set_attr_with_offset (attr_offset 1) dst p;
     p \<leftarrow> set_attr_with_offset (attr_offset 2) (to_be32 (drop_bit 8 (be32 vni))) p;
     Some (case adj (of_nat (14 + ip_bytes + 8 + 8)) p of None \<Rightarrow> p | Some p \<Rightarrow> p)
   }"

end
