(* ===== verification/Header_Properties.thy ===== *)
theory Header_Properties
  imports Header_Modules Checksum_Properties
begin

text \<open>Properties of the header modules: round trips of tags and headers, and checksums along a pipeline.\<close>

section \<open>VLAN tags\<close>

lemma VLANPush_data:
  assumes "pkt_ok p" "4 \<le> data_off p" "16 \<le> unat (data_len p)"
  obtains p' where "VLANPush st p = Some p'" "pkt_ok p'"
    "pkt_data p' = take 12 (pkt_data p) @
       to_be32 (if be16 (drop 12 (pkt_data p)) = kVlan then qinq_tag st else vlan_tag st) @ drop 12 (pkt_data p)"
    "unat (data_len p') = unat (data_len p) + 4"
proof -
  obtain q junk where q: "prepend 4 p = Some q" "pkt_ok q" "length junk = 4" "pkt_data q = junk @ pkt_data p"
    "unat (data_len q) = unat (data_len p) + 4"
    by (rule prepend_data [OF assms(1,2)], rule that) simp_all
  have len: "length (pkt_data p) = unat (data_len p)" by (rule length_pkt_data [OF assms(1)])
  have load: "hload 16 4 q = Some (take 16 (pkt_data p))"
    using load_data [OF q(2), of 4 16] q(3-5) assms(3) by simp
  define tag where "tag = to_be32 (if be16 (drop 12 (pkt_data p)) = kVlan then qinq_tag st else vlan_tag st)"
  have tpid: "be16 (drop 12 (take 16 (pkt_data p))) = be16 (drop 12 (pkt_data p))"
    using len assms(3) by (simp add: be16_def)
  have l: "length (take 12 (pkt_data p) @ tag) = 16" "take 12 (take 16 (pkt_data p)) = take 12 (pkt_data p)"
    using len assms(3) by (simp_all add: tag_def)
  obtain p' where p': "hstore 0 (take 12 (pkt_data p) @ tag) q = Some p'" "pkt_ok p'"
    "pkt_data p' = (take 12 (pkt_data p) @ tag) @ drop 16 (pkt_data q)" "data_len p' = data_len q"
    by (rule store_data [OF q(2), of 0 "take 12 (pkt_data p) @ tag"])
      (use l(1) q(5) assms(3) in \<open>simp_all del: length_append\<close>)
  have "VLANPush st p = Some p'"
    using q(1) load p'(1) l(2) by (simp add: VLANPush_def tpid tag_def)
  moreover have "drop 16 (pkt_data q) = drop 12 (pkt_data p)" using q(3,4) by simp
  ultimately show thesis using p' q(5) by (intro that [of p']) (simp_all add: tag_def)
qed

lemma adj_store:
  assumes "store_bytes a bs p = Some q" "adj n q = Some q'"
  shows "\<exists>p'. adj n p = Some p' \<and> store_bytes a bs p' = Some q'"
  using assms by (auto simp: store_bytes_def adj_def split: if_splits)

lemma untag:
  assumes "pkt_ok p" "pkt_data p = macs @ tag @ rest" "length macs = 12" "length tag = 4"
  obtains p1 p' where "adj 4 p = Some p1" "store_bytes (head_data p 0) (replicate 4 0 @ macs) p1 = Some p'"
    "pkt_ok p'" "pkt_data p' = macs @ rest"
proof -
  have len: "unat (data_len p) = 16 + length rest"
    using length_pkt_data [OF assms(1)] assms(2-4) by simp
  obtain q where q: "store_bytes (head_data p 0) (replicate 4 0 @ macs) p = Some q" "pkt_ok q"
    "pkt_data q = (replicate 4 0 @ macs) @ rest" "data_len q = data_len p"
    by (rule store_data [OF assms(1), of 0 "replicate 4 0 @ macs"]) (use len assms(2-4) in simp_all)
  have le: "4 \<le> data_len q" using len q(4) by (simp add: word_le_nat_alt)
  obtain q' where q': "adj 4 q = Some q'" "pkt_ok q'" "pkt_data q' = macs @ rest"
    by (rule adj_data [OF q(2) le], rule that) (use q(3) assms(3) in simp_all)
  then show thesis using adj_store [OF q(1) q'(1)] that by blast
qed

lemma tag_halves:
  fixes t tci :: u16
  shows "ucast (drop_bit 16 (push_bit 16 (ucast t) OR ucast tci :: u32)) = t"
    and "ucast (push_bit 16 (ucast t) OR ucast tci :: u32) = tci"
  by (rule bit_word_eqI, auto simp: bit_simps dest: bit_imp_le_length)
    (rule bit_word_eqI, auto simp: bit_simps)

lemma tag_split:
  "be16 (drop 12 (macs @ to_be32 (push_bit 16 (ucast t) OR ucast tci) @ r)) = t"
  "be16 (drop 14 (macs @ to_be32 (push_bit 16 (ucast t) OR ucast tci) @ r)) = tci"
  if "length macs = 12" for t tci :: u16
proof -
  have "to_be32 (push_bit 16 (ucast t) OR ucast tci) = to_be16 t @ to_be16 tci"
    by (simp only: to_be32_def tag_halves)
  moreover have "drop 14 (macs @ to_be16 t @ to_be16 tci @ r) = to_be16 tci @ r"
    using that by (simp add: to_be16_def)
  ultimately show "be16 (drop 12 (macs @ to_be32 (push_bit 16 (ucast t) OR ucast tci) @ r)) = t"
    "be16 (drop 14 (macs @ to_be32 (push_bit 16 (ucast t) OR ucast tci) @ r)) = tci"
    using that by simp_all
qed

text \<open>
  C39. VLANPush inserts the tag of its TCI between the addresses and the rest of a frame, as an
  outer tag if the frame is tagged already. VLANPop takes the tag out again, and VLANSplit does
  so and sends the frame to the gate of its VLAN identifier.
\<close>

theorem VLAN_roundtrip:
  assumes "pkt_ok p" "4 \<le> data_off p" "16 \<le> unat (data_len p)"
  shows "\<exists>p' p''. VLANPush (CommandSetTci arg) p = Some p' \<and>
    pkt_data p' = take 12 (pkt_data p) @
      to_be16 (if be16 (drop 12 (pkt_data p)) = kVlan then kQinQ else kVlan) @ to_be16 (ucast arg) @
      drop 12 (pkt_data p) \<and>
    VLANPop p' = Some p'' \<and> VLANSplit p' = Some (Emit p'' (unat (ucast arg AND 0x0fff :: u16))) \<and>
    pkt_ok p'' \<and> pkt_data p'' = pkt_data p"
proof -
  define t where "t = (if be16 (drop 12 (pkt_data p)) = kVlan then kQinQ else kVlan)"
  let ?tag = "push_bit 16 (ucast t) OR ucast (ucast arg :: u16) :: u32" and ?macs = "take 12 (pkt_data p)"
  have macs: "length ?macs = 12" using length_pkt_data [OF assms(1)] assms(3) by simp
  obtain p' where p': "VLANPush (CommandSetTci arg) p = Some p'" "pkt_ok p'"
    "pkt_data p' = ?macs @ to_be32 ?tag @ drop 12 (pkt_data p)" "unat (data_len p') = unat (data_len p) + 4"
    by (rule VLANPush_data [OF assms, of "CommandSetTci arg"], rule that)
      (auto simp: CommandSetTci_def t_def Let_def)
  obtain p1 p'' where p'': "adj 4 p' = Some p1"
    "store_bytes (head_data p' 0) (replicate 4 0 @ ?macs) p1 = Some p''" "pkt_ok p''"
    "pkt_data p'' = ?macs @ drop 12 (pkt_data p)"
    by (rule untag [OF p'(2,3) macs]) simp_all
  define eth where "eth = ?macs @ to_be32 ?tag"
  have load: "load_bytes 16 (head_data p' 0) p' = Some eth"
    using load_data [OF p'(2), of 0 16] p'(3,4) macs assms(3) by (simp add: eth_def)
  have t: "be16 (drop 12 eth) = t" "be16 (drop 14 eth) = ucast arg" "take 12 eth = ?macs"
    using tag_split [OF macs, of t "ucast arg" "[]"] macs by (simp_all add: eth_def)
  have tagged: "t = kVlan \<or> t = kQinQ" by (simp add: t_def)
  have "to_be32 ?tag = to_be16 t @ to_be16 (ucast arg)" by (simp only: to_be32_def tag_halves)
  moreover have "VLANPop p' = Some p''"
    using load p''(1,2) tagged by (simp add: VLANPop_def Let_def t)
  moreover have "VLANSplit p' = Some (Emit p'' (unat (ucast arg AND 0x0fff :: u16)))"
    using load p''(1,2) tagged by (simp add: VLANSplit_def Let_def t)
  ultimately show ?thesis using p'(1,3) p''(3,4) unfolding t_def by auto
qed

text \<open>A packet of 64 bytes behind the usual headroom.\<close>

definition sample_packet :: packet where
  "sample_packet = \<lparr>mem = replicate 2560 0, data_off = 128, data_len = 64, pkt_len = 64\<rparr>"

lemma sample_packet_ok: "pkt_ok sample_packet" "data_off sample_packet = 128" "data_len sample_packet = 64"
  by (simp_all add: sample_packet_def pkt_ok_def head_data_def snbuf_defs)

theorem VLAN_roundtrip_witness:
  "\<exists>p' p''. VLANPush (CommandSetTci 7) sample_packet = Some p' \<and> VLANPop p' = Some p'' \<and>
     VLANSplit p' = Some (Emit p'' 7) \<and> pkt_data p'' = pkt_data sample_packet"
  using VLAN_roundtrip [of sample_packet 7] sample_packet_ok by auto

section \<open>Checksums along a pipeline\<close>

lemma store_byte_tail:
  assumes "store_bytes (k + i) [x] p = Some q"
  shows "drop k (mem q) = (drop k (mem p))[i := x]"
proof -
  have "k + i < length (mem p)" "mem q = (mem p)[k + i := x]"
    using assms by (auto simp: store_bytes_def upd_conv_take_nth_drop split: if_splits)
  then show ?thesis by (simp add: drop_update_swap)
qed

lemma store_le16_tail:
  assumes "store_bytes (k + i) (to_le16 w) p = Some q"
  shows "drop k (mem q) = store16 i w (drop k (mem p))"
proof -
  have l: "k + i + 2 \<le> length (mem p)" and
    q: "mem q = take (k + i) (mem p) @ [ucast w, ucast (drop_bit 8 w)] @ drop (k + i + 2) (mem p)"
    using assms by (auto simp: store_bytes_def to_le16_def to_be16_def split: if_splits)
  show ?thesis
  proof (rule nth_equalityI)
    show "length (drop k (mem q)) = length (store16 i w (drop k (mem p)))" using l q by simp
    show "drop k (mem q) ! j = store16 i w (drop k (mem p)) ! j" if "j < length (drop k (mem q))" for j
      using that l unfolding q store16_def
      by (auto simp: nth_append nth_list_update nth_Cons' not_less) (rule arg_cong [of _ _ "(!) (mem p)"], simp)
  qed
qed

lemma le16_load16: "k + i + 2 \<le> length m \<Longrightarrow> le16 (take 2 (drop (k + i) m)) = load16 (drop k m) i"
proof -
  assume l: "k + i + 2 \<le> length m"
  have "push_bit 8 (ucast b) OR ucast a = ucast a + 256 * (ucast b :: u16)" for a b :: u8
  proof -
    have "ucast a AND push_bit 8 (ucast b :: u16) = 0"
      by (rule bit_word_eqI) (auto simp: bit_simps dest: bit_imp_le_length)
    then show ?thesis
      by (simp add: disjunctive_add_eq_or or.commute push_bit_eq_mult mult.commute)
  qed
  then show ?thesis using l by (simp add: le16_def be16_def load16_def add.assoc)
qed

lemma increment_aux:
  fixes u f s c :: nat
  assumes "u = 65535 - f" "f \<le> 65535" "s = 131069 - c" "c \<le> 65535" "s mod 65535 = f mod 65535"
  shows "u mod 65535 = (c + 1) mod 65535"
proof -
  have "int (s mod 65535) = int (f mod 65535)" unfolding assms(5) ..
  then have "int s mod 65535 = int f mod 65535" unfolding zmod_int of_nat_numeral .
  then have "65535 dvd int s - int f" by (simp only: mod_eq_dvd_iff)
  then have "65535 dvd (int s - int f) - 65535" by (rule dvd_diff) simp
  moreover have "int u - int (c + 1) = (int s - int f) - 65535" using assms(1-4) by linarith
  ultimately have "int u mod 65535 = int (c + 1) mod 65535" by (simp only: mod_eq_dvd_iff)
  then have "int (u mod 65535) = int ((c + 1) mod 65535)" unfolding zmod_int of_nat_numeral .
  then show ?thesis unfolding of_nat_eq_iff .
qed

lemma update_ttl_checksum: "unat (UpdateChecksum16 c 2 1) mod 65535 = (unat c + 1) mod 65535"
proof -
  define s where "s = (NOT (ucast c) AND (0xFFFF :: u32)) + ChecksumIncrement16 2 1"
  define F where "F = fold_nat 65536 (unat s)"
  have s: "unat s = 131069 - unat c" "unat c \<le> 65535"
    using unat_le16 [of c]
    by (simp_all add: s_def unat_word_ariths unat_not_ucast16 ChecksumIncrement16_value)
  have u: "unat (UpdateChecksum16 c 2 1) = 65535 - F" "F \<le> 65535" "oc F (unat s)"
    using FoldChecksum_fold [of s]
    by (simp_all add: F_def s_def UpdateChecksum16_def UpdateChecksumWithIncrement_def)
  have "unat s mod 65535 = F mod 65535" using u(3) by (simp add: oc_def)
  from increment_aux [OF u(1,2) s this] show ?thesis .
qed

lemma swap_unit_mod:
  fixes a b t c c' m :: nat
  assumes "c' mod m = (c + 1) mod m"
  shows "(a + t + c' + b) mod m = (a + (t + 1) + c + b) mod m"
proof -
  have "(a + t + b + c') mod m = (a + t + b + (c + 1)) mod m" by (rule mod_add_cong [OF refl assms])
  then show ?thesis by (simp add: ac_simps)
qed

lemma verify_after_ttl:
  assumes n: "n = 4 * ipv4_header_length iph" "n \<le> length iph"
    and v: "VerifyIpv4Checksum avx2 iph" and ttl: "1 < iph ! 8"
  shows "VerifyIpv4Checksum avx2
    ((store16 10 (UpdateChecksum16 (load16 iph 10) 2 1) iph)[8 := iph ! 8 - 1])"
proof -
  let ?c = "UpdateChecksum16 (load16 iph 10) 2 1"
  let ?new = "(store16 10 ?c iph)[8 := iph ! 8 - 1]"
  have n20: "20 \<le> n" and z: "oc (window iph 0 n) 65535"
    using v verify_iff [of iph avx2] n by (auto simp: rfc1071_zero window_def)
  have hl: "ipv4_header_length ?new = ipv4_header_length iph"
    by (simp add: ipv4_header_length_def store16_def)
  have split: "window b 0 n = window b 0 8 + unat (load16 b 8) + unat (load16 b 10) + window b 12 (n - 12)"
    if "length b = length iph" for b
  proof -
    have "window b 0 (8 + (2 + (2 + (n - 12)))) =
        window b 0 8 + (window b 8 2 + (window b 10 2 + window b 12 (n - 12)))"
      using n(2) n20 that window_split [of 8 0 "2 + (2 + (n - 12))" b] window_split [of 2 8 "2 + (n - 12)" b]
        window_split [of 2 10 "n - 12" b] by simp
    moreover have "8 + (2 + (2 + (n - 12))) = n" using n20 by simp
    ultimately show ?thesis using n(2) n20 that window_2 [of 8 b] window_2 [of 10 b] by simp
  qed
  have same: "window ?new 0 8 = window iph 0 8" "window ?new 12 (n - 12) = window iph 12 (n - 12)"
    by (simp_all add: window_def store16_def)
  have c: "load16 ?new 10 = ?c" using load16_store16_same [of 10 iph] n20 n(2) by (simp add: load16_def)
  have t: "unat (load16 ?new 8) + 1 = unat (load16 iph 8)"
  proof -
    have "unat (iph ! 8 - 1) + 1 = unat (iph ! 8)" using ttl by (simp add: unat_sub word_less_nat_alt word_le_nat_alt)
    then show ?thesis using n20 n(2) by (simp add: unat_load16 store16_def)
  qed
  have len: "length ?new = length iph" by simp
  have "(window ?new 0 n) mod 65535 = (window iph 0 n) mod 65535"
    unfolding split [OF len] split [OF refl] same c t [symmetric]
    by (rule swap_unit_mod [OF update_ttl_checksum])
  moreover have "0 < window ?new 0 n"
  proof -
    have "2 \<le> unat (load16 iph 8)" using ttl by (simp add: unat_load16 word_less_nat_alt)
    then have "0 < unat (load16 ?new 8)" using t by linarith
    then show ?thesis using split [OF len] by linarith
  qed
  ultimately have "oc (window ?new 0 n) 65535" using z by (auto simp: oc_def)
  then show ?thesis using verify_iff [of ?new avx2] n n20 hl by (simp add: rfc1071_zero window_def)
qed

lemma from_head_nth: "pkt_ok p \<Longrightarrow> i + k < unat (data_len p) \<Longrightarrow> from_head p i ! k = pkt_data p ! (i + k)"
  by (simp add: pkt_data_def pkt_ok_def head_data_def add.assoc)

lemma length_from_head: "pkt_ok p \<Longrightarrow> unat (data_len p) \<le> length (from_head p i) + i"
  by (auto simp: pkt_ok_def head_data_def)

lemma head_store_checksum:
  assumes "hstore 24 (to_le16 w) p = Some q" "data_off q = data_off p"
  shows "from_head q 14 = store16 10 w (from_head p 14)"
  using store_le16_tail [of "head_data p 14" 10 w p q] assms by (simp add: head_data_def add.assoc)

lemma head_store_ttl:
  assumes "hstore 22 [b] p = Some q" "data_off q = data_off p"
  shows "from_head q 14 = (from_head p 14)[8 := b]"
  using store_byte_tail [of "head_data p 14" 8 b p q] assms by (simp add: head_data_def add.assoc)

text \<open>A frame with an IPv4 header of the given number of bytes.\<close>

definition ipv4_frame :: "packet \<Rightarrow> nat \<Rightarrow> bool" where
  "ipv4_frame p n \<longleftrightarrow> pkt_ok p \<and> be16 (drop 12 (pkt_data p)) = kIpv4 \<and>
     n = 4 * ipv4_header_length (from_head p 14) \<and> 20 \<le> n \<and> 14 + n \<le> unat (data_len p)"

lemma ipv4_frame_type:
  assumes "ipv4_frame p n"
  shows "\<exists>t. hload 2 12 p = Some t \<and> be16 t = kIpv4"
proof -
  have ok: "pkt_ok p" "12 + 2 \<le> unat (data_len p)" using assms by (auto simp: ipv4_frame_def)
  then have "be16 (take 2 (drop 12 (pkt_data p))) = be16 (drop 12 (pkt_data p))"
    using length_pkt_data [of p] by (simp add: be16_def)
  then show ?thesis using load_data [OF ok] assms by (simp add: ipv4_frame_def)
qed

lemma IPChecksum_verify:
  assumes "ipv4_frame p n"
  shows "IPChecksum avx2 \<lparr>verify = True, hw = False\<rparr> bad p =
    Some (Emit p (if VerifyIpv4Checksum avx2 (from_head p 14) then 0 else 1))"
  using ipv4_frame_type [OF assms] by (auto simp: IPChecksum_def kIpv4_def kQinQ_def kVlan_def)

text \<open>Storing the checksum and the time to live keeps a frame an IPv4 frame.\<close>

lemma frame_store:
  assumes "ipv4_frame p n" "14 < i" "i + length bs \<le> 14 + n"
  obtains q where "hstore i bs p = Some q" "ipv4_frame q n" "data_off q = data_off p"
    "pkt_data q = take i (pkt_data p) @ bs @ drop (i + length bs) (pkt_data p)"
proof -
  have ok: "pkt_ok p" "i + length bs \<le> unat (data_len p)" "14 + n \<le> unat (data_len p)"
    using assms by (auto simp: ipv4_frame_def)
  obtain q where q: "hstore i bs p = Some q" "pkt_ok q" "data_off q = data_off p" "data_len q = data_len p"
    "pkt_data q = take i (pkt_data p) @ bs @ drop (i + length bs) (pkt_data p)"
    by (rule store_data [OF ok(1,2)], rule that)
  have len: "length (pkt_data p) = unat (data_len p)" by (rule length_pkt_data [OF ok(1)])
  have same: "pkt_data q ! k = pkt_data p ! k" if "k \<le> 14" for k
    using that assms(2) ok(2) len by (simp add: q(5) nth_append)
  have "from_head q 14 ! 0 = from_head p 14 ! 0"
    using from_head_nth [OF q(2), of 14 0] from_head_nth [OF ok(1), of 14 0] same [of 14] q(4) ok(3) assms
    by (simp add: ipv4_frame_def)
  then have "ipv4_header_length (from_head q 14) = ipv4_header_length (from_head p 14)"
    by (simp add: ipv4_header_length_def)
  moreover have "be16 (drop 12 (pkt_data q)) = be16 (drop 12 (pkt_data p))"
    using same [of 12] same [of 13] assms len ok length_pkt_data [OF q(2)] q(4) by (simp add: be16_def)
  ultimately show thesis using q assms(1) by (intro that [of q]) (simp_all add: ipv4_frame_def)
qed

text \<open>
  C17. An IPv4 frame whose checksum IPChecksum has computed passes the IPChecksum that verifies.
  UpdateTTL takes one off its time to live and adjusts the checksum so that it still does.
\<close>

theorem checksum_pipeline:
  assumes "ipv4_frame p n" "1 < pkt_data p ! 22"
  shows "\<exists>p1 p2. IPChecksum avx2 \<lparr>verify = False, hw = h\<rparr> bad p = Some (Emit p1 0) \<and>
    IPChecksum avx2 \<lparr>verify = True, hw = False\<rparr> bad p1 = Some (Emit p1 0) \<and>
    UpdateTTL p1 = Some (Emit p2 0) \<and> pkt_data p2 ! 22 = pkt_data p ! 22 - 1 \<and>
    IPChecksum avx2 \<lparr>verify = True, hw = False\<rparr> bad p2 = Some (Emit p2 0)"
proof -
  have n: "20 \<le> n" using assms(1) by (simp add: ipv4_frame_def)
  have le16: "length (to_le16 w) = 2" for w by (simp add: to_le16_def)
  obtain p1 where p1: "hstore 24 (to_le16 (CalculateIpv4Checksum avx2 (from_head p 14))) p = Some p1"
    "ipv4_frame p1 n" "data_off p1 = data_off p"
    "pkt_data p1 = take 24 (pkt_data p) @ to_le16 (CalculateIpv4Checksum avx2 (from_head p 14)) @ drop 26 (pkt_data p)"
    by (rule frame_store [OF assms(1), of 24 "to_le16 (CalculateIpv4Checksum avx2 (from_head p 14))"])
      (use n le16 in simp_all)
  have ok: "pkt_ok p" "pkt_ok p1" "n = 4 * ipv4_header_length (from_head p 14)" "14 + n \<le> unat (data_len p)"
    "n = 4 * ipv4_header_length (from_head p1 14)" "14 + n \<le> unat (data_len p1)"
    using assms(1) p1(2) by (auto simp: ipv4_frame_def)
  have tail1: "from_head p1 14 = store16 10 (CalculateIpv4Checksum avx2 (from_head p 14)) (from_head p 14)"
    by (rule head_store_checksum [OF p1(1,3)])
  have v1: "VerifyIpv4Checksum avx2 (from_head p1 14)"
    using ipv4_roundtrip [of "from_head p 14" avx2] ok n length_from_head [OF ok(1), of 14] tail1 by simp
  have ttl: "pkt_data p1 ! 22 = pkt_data p ! 22" "from_head p1 14 ! 8 = pkt_data p1 ! 22"
    using length_pkt_data [OF ok(1)] ok(4,6) n from_head_nth [OF ok(2), of 14 8] by (simp_all add: p1(4) nth_append)
  obtain q where q: "hstore 24 (to_le16 (UpdateChecksum16 (load16 (from_head p1 14) 10) 2 1)) p1 = Some q"
    "ipv4_frame q n" "data_off q = data_off p1"
    by (rule frame_store [OF p1(2), of 24 "to_le16 (UpdateChecksum16 (load16 (from_head p1 14) 10) 2 1)"])
      (use n le16 in simp_all)
  obtain p2 where p2: "hstore 22 [pkt_data p ! 22 - 1] q = Some p2" "ipv4_frame p2 n" "data_off p2 = data_off q"
    "pkt_data p2 = take 22 (pkt_data q) @ [pkt_data p ! 22 - 1] @ drop 23 (pkt_data q)"
    by (rule frame_store [OF q(2), of 22 "[pkt_data p ! 22 - 1]"]) (use n in simp_all)
  have tail2: "from_head p2 14 =
      (store16 10 (UpdateChecksum16 (load16 (from_head p1 14) 10) 2 1) (from_head p1 14))[8 := from_head p1 14 ! 8 - 1]"
    using head_store_checksum [OF q(1,3)] head_store_ttl [OF p2(1,3)] ttl by simp
  have v2: "VerifyIpv4Checksum avx2 (from_head p2 14)"
    unfolding tail2 using verify_after_ttl [OF ok(5) _ v1] length_from_head [OF ok(2), of 14] ok(6) ttl assms(2) by simp
  have "UpdateTTL p1 = Some (Emit p2 0)"
  proof -
    have "hload 1 22 p1 = Some [pkt_data p ! 22]"
      using load_data [OF ok(2), of 22 1] ok(6) n ttl length_pkt_data [OF ok(2)]
      by (simp add: take_Suc hd_drop_conv_nth)
    moreover have "hload 2 24 p1 = Some (take 2 (drop (head_data p1 14 + 10) (mem p1)))"
      using ok(2,6) n by (simp add: load_bytes_def pkt_ok_def head_data_def add.commute)
    moreover have "le16 (take 2 (drop (head_data p1 14 + 10) (mem p1))) = load16 (from_head p1 14) 10"
      using ok(2,6) n by (intro le16_load16) (simp add: pkt_ok_def head_data_def)
    ultimately show ?thesis using assms(2) q(1) p2(1) by (simp add: UpdateTTL_def)
  qed
  moreover have "pkt_data p2 ! 22 = pkt_data p ! 22 - 1"
    using q(2) n length_pkt_data [of q] by (simp add: p2(4) nth_append ipv4_frame_def)
  moreover have "IPChecksum avx2 \<lparr>verify = False, hw = h\<rparr> bad p = Some (Emit p1 0)"
    using ipv4_frame_type [OF assms(1)] p1(1) by (auto simp: IPChecksum_def kIpv4_def kQinQ_def kVlan_def)
  ultimately show ?thesis
    using IPChecksum_verify [OF p1(2)] IPChecksum_verify [OF p2(2)] v1 v2 by auto
qed

definition sample_ipv4 :: packet where
  "sample_ipv4 = sample_packet\<lparr>mem := (mem sample_packet)[524 := 8, 526 := 0x45, 534 := 64]\<rparr>"

lemma sample_ipv4_data:
  "i < 64 \<Longrightarrow> pkt_data sample_ipv4 ! i = (if i = 12 then 8 else if i = 14 then 0x45 else if i = 22 then 64 else 0)"
  "from_head sample_ipv4 14 ! 0 = 0x45"
  by (auto simp: pkt_data_def sample_ipv4_def sample_packet_def head_data_def snbuf_defs nth_list_update)

lemma sample_ipv4_frame: "ipv4_frame sample_ipv4 20"
proof -
  have ok: "pkt_ok sample_ipv4" "data_len sample_ipv4 = 64"
    by (simp_all add: sample_ipv4_def sample_packet_def pkt_ok_def head_data_def snbuf_defs)
  then have "be16 (drop 12 (pkt_data sample_ipv4)) = kIpv4"
    using length_pkt_data [OF ok(1)] sample_ipv4_data(1) [of 12] sample_ipv4_data(1) [of 13] by (simp add: be16_def kIpv4_def)
  then show ?thesis using ok sample_ipv4_data(2) by (simp add: ipv4_frame_def ipv4_header_length_def)
qed

theorem checksum_pipeline_witness:
  "\<exists>p1 p2. IPChecksum True \<lparr>verify = False, hw = True\<rparr> False sample_ipv4 = Some (Emit p1 0) \<and>
    UpdateTTL p1 = Some (Emit p2 0) \<and> pkt_data p2 ! 22 = 63 \<and>
    IPChecksum True \<lparr>verify = True, hw = False\<rparr> False p2 = Some (Emit p2 0)"
proof -
  have "pkt_data sample_ipv4 ! 22 = 64" by (simp add: sample_ipv4_data)
  then show ?thesis using checksum_pipeline [OF sample_ipv4_frame, of True True False] by auto
qed

end
