(* ===== verification/Tunnel_Properties.thy ===== *)
theory Tunnel_Properties
  imports Tunnel_Modules Header_Properties
begin

text \<open>
  A packet that is put in a GTP-U tunnel and taken out again is the packet that went in; and when
  the walk along the extension headers of a GTP-U packet ends.
\<close>

section \<open>Extension headers\<close>

lemma extension_loop_stuck:
  assumes "extension_loop pktptr len = Some r"
  shows "\<not> (len < length pktptr \<and> pktptr ! (len - 1) \<noteq> 0 \<and> pktptr ! len = 0)"
proof (rule extension_loop.raw_induct [where P = "\<lambda>p n _. \<not> (n < length p \<and> p ! (n - 1) \<noteq> 0 \<and> p ! n = 0)", OF _ assms])
  fix loop p n y
  assume IH: "\<And>p n y. loop p n = Some y \<Longrightarrow> \<not> (n < length p \<and> p ! (n - 1) \<noteq> 0 \<and> p ! n = 0)"
    and step: "(if length p \<le> n - 1 then None else if p ! (n - 1) = 0 then Some n else if length p \<le> n then None
      else loop p (n + 4 * unat (p ! n))) = Some y"
  show "\<not> (n < length p \<and> p ! (n - 1) \<noteq> 0 \<and> p ! n = 0)"
  proof
    assume stuck: "n < length p \<and> p ! (n - 1) \<noteq> 0 \<and> p ! n = 0"
    then have "loop p n = Some y" using step by (auto split: if_splits)
    then show False using IH stuck by blast
  qed
qed

text \<open>
  C38. \<^verbatim>\<open>Gtpv1::header_length\<close> does not return for a packet whose first extension header has a
  length of zero: the loop adds nothing to its position.
\<close>

theorem header_length_zero_extension:
  assumes "12 < length gtph" "gtph ! 0 AND 4 \<noteq> 0" "gtph ! 11 \<noteq> 0" "gtph ! 12 = 0"
  shows "gtp_header_length gtph = None"
proof -
  have "extension_loop gtph 12 \<noteq> Some r" for r using extension_loop_stuck [of gtph 12 r] assms by auto
  then have "extension_loop gtph 12 = None" by (cases "extension_loop gtph 12") auto
  then show ?thesis using assms by (auto simp: gtp_header_length_def)
qed

theorem header_length_zero_extension_witness:
  "gtp_header_length [0x34, 0xff, 0, 0, 0, 0, 0, 0, 0, 0, 0, 0x85, 0, 0, 0, 0] = None"
  by (rule header_length_zero_extension) simp_all

section \<open>Round trip\<close>

lemma put_length: "length hdr = n \<Longrightarrow> pos + length bs \<le> n \<Longrightarrow> length (put_field pos bs hdr) = n"
  by simp

lemma put_other:
  "\<lbrakk>hdr ! i = x; length hdr = n; pos + length bs \<le> n; i < n; i < pos \<or> pos + length bs \<le> i\<rbrakk> \<Longrightarrow>
     put_field pos bs hdr ! i = x"
  by (auto simp: nth_put_field)

lemma put_same: "length hdr = n \<Longrightarrow> i < n \<Longrightarrow> put_field i [x] hdr ! i = x"
  by (simp add: nth_put_field)

lemma length_PacketTemplate: "length PacketTemplate = 44"
  by (simp add: PacketTemplate_def to_be16_def)

lemma PacketTemplate_nth:
  "PacketTemplate ! 0 = 0x45" "PacketTemplate ! 28 = 0x30" "PacketTemplate ! 39 = 0x85" "PacketTemplate ! 40 = 1"
  "PacketTemplate ! 43 = 0"
  by (simp_all add: PacketTemplate_def to_be16_def)

lemma length_outer_headers: "length (outer_headers (GtpuEncap_Init psc) at len tos) = encap_size (GtpuEncap_Init psc)"
  by (cases psc; simp only: outer_headers_def Let_def GtpuEncap_Init_def gtpu_encap.simps if_True if_False;
    (rule put_length)+) (simp_all add: length_PacketTemplate length_to_be)

lemmas put_44 = put_other [where n = 44] put_length [where n = 44]
lemmas put_36 = put_other [where n = 36] put_length [where n = 36]

lemmas outer_headers_unfold = outer_headers_def Let_def GtpuEncap_Init_def gtpu_encap.simps if_True if_False

lemma outer_headers_psc:
  "outer_headers (GtpuEncap_Init True) at len tos ! 0 = 0x45"
  "outer_headers (GtpuEncap_Init True) at len tos ! 28 = 0x34"
  "outer_headers (GtpuEncap_Init True) at len tos ! 39 = 0x85"
  "outer_headers (GtpuEncap_Init True) at len tos ! 40 = 1"
  "outer_headers (GtpuEncap_Init True) at len tos ! 43 = 0"
  by (simp only: outer_headers_unfold;
    (rule put_same [where n = 44] put_44 | simp add: length_PacketTemplate PacketTemplate_nth del: length_put_field)+)+

lemma outer_headers_plain:
  "outer_headers (GtpuEncap_Init False) at len tos ! 0 = 0x45"
  "outer_headers (GtpuEncap_Init False) at len tos ! 28 = 0x30"
  by (simp only: outer_headers_unfold;
    (rule put_36 | simp add: length_PacketTemplate PacketTemplate_nth del: length_put_field)+)+

lemma gtp_length_outer:
  assumes "16 \<le> length g" "\<forall>k<encap_size (GtpuEncap_Init psc) - 28. g ! k = outer_headers (GtpuEncap_Init psc) at len tos ! (28 + k)"
  shows "gtp_header_length g = Some (encap_size (GtpuEncap_Init psc) - 28)"
proof (cases psc)
  case True
  then have "g ! 0 = 0x34" "g ! 11 = 0x85" "g ! 12 = 1" "g ! 15 = 0"
    using assms(2) outer_headers_psc [of at len tos] by (simp_all add: GtpuEncap_Init_def)
  then show ?thesis using assms(1) True
    by (auto simp: gtp_header_length_def GtpuEncap_Init_def extension_loop.simps [of g 12] extension_loop.simps [of g 16])
next
  case False
  then have "g ! 0 = 0x30" using assms(2) outer_headers_plain(2) [of at len tos] by (simp add: GtpuEncap_Init_def)
  then show ?thesis using assms(1) False by (auto simp: gtp_header_length_def GtpuEncap_Init_def)
qed

text \<open>Attributes can be read when their offsets are absent or inside the metadata area.\<close>

definition offsets_ok :: "(nat \<Rightarrow> int) \<Rightarrow> bool" where
  "offsets_ok attr_offset \<longleftrightarrow> (\<forall>i. attr_offset i + 8 \<le> int SNBUF_METADATA)"

lemma get_attr_returns:
  assumes "length (mem p) = SNBUF_SIZE" "offsets_ok attr_offset" "n \<le> 8"
  shows "\<exists>bs. get_attr_with_offset n (attr_offset i) p = Some bs"
proof -
  have "attr_offset i + 8 \<le> 128" using assms(2) by (simp add: offsets_ok_def snbuf_defs)
  then show ?thesis using assms(1,3) by (auto simp: get_attr_with_offset_def IsValidOffset_def load_bytes_def snbuf_defs)
qed

lemma read_tunnel_attrs_returns:
  assumes "length (mem p) = SNBUF_SIZE" "offsets_ok attr_offset"
  shows "\<exists>at. read_tunnel_attrs attr_offset p = Some at"
proof -
  have "\<exists>bs. get_attr_with_offset n (attr_offset i) p = Some bs" if "n \<le> 8" for n i
    using get_attr_returns [OF assms that] .
  from this [of 1 0] this [of 1 5] this [of 4 1] this [of 4 2] this [of 4 3] this [of 2 4]
  show ?thesis by (auto simp: read_tunnel_attrs_def)
qed

text \<open>The frame that leaves: the Ethernet header, the outer headers, and the inner packet.\<close>

lemma GtpuEncap_frame:
  assumes "pkt_ok p" "34 \<le> unat (data_len p)" "44 \<le> unat (data_off p)" "read_tunnel_attrs attr_offset p = Some at"
  shows "\<exists>q len tos. GtpuEncap attr_offset (GtpuEncap_Init psc) p = Some (Emit q FORWARD_GATE) \<and> pkt_ok q \<and>
    unat (data_len q) = unat (data_len p) + encap_size (GtpuEncap_Init psc) \<and>
    pkt_data q = take 14 (pkt_data p) @ outer_headers (GtpuEncap_Init psc) at len tos @ drop 14 (pkt_data p)"
proof -
  define st where "st = GtpuEncap_Init psc"
  define n where "n = encap_size st"
  have n: "n \<le> 44" "36 \<le> n" by (simp_all add: n_def st_def GtpuEncap_Init_def)
  obtain tos where tos: "hload 1 15 p = Some tos" using load_data [OF assms(1), of 15 1] assms(2) by auto
  have un: "unat (of_nat n :: u16) = n" using n by (simp add: unat_of_nat take_bit_nat_eq_self_iff)
  define E D H where "E = take 14 (pkt_data p)" "D = pkt_data p"
    "H = outer_headers st at (ucast (pkt_len p - 14)) (tos ! 0)"
  have len: "length D = unat (data_len p)" "length E = 14" "length H = n"
    using length_pkt_data [OF assms(1)] assms(2) length_outer_headers [of psc] by (simp_all add: E_D_H_def st_def n_def)
  obtain q1 junk where q1: "prepend (of_nat n) p = Some q1" "pkt_ok q1" "length junk = n" "pkt_data q1 = junk @ D"
    "unat (data_len q1) = unat (data_len p) + n"
    by (rule prepend_data [OF assms(1), of "of_nat n"], use un n assms(3) in \<open>simp add: word_le_nat_alt\<close>, rule that)
      (use un in \<open>simp_all add: E_D_H_def\<close>)
  have eth1: "hload 14 n q1 = Some E" using load_data [OF q1(2), of n 14] q1(3-5) assms(2) by (simp add: E_D_H_def)
  have "0 + length E \<le> unat (data_len q1)" using len q1(5) assms(2) by simp
  then obtain q2 where q2: "hstore 0 E q1 = Some q2" "pkt_ok q2"
    "pkt_data q2 = take 0 (pkt_data q1) @ E @ drop (0 + length E) (pkt_data q1)" "data_len q2 = data_len q1"
    by (rule store_data [OF q1(2)])
  then have "14 + length H \<le> unat (data_len q2)" using len q1(5) assms(2) by simp
  then obtain q3 where q3: "hstore 14 H q2 = Some q3" "pkt_ok q3"
    "pkt_data q3 = take 14 (pkt_data q2) @ H @ drop (14 + length H) (pkt_data q2)" "data_len q3 = data_len q2"
    by (rule store_data [OF q2(2)])
  have "pkt_data q3 = E @ H @ drop 14 D" "data_len q3 = data_len q1"
    using q3 q2(3,4) len q1(3,4) n by (simp_all add: drop_drop)
  moreover have "GtpuEncap attr_offset st p = Some (Emit q3 FORWARD_GATE)"
    using assms(4) tos q1(1) eth1 q2(1) q3(1) by (simp add: GtpuEncap_def E_D_H_def n_def)
  ultimately show ?thesis using q3(2) q1(5) unfolding E_D_H_def st_def n_def by metis
qed

lemma GtpuDecap_frame:
  assumes "pkt_ok q" "pkt_data q = E @ outer_headers (GtpuEncap_Init psc) at len tos @ D" "length E = 14"
    "20 \<le> length D"
  shows "\<exists>r. GtpuDecap q = Some r \<and> pkt_data r = E @ D"
proof -
  define st where "st = GtpuEncap_Init psc"
  define n where "n = encap_size st"
  define H where "H = outer_headers st at len tos"
  have n: "n \<le> 44" "36 \<le> n" by (simp_all add: n_def st_def GtpuEncap_Init_def)
  have un: "unat (of_nat n :: u16) = n" using n by (simp add: unat_of_nat take_bit_nat_eq_self_iff)
  have H: "length H = n" "H ! 0 = 0x45"
    using length_outer_headers [of psc] outer_headers_psc(1) outer_headers_plain(1)
    by (simp_all add: H_def st_def n_def) (cases psc; simp)
  have data: "pkt_data q = E @ H @ D" "unat (data_len q) = 14 + n + length D"
    using assms(2,3) length_pkt_data [OF assms(1)] H(1) by (simp_all add: H_def st_def)
  have "take 1 H = [0x45]" using H n by (cases H) auto
  then have b: "hload 1 14 q = Some [0x45]" using load_data [OF assms(1), of 14 1] data assms(3) n H by simp
  define g where "g = drop (head_data q 42) (mem q)"
  have "gtp_header_length g = Some (n - 28)"
    unfolding n_def st_def
  proof (rule gtp_length_outer)
    show "16 \<le> length g" using length_from_head [OF assms(1), of 42] data(2) assms(4) n by (simp add: g_def)
    show "\<forall>k<encap_size (GtpuEncap_Init psc) - 28. g ! k = outer_headers (GtpuEncap_Init psc) at len tos ! (28 + k)"
    proof (intro allI impI)
      fix k assume "k < encap_size (GtpuEncap_Init psc) - 28"
      then have k: "28 + k < n" by (simp add: n_def st_def)
      then have "g ! k = pkt_data q ! (42 + k)" using from_head_nth [OF assms(1), of 42 k] data(2) by (simp add: g_def)
      also have "\<dots> = H ! (28 + k)" using k H assms(3) by (simp add: data(1) nth_append)
      finally show "g ! k = outer_headers (GtpuEncap_Init psc) at len tos ! (28 + k)" by (simp add: H_def st_def)
    qed
  qed
  moreover have "hload 14 0 q = Some E" using load_data [OF assms(1), of 0 14] data assms(3) by simp
  moreover have "of_nat n \<le> data_len q" using un data(2) by (simp add: word_le_nat_alt)
  then obtain r1 where r1: "adj (of_nat n) q = Some r1" "pkt_ok r1" "pkt_data r1 = drop (unat (of_nat n :: u16)) (pkt_data q)"
    "unat (data_len r1) = unat (data_len q) - unat (of_nat n :: u16)"
    by (rule adj_data [OF assms(1)])
  moreover have "0 + length E \<le> unat (data_len r1)" using assms(3) r1(4) un data(2) by simp
  then obtain r where r: "hstore 0 E r1 = Some r" "pkt_data r = take 0 (pkt_data r1) @ E @ drop (0 + length E) (pkt_data r1)"
    by (rule store_data [OF r1(2)])
  ultimately have "GtpuDecap q = Some r" using b n r1(1) r(1) by (simp add: GtpuDecap_def header_bytes_def g_def Let_def)
  moreover have "pkt_data r = E @ D" using r(2) r1(3) data(1) un H assms(3) by (simp add: drop_drop)
  ultimately show ?thesis by blast
qed

text \<open>
  C9. A frame that \<^verbatim>\<open>GtpuEncap\<close> has put in a tunnel, with or without the PDU session container,
  leaves \<^verbatim>\<open>GtpuDecap\<close> as it was: every byte of the frame, its Ethernet header included.
\<close>

theorem gtpu_roundtrip:
  assumes "pkt_ok p" "34 \<le> unat (data_len p)" "44 \<le> unat (data_off p)" "offsets_ok attr_offset"
  shows "\<exists>q r. GtpuEncap attr_offset (GtpuEncap_Init psc) p = Some (Emit q FORWARD_GATE) \<and>
    GtpuDecap q = Some r \<and> pkt_data r = pkt_data p"
proof -
  obtain at where at: "read_tunnel_attrs attr_offset p = Some at"
    using read_tunnel_attrs_returns assms(1,4) by (auto simp: pkt_ok_def)
  obtain q len tos where q: "GtpuEncap attr_offset (GtpuEncap_Init psc) p = Some (Emit q FORWARD_GATE)" "pkt_ok q"
    "pkt_data q = take 14 (pkt_data p) @ outer_headers (GtpuEncap_Init psc) at len tos @ drop 14 (pkt_data p)"
    using GtpuEncap_frame [OF assms(1-3) at] by blast
  show ?thesis using q(1) GtpuDecap_frame [OF q(2,3)] length_pkt_data [OF assms(1)] assms(2) by simp
qed

theorem gtpu_roundtrip_witness:
  "\<exists>q r. GtpuEncap (\<lambda>_. 0) (GtpuEncap_Init True) sample_packet = Some (Emit q FORWARD_GATE) \<and>
     GtpuDecap q = Some r \<and> pkt_data r = pkt_data sample_packet"
  by (rule gtpu_roundtrip) (simp_all add: sample_packet_ok offsets_ok_def snbuf_defs)

end
