(* ===== verification/Far_Tunnel.thy ===== *)
theory Far_Tunnel
  imports Far_Lookup Tunnel_Properties
begin

text \<open>
  From a forwarding action rule to the tunnel: the driver installs a rule in \<^verbatim>\<open>farLookup\<close>, a packet
  of its session takes the values of the rule as attributes, and \<^verbatim>\<open>GtpuEncap\<close> puts it in the tunnel
  the rule names.
\<close>

section \<open>Attributes in the metadata area\<close>

lemma load_after_store: "store_bytes a bs p = Some q \<Longrightarrow> load_bytes (length bs) a q = Some bs"
  by (auto simp: store_bytes_def load_bytes_def split: if_splits)

lemma load_beside_store:
  assumes "store_bytes a bs p = Some q" "b + n \<le> a \<or> a + length bs \<le> b"
  shows "load_bytes n b q = load_bytes n b p"
proof -
  have le: "a + length bs \<le> length (mem p)" and q: "mem q = take a (mem p) @ bs @ drop (a + length bs) (mem p)"
    using assms(1) by (auto simp: store_bytes_def split: if_splits)
  have "take n (drop b (mem q)) = take n (drop b (mem p))" if "b + n \<le> length (mem p)"
    using that le assms(2) by (intro nth_equalityI) (auto simp: q nth_append)
  moreover have "length (mem q) = length (mem p)" using le q by simp
  ultimately show ?thesis by (simp add: load_bytes_def)
qed

lemma data_beside_store:
  assumes "store_bytes a bs p = Some q" "a + length bs \<le> head_data p 0"
  shows "pkt_data q = pkt_data p" "data_len q = data_len p" "data_off q = data_off p" "length (mem q) = length (mem p)"
  using assms by (auto simp: store_bytes_def pkt_data_def head_data_def split: if_splits)

text \<open>The attributes of a list of fields have places of their own in the metadata area.\<close>

fun places :: "(nat \<Rightarrow> int) \<Rightarrow> wm_field list \<Rightarrow> (nat \<times> nat) list" where
  "places attr_offset [] = []"
| "places attr_offset (f # fs) =
     (case wf_attr f of Some i \<Rightarrow> (SNBUF_METADATA_OFF + nat (attr_offset i), wf_size f) | None \<Rightarrow> (0, 0)) # places attr_offset fs"

definition apart :: "nat \<times> nat \<Rightarrow> nat \<times> nat \<Rightarrow> bool" where
  "apart x y \<longleftrightarrow> fst x + snd x \<le> fst y \<or> fst y + snd y \<le> fst x"

definition placed :: "(nat \<Rightarrow> int) \<Rightarrow> wm_field list \<Rightarrow> bool" where
  "placed attr_offset fs \<longleftrightarrow> attrs_ok attr_offset fs \<and> (\<forall>f\<in>set fs. wf_attr f \<noteq> None) \<and> sorted_wrt apart (places attr_offset fs)"

lemma set_value_stores:
  assumes "wf_attr f = Some i" "0 \<le> attr_offset i" "wf_pos f + wf_size f \<le> length keyv"
  shows "set_value attr_offset keyv f p =
    store_bytes (SNBUF_METADATA_OFF + nat (attr_offset i)) (take (wf_size f) (drop (wf_pos f) keyv)) p"
  using assms by (auto simp: set_value_def set_attr_with_offset_def IsValidOffset_def Let_def)

lemma placed_step:
  assumes "placed attr_offset (f # fs)" "wf_pos f + wf_size f \<le> length keyv" "set_value attr_offset keyv f p = Some q" "wf_size f \<le> 8"
  obtains i where "wf_attr f = Some i" "0 \<le> attr_offset i"
    "store_bytes (SNBUF_METADATA_OFF + nat (attr_offset i)) (take (wf_size f) (drop (wf_pos f) keyv)) p = Some q"
    "placed attr_offset fs" "\<forall>y\<in>set (places attr_offset fs). apart (SNBUF_METADATA_OFF + nat (attr_offset i), wf_size f) y"
    "SNBUF_METADATA_OFF + nat (attr_offset i) + wf_size f \<le> head_data p 0"
proof -
  obtain i where i: "wf_attr f = Some i" "0 \<le> attr_offset i" "attr_offset i \<le> 120"
    using assms(1) by (auto simp: placed_def attrs_ok_def)
  moreover have "SNBUF_METADATA_OFF + nat (attr_offset i) + wf_size f \<le> head_data p 0"
    using i(2,3) assms(4) by (simp add: head_data_def snbuf_defs)
  ultimately show ?thesis
    using that assms set_value_stores [of f i attr_offset keyv, OF i(1,2) assms(2)] by (auto simp: placed_def attrs_ok_def)
qed

lemma set_values_beside:
  assumes "set_values attr_offset keyv fs p = Some q" "placed attr_offset fs" "layout pos fs" "pos + fields_size fs \<le> length keyv"
    "\<forall>y\<in>set (places attr_offset fs). apart (b, n) y"
  shows "load_bytes n b q = load_bytes n b p"
  using assms
proof (induction fs arbitrary: p pos)
  case (Cons f fs)
  obtain r where r: "set_value attr_offset keyv f p = Some r" "set_values attr_offset keyv fs r = Some q"
    using Cons.prems(1) by (auto simp: Option.bind_eq_Some_conv)
  have bound: "wf_pos f + wf_size f \<le> length keyv" "wf_size f \<le> 8" using Cons.prems(3,4) by auto
  obtain i where i: "wf_attr f = Some i" "placed attr_offset fs"
    "store_bytes (SNBUF_METADATA_OFF + nat (attr_offset i)) (take (wf_size f) (drop (wf_pos f) keyv)) p = Some r"
    using placed_step [OF Cons.prems(2) bound(1) r(1) bound(2)] by metis
  have "load_bytes n b q = load_bytes n b r"
    using Cons.IH [OF r(2) i(2), of "pos + wf_size f"] Cons.prems(3-5) by simp
  also have "\<dots> = load_bytes n b p"
    using load_beside_store [OF i(3)] Cons.prems(5) i(1) bound(1) by (auto simp: apart_def)
  finally show ?case .
qed simp

lemma set_values_load:
  assumes "set_values attr_offset keyv fs p = Some q" "placed attr_offset fs" "layout pos fs" "pos + fields_size fs \<le> length keyv"
    "k < length fs" "wf_attr (fs ! k) = Some i"
  shows "load_bytes (wf_size (fs ! k)) (SNBUF_METADATA_OFF + nat (attr_offset i)) q =
    Some (take (wf_size (fs ! k)) (drop (wf_pos (fs ! k)) keyv))"
  using assms
proof (induction fs arbitrary: p pos k)
  case (Cons f fs)
  obtain r where r: "set_value attr_offset keyv f p = Some r" "set_values attr_offset keyv fs r = Some q"
    using Cons.prems(1) by (auto simp: Option.bind_eq_Some_conv)
  have bound: "wf_pos f + wf_size f \<le> length keyv" "wf_size f \<le> 8" using Cons.prems(3,4) by auto
  obtain j where j: "wf_attr f = Some j" "placed attr_offset fs"
    "store_bytes (SNBUF_METADATA_OFF + nat (attr_offset j)) (take (wf_size f) (drop (wf_pos f) keyv)) p = Some r"
    "\<forall>y\<in>set (places attr_offset fs). apart (SNBUF_METADATA_OFF + nat (attr_offset j), wf_size f) y"
    using placed_step [OF Cons.prems(2) bound(1) r(1) bound(2)] by metis
  have rest: "layout (pos + wf_size f) fs" "pos + wf_size f + fields_size fs \<le> length keyv" using Cons.prems(3,4) by auto
  show ?case
  proof (cases k)
    case 0
    then show ?thesis
      using set_values_beside [OF r(2) j(2) rest j(4)] load_after_store [OF j(3)] bound(1) j(1) Cons.prems(6) by simp
  next
    case (Suc k')
    then show ?thesis using Cons.IH [OF r(2) j(2) rest, of k'] Cons.prems(5,6) by simp
  qed
qed simp

lemma set_values_data:
  assumes "set_values attr_offset keyv fs p = Some q" "placed attr_offset fs" "layout pos fs" "pos + fields_size fs \<le> length keyv"
  shows "pkt_data q = pkt_data p \<and> data_len q = data_len p \<and> data_off q = data_off p \<and> length (mem q) = length (mem p)"
  using assms
proof (induction fs arbitrary: p pos)
  case (Cons f fs)
  obtain r where r: "set_value attr_offset keyv f p = Some r" "set_values attr_offset keyv fs r = Some q"
    using Cons.prems(1) by (auto simp: Option.bind_eq_Some_conv)
  have bound: "wf_pos f + wf_size f \<le> length keyv" "wf_size f \<le> 8" using Cons.prems(3,4) by auto
  obtain i where i: "placed attr_offset fs"
    "store_bytes (SNBUF_METADATA_OFF + nat (attr_offset i)) (take (wf_size f) (drop (wf_pos f) keyv)) p = Some r"
    "SNBUF_METADATA_OFF + nat (attr_offset i) + wf_size f \<le> head_data p 0"
    using placed_step [OF Cons.prems(2) bound(1) r(1) bound(2)] by metis
  note d = data_beside_store [OF i(2)]
  show ?case using d i(3) bound(1) Cons.IH [OF r(2) i(1), of "pos + wf_size f"] Cons.prems(3,4) by simp
qed simp

section \<open>The outer headers\<close>

lemma slice_other:
  "\<lbrakk>take n (drop i hdr) = x; length hdr = N; pos + length bs \<le> N; i + n \<le> N; i + n \<le> pos \<or> pos + length bs \<le> i\<rbrakk> \<Longrightarrow>
     take n (drop i (put_field pos bs hdr)) = x"
  by (auto simp: nth_put_field intro!: nth_equalityI)

lemma slice_same: "length hdr = N \<Longrightarrow> i + length bs \<le> N \<Longrightarrow> n = length bs \<Longrightarrow> take n (drop i (put_field i bs hdr)) = bs"
  by (simp add: put_field_def)

lemmas slice_44 = slice_same [where N = 44] slice_other [where N = 44] put_length [where n = 44]
lemmas slice_36 = slice_same [where N = 36] slice_other [where N = 36] put_length [where n = 36]

lemma outer_headers_tunnel_psc:
  "take 4 (drop 12 (outer_headers (GtpuEncap_Init True) at len tos)) = to_be32 (at_tout_sip at)"
  "take 4 (drop 16 (outer_headers (GtpuEncap_Init True) at len tos)) = to_be32 (at_tout_dip at)"
  "take 2 (drop 22 (outer_headers (GtpuEncap_Init True) at len tos)) = to_be16 (at_tout_uport at)"
  "take 4 (drop 32 (outer_headers (GtpuEncap_Init True) at len tos)) = to_be32 (at_tout_teid at)"
  by (simp only: outer_headers_unfold;
    (rule slice_44 | simp add: length_PacketTemplate del: length_put_field)+)+

lemma outer_headers_tunnel_plain:
  "take 4 (drop 12 (outer_headers (GtpuEncap_Init False) at len tos)) = to_be32 (at_tout_sip at)"
  "take 4 (drop 16 (outer_headers (GtpuEncap_Init False) at len tos)) = to_be32 (at_tout_dip at)"
  "take 2 (drop 22 (outer_headers (GtpuEncap_Init False) at len tos)) = to_be16 (at_tout_uport at)"
  "take 4 (drop 32 (outer_headers (GtpuEncap_Init False) at len tos)) = to_be32 (at_tout_teid at)"
  by (simp only: outer_headers_unfold;
    (rule slice_36 | simp add: length_PacketTemplate del: length_put_field)+)+

lemma outer_headers_tunnel:
  "take 4 (drop 12 (outer_headers (GtpuEncap_Init psc) at len tos)) = to_be32 (at_tout_sip at)"
  "take 4 (drop 16 (outer_headers (GtpuEncap_Init psc) at len tos)) = to_be32 (at_tout_dip at)"
  "take 2 (drop 22 (outer_headers (GtpuEncap_Init psc) at len tos)) = to_be16 (at_tout_uport at)"
  "take 4 (drop 32 (outer_headers (GtpuEncap_Init psc) at len tos)) = to_be32 (at_tout_teid at)"
  using outer_headers_tunnel_psc [of at len tos] outer_headers_tunnel_plain [of at len tos] by (cases psc; simp only:)+

section \<open>The attributes of the module\<close>

lemma attr_field_attribute:
  assumes "length (mem p) = SNBUF_SIZE" "0 \<le> attr_offset i" "attr_offset i \<le> 120" "sz \<le> 8"
  shows "get_attr_with_offset sz (attr_offset i) p = Some (em_packet_field attr_offset p (attr_field i pos sz))"
proof -
  let ?a = "SNBUF_METADATA_OFF + nat (attr_offset i)"
  have in8: "?a + 8 \<le> length (mem p)" using assms by (simp add: snbuf_defs)
  have "(255 :: u8) = - 1" by simp
  then have and255: "(x :: u8) AND 255 = x" for x by (simp only: and.right_neutral)
  have "take sz (map2 (AND) (take 8 (drop ?a (mem p))) (replicate sz 255 @ replicate (8 - sz) 0)) = take sz (drop ?a (mem p))"
    using in8 assms(4) by (intro nth_equalityI) (auto simp: nth_append and255)
  then show ?thesis
    using in8 assms(2,4) by (simp add: get_attr_with_offset_def em_packet_field_def buffer_fn_def IsValidOffset_def load_bytes_def)
qed

section \<open>The values of a rule\<close>

lemma drop_bit_ucast: "LENGTH('a) \<le> n \<Longrightarrow> drop_bit n (ucast (x :: 'a::len word) :: u64) = 0"
  by (rule bit_eqI) (auto simp: bit_drop_bit_eq bit_ucast_iff dest: bit_imp_le_length)

lemma drop_bit_64: "drop_bit 64 (x :: u64) = 0"
  by (rule bit_eqI) (auto simp: bit_drop_bit_eq dest: bit_imp_le_length)

lemma fits_far:
  "fits up4_far_fields [ucast (farID f), far_fseID f]"
  "fits up4_far_values (valuesv (far_entry f))"
  by (simp_all add: fits_def up4_far_fields_def up4_far_values_def far_entry_def drop_bit_ucast drop_bit_64)

definition far_action :: "far \<Rightarrow> u8 list list" where
  "far_action f = map2 int_bytes up4_far_values (valuesv (far_entry f))"

lemma far_action_nth:
  "far_action f = [fst (bin_loop 1 (ucast (setActionValue f))), fst (bin_loop 1 (ucast (tunnelType f))),
     fst (bin_loop 4 (ucast (tunnelIP4Src f))), fst (bin_loop 4 (ucast (far_tunnelIP4Dst f))),
     fst (bin_loop 4 (ucast (far_tunnelTEID f))), fst (bin_loop 2 (ucast (tunnelPort f)))]"
  by (simp add: far_action_def up4_far_values_def far_entry_def int_bytes_def)

lemma far_values_size: "em_size up4_far_values = 16" "layout 0 (map em_at up4_far_values)" "length up4_far_values = 6"
  by (simp_all add: up4_far_values_def)

lemma valid_gate_u8: "is_valid_gate (ucast (ucast (x :: u8) :: u64))"
proof -
  have "ucast (ucast x :: u64) = (ucast x :: u16)" by (rule bit_eqI) (auto simp: bit_ucast_iff)
  moreover have "unat (ucast x :: u16) \<le> unat x" unfolding unsigned_ucast_eq by (rule take_bit_nat_less_eq_self)
  moreover have "unat x < 256" using unsigned_less [of x, where 'a = nat] by simp
  ultimately show ?thesis by (simp add: is_valid_gate_def MAX_GATES_def word_less_nat_alt)
qed

lemma far_rule_data:
  assumes "em_values em = up4_far_values"
  shows "em_rule_data em (em_arg vs (far_entry f)) =
    Some \<lparr>ev_gate = ucast (ucast (tunnelType f) :: u64), ev_action = concat (far_action f) @ replicate 48 0\<rparr>"
  using RuleFields_fits [OF fits_far(2)] fits_shape [OF fits_far(2)] valid_gate_u8 [of "tunnelType f"]
    far_values_size(1,3) list_all2_lengthD [OF fits_far(2) [of f, unfolded fits_def]]
  by (simp add: em_rule_data_def em_arg_def assms far_action_def Let_def HASH_KEY_SIZE_def far_entry_def)

lemma le32_bin: "le32 (fst (bin_loop 4 (ucast (w :: u32)))) = w"
proof -
  have "rev (fst (bin_loop 4 (ucast w))) = to_be32 w"
    by (simp add: eval_nat_numeral case_prod_unfold Let_def to_be32_def to_be16_def drop_bit_drop_bit) (intro conjI bit_eqI; auto simp: bit_simps)
  then have b: "fst (bin_loop 4 (ucast w)) = rev (to_be32 w)" by (metis rev_rev_ident)
  have "le32 (rev (to_be32 w)) = be32 (to_be32 w)" by (simp add: le32_def to_be32_def to_be16_def)
  then show ?thesis using b by simp
qed

lemma le16_bin: "le16 (fst (bin_loop 2 (ucast (w :: u16)))) = w"
proof -
  have "rev (fst (bin_loop 2 (ucast w))) = to_be16 w"
    by (simp add: eval_nat_numeral case_prod_unfold Let_def to_be16_def) (intro conjI bit_eqI; auto simp: bit_simps)
  then have b: "fst (bin_loop 2 (ucast w)) = rev (to_be16 w)" by (metis rev_rev_ident)
  have "le16 (rev (to_be16 w)) = be16 (to_be16 w)" by (simp add: le16_def to_be16_def)
  then show ?thesis using b by simp
qed

text \<open>A packet of the session of a rule, before \<^verbatim>\<open>farLookup\<close>.\<close>

definition far_packet :: "(nat \<Rightarrow> int) \<Rightarrow> far \<Rightarrow> packet \<Rightarrow> bool" where
  "far_packet attr_offset f p \<longleftrightarrow>
     get_attr_with_offset 4 (attr_offset 0) p = Some (fst (bin_loop 4 (ucast (farID f)))) \<and>
     get_attr_with_offset 8 (attr_offset 1) p = Some (fst (bin_loop 8 (far_fseID f)))"

text \<open>\<^verbatim>\<open>GtpuEncap\<close> finds the attributes where \<^verbatim>\<open>farLookup\<close> writes them.\<close>

definition same_attributes :: "(nat \<Rightarrow> int) \<Rightarrow> (nat \<Rightarrow> int) \<Rightarrow> bool" where
  "same_attributes off enc \<longleftrightarrow> enc 0 = off 2 \<and> enc 1 = off 4 \<and> enc 2 = off 5 \<and> enc 3 = off 6 \<and> enc 4 = off 7 \<and> offsets_ok enc"

lemma far_lookup_hit:
  assumes "far_represents api em tb" "em_fields em = up4_far_fields" "em_values em = up4_far_values"
    "tb (far_location f) = Some (far_entry f)" "far_packet off f p" "length (mem p) = SNBUF_SIZE"
    "attrs_ok off (map em_at up4_far_fields)"
  shows "em_rules api em (map (em_packet_field off p) (em_fields em)) =
    Some \<lparr>ev_gate = ucast (ucast (tunnelType f) :: u64), ev_action = concat (far_action f) @ replicate 48 0\<rparr>"
proof -
  have off: "0 \<le> off 0" "off 0 \<le> 120" "0 \<le> off 1" "off 1 \<le> 120"
    using assms(7) by (auto simp: attrs_ok_def up4_far_fields_def)
  have "map (em_packet_field off p) (em_fields em) = map2 int_bytes (em_fields em) [ucast (farID f), far_fseID f]"
    using assms(5) attr_field_attribute [where attr_offset = off, OF assms(6) off(1,2), of 4 0]
      attr_field_attribute [where attr_offset = off, OF assms(6) off(3,4), of 8 4]
    by (simp add: assms(2) up4_far_fields_def int_bytes_def far_packet_def)
  then have "far_key em [ucast (farID f), far_fseID f] = Some (map (em_packet_field off p) (em_fields em))"
    using fits_far(1) assms(2) by (simp add: far_key_fits)
  then show ?thesis
    using assms(1,4) far_rule_data [OF assms(3)] by (simp add: far_represents_def far_location_def)
qed

lemma far_attributes:
  assumes "set_values off (concat (far_action f) @ replicate 48 0) (map em_at up4_far_values) p = Some q"
    "placed off (map em_at up4_far_values)" "same_attributes off enc" "length (mem p) = SNBUF_SIZE"
  shows "\<exists>at. read_tunnel_attrs enc q = Some at \<and> at_tout_sip at = tunnelIP4Src f \<and> at_tout_dip at = far_tunnelIP4Dst f \<and>
    at_tout_teid at = far_tunnelTEID f \<and> at_tout_uport at = tunnelPort f"
proof -
  let ?key = "concat (far_action f) @ replicate 48 0"
  have key: "length ?key = 64" by (simp add: far_action_nth)
  have le: "0 + fields_size (map em_at up4_far_values) \<le> length ?key" using key far_values_size(1) by simp
  have load: "get_attr_with_offset (wf_size (em_at (up4_far_values ! k))) (off i) q =
      Some (take (wf_size (em_at (up4_far_values ! k))) (drop (wf_pos (em_at (up4_far_values ! k))) ?key))"
    if "k < 6" "wf_attr (em_at (up4_far_values ! k)) = Some i" for k i
  proof -
    have "em_at (up4_far_values ! k) \<in> set (map em_at up4_far_values)" using that(1) far_values_size(3) by simp
    then have "0 \<le> off i" using assms(2) that(2) unfolding placed_def attrs_ok_def by blast
    then show ?thesis
      using set_values_load [OF assms(1,2) far_values_size(2) le, of k i] that far_values_size(3)
      by (simp add: get_attr_with_offset_def IsValidOffset_def)
  qed
  have enc: "enc 0 = off 2" "enc 1 = off 4" "enc 2 = off 5" "enc 3 = off 6" "enc 4 = off 7" "offsets_ok enc"
    using assms(3) by (simp_all add: same_attributes_def)
  have mem: "length (mem q) = SNBUF_SIZE" using set_values_data [OF assms(1,2) far_values_size(2) le] assms(4) by simp
  obtain qfi where qfi: "get_attr_with_offset 1 (enc 5) q = Some qfi" using get_attr_returns [OF mem enc(6), of 1 5] by auto
  have l: "get_attr_with_offset 1 (enc 0) q = Some (fst (bin_loop 1 (ucast (setActionValue f))))"
    "get_attr_with_offset 4 (enc 1) q = Some (fst (bin_loop 4 (ucast (tunnelIP4Src f))))"
    "get_attr_with_offset 4 (enc 2) q = Some (fst (bin_loop 4 (ucast (far_tunnelIP4Dst f))))"
    "get_attr_with_offset 4 (enc 3) q = Some (fst (bin_loop 4 (ucast (far_tunnelTEID f))))"
    "get_attr_with_offset 2 (enc 4) q = Some (fst (bin_loop 2 (ucast (tunnelPort f))))"
    using load [of 0 2] load [of 2 4] load [of 3 5] load [of 4 6] load [of 5 7]
    by (simp_all add: enc enc [unfolded One_nat_def] up4_far_values_def far_action_nth)
  show ?thesis using l qfi by (simp add: read_tunnel_attrs_def le32_bin le16_bin)
qed

section \<open>From the rule to the tunnel\<close>

lemma be32_slice: "take 4 xs = to_be32 w \<Longrightarrow> be32 xs = w"
  by (metis append_take_drop_id be32_to_be32(1))

lemma be16_slice: "take 2 xs = to_be16 w \<Longrightarrow> be16 xs = w"
  by (metis append_take_drop_id be16_to_be16(1))

text \<open>What the outer headers of a frame say.\<close>

definition tunnel_of :: "packet \<Rightarrow> u32 \<times> u32 \<times> u16 \<times> u32" where
  "tunnel_of p = (be32 (drop 26 (pkt_data p)), be32 (drop 30 (pkt_data p)), be16 (drop 36 (pkt_data p)), be32 (drop 46 (pkt_data p)))"

lemma tunnel_of_frame:
  assumes "pkt_data q = E @ outer_headers (GtpuEncap_Init psc) at len tos @ D" "length E = 14"
  shows "tunnel_of q = (at_tout_sip at, at_tout_dip at, at_tout_uport at, at_tout_teid at)"
proof -
  let ?H = "outer_headers (GtpuEncap_Init psc) at len tos"
  have H: "36 \<le> length ?H" using length_outer_headers [of psc at len tos] by (simp add: GtpuEncap_Init_def)
  have "take n (drop (14 + i) (pkt_data q)) = take n (drop i ?H)" if "i + n \<le> 36" for i n
    using that H assms by simp
  from this [of 12 4] this [of 16 4] this [of 22 2] this [of 32 4] show ?thesis
    using outer_headers_tunnel [of psc at len tos] by (simp add: tunnel_of_def be32_slice be16_slice)
qed

text \<open>
  C2. When the driver's table has the entry of a forwarding action rule and \<^verbatim>\<open>farLookup\<close> holds the
  table, a packet with the rule's identifiers leaves \<^verbatim>\<open>farLookup\<close> by the gate of the rule's tunnel
  type, and \<^verbatim>\<open>GtpuEncap\<close> behind it emits a frame whose outer addresses, UDP port and tunnel
  identifier are those of the rule, around the packet as it was.
\<close>

theorem far_tunnels:
  assumes "em_typed api em" "em_fields em = up4_far_fields" "em_values em = up4_far_values"
    "far_represents api em tb" "tb (far_location f) = Some (far_entry f)"
    "attrs_ok off (map em_at up4_far_fields)" "placed off (map em_at up4_far_values)" "same_attributes off enc"
    "buffer_ok p" "pkt_ok p" "34 \<le> unat (data_len p)" "44 \<le> unat (data_off p)" "far_packet off f p"
    "\<forall>i. length (stack i) = HASH_KEY_SIZE"
  shows "\<exists>q r. ExactMatch_ProcessBatch api off em stack [p] = Some [(q, ucast (ucast (tunnelType f) :: u64))] \<and>
    GtpuEncap enc (GtpuEncap_Init psc) q = Some (Emit r FORWARD_GATE) \<and>
    tunnel_of r = (tunnelIP4Src f, far_tunnelIP4Dst f, tunnelPort f, far_tunnelTEID f) \<and>
    take 14 (pkt_data r) = take 14 (pkt_data p) \<and>
    drop (14 + encap_size (GtpuEncap_Init psc)) (pkt_data r) = drop 14 (pkt_data p)"
proof -
  have mem: "length (mem p) = SNBUF_SIZE" using assms(10) by (simp add: pkt_ok_def)
  note hit = far_lookup_hit [OF assms(4,2,3,5,13) mem assms(6)]
  have rd: "em_ready em" using assms(1) by (simp add: em_typed_def)
  obtain K where K: "MakeKeys off em (stack 0) p = Some K"
    using MakeKeys_returns [OF rd _ assms(9), of off "stack 0"] assms(2,6,14) by auto
  have ok: "attrs_ok off (map em_at (em_values em))" using assms(3,7) by (simp add: placed_def)
  obtain e where e: "em_one api off em (K, p) = Some e"
    "ExactMatch_setValues off em (concat (far_action f) @ replicate 48 0) p = Some (fst e)"
    "snd e = ucast (ucast (tunnelType f) :: u64)"
    using em_one_leaves [OF assms(1) ok assms(9) K] assms(14) hit by (auto simp: em_leaves_as_def)
  define q where "q = fst e"
  have run: "ExactMatch_ProcessBatch api off em stack [p] = Some [(q, ucast (ucast (tunnelType f) :: u64))]"
    using K e(1,3) by (simp add: ExactMatch_ProcessBatch_def ExactMatch_pointwise bulk_chunks_pointwise q_def prod_eq_iff)
  have set: "set_values off (concat (far_action f) @ replicate 48 0) (map em_at up4_far_values) p = Some q"
    using e(2) assms(3) by (simp add: ExactMatch_setValues_def q_def)
  have le: "0 + fields_size (map em_at up4_far_values) \<le> length (concat (far_action f) @ replicate 48 0)"
    using far_values_size(1) by (simp add: far_action_nth)
  note same = set_values_data [OF set assms(7) far_values_size(2) le]
  have q: "pkt_ok q" "34 \<le> unat (data_len q)" "44 \<le> unat (data_off q)"
    using same assms(10-12) by (simp_all add: pkt_ok_def head_data_def)
  obtain at where at: "read_tunnel_attrs enc q = Some at" "at_tout_sip at = tunnelIP4Src f" "at_tout_dip at = far_tunnelIP4Dst f"
    "at_tout_teid at = far_tunnelTEID f" "at_tout_uport at = tunnelPort f"
    using far_attributes [OF set assms(7,8) mem] by blast
  obtain r len tos where r: "GtpuEncap enc (GtpuEncap_Init psc) q = Some (Emit r FORWARD_GATE)"
    "pkt_data r = take 14 (pkt_data q) @ outer_headers (GtpuEncap_Init psc) at len tos @ drop 14 (pkt_data q)"
    using GtpuEncap_frame [OF q at(1)] by blast
  have len: "length (take 14 (pkt_data q)) = 14" using length_pkt_data [OF q(1)] q(2) by simp
  show ?thesis
    using run r(1) tunnel_of_frame [OF r(2) len] at(2-5) r(2) len same length_outer_headers [of psc at len tos] by auto
qed

lemma bin_loop_zero: "fst (bin_loop n 0) = replicate n 0"
  by (induction n) (auto simp: case_prod_unfold Let_def)

text \<open>A rule for a tunnel from 10.0.0.1 to 10.0.0.2, with identifiers 0 as in the metadata of the packet.\<close>

definition tunnel_far :: far where
  "tunnel_far = zero_far\<lparr>tunnelType := 1, tunnelIP4Src := 0x0A000001, far_tunnelIP4Dst := 0x0A000002, tunnelPort := 2152,
     far_tunnelTEID := 0x1234\<rparr>"

lemma tunnel_far_added:
  "\<exists>em. em_step (list_hash 8) (EmAdd (em_arg [ucast (farID tunnel_far), far_fseID tunnel_far] (far_entry tunnel_far))) up4_far_lookup =
     (em, Inr ())"
proof -
  have "case em_step (list_hash 8) (EmAdd (em_arg [ucast (farID tunnel_far), far_fseID tunnel_far] (far_entry tunnel_far))) up4_far_lookup of
      (_, Inr _) \<Rightarrow> True | _ \<Rightarrow> False" by code_simp
  then show ?thesis by (auto split: prod.splits sum.splits)
qed

theorem far_tunnels_witness:
  "\<exists>em q r. ExactMatch_ProcessBatch (list_hash 8) (\<lambda>i. 8 * int i) em (\<lambda>_. replicate 64 0) [sample_packet] = Some [(q, 1)] \<and>
    GtpuEncap (\<lambda>i. if i = 0 then 16 else if i \<le> 5 then 8 * int i + 24 else 0) (GtpuEncap_Init True) q = Some (Emit r FORWARD_GATE) \<and>
    tunnel_of r = (0x0A000001, 0x0A000002, 2152, 0x1234)"
proof -
  let ?off = "\<lambda>i. 8 * int i" and ?enc = "\<lambda>i. if i = 0 then 16 else if i \<le> 5 then 8 * int i + 24 else 0 :: int"
  obtain em where run: "em_step (list_hash 8) (EmAdd (em_arg [ucast (farID tunnel_far), far_fseID tunnel_far] (far_entry tunnel_far)))
      up4_far_lookup = (em, Inr ())"
    using tunnel_far_added by blast
  have cmd: "far_command (Add (far_location tunnel_far) (far_entry tunnel_far)) =
      Some (EmAdd (em_arg [ucast (farID tunnel_far), far_fseID tunnel_far] (far_entry tunnel_far)))"
    by (simp add: far_location_def far_entry_def)
  have fit: "case Add (far_location tunnel_far) (far_entry tunnel_far) of Add (_, vs, _) _ \<Rightarrow> fits (em_fields up4_far_lookup) vs
      | Del (_, vs, _) \<Rightarrow> fits (em_fields up4_far_lookup) vs | _ \<Rightarrow> True"
    using fits_far(1) by (simp add: far_location_def up4_far_lookup_def)
  have post: "em_typed (list_hash 8) em" "far_represents (list_hash 8) em [far_location tunnel_far \<mapsto> far_entry tunnel_far]"
    using far_performs [OF list_hash_laws up4_far_lookup_typed up4_far_lookup_empty cmd fit run] by simp_all
  have same: "em_fields em = up4_far_fields" "em_values em = up4_far_values"
    using em_step_post [OF list_hash_laws up4_far_lookup_typed run] by (simp_all add: em_same_config_def up4_far_lookup_def)
  have pkt: "buffer_ok sample_packet" "far_packet ?off tunnel_far sample_packet"
    by (simp_all add: buffer_ok_def sample_packet_def snbuf_defs far_packet_def get_attr_with_offset_def IsValidOffset_def
      load_bytes_def tunnel_far_def zero_far_def bin_loop_zero)
  have offs: "attrs_ok ?off (map em_at up4_far_fields)" "placed ?off (map em_at up4_far_values)" "same_attributes ?off ?enc"
    by (auto simp: attrs_ok_def placed_def up4_far_fields_def up4_far_values_def apart_def same_attributes_def offsets_ok_def snbuf_defs)
  from far_tunnels [OF post(1) same post(2) _ offs pkt(1) sample_packet_ok(1) _ _ pkt(2), of "\<lambda>_. replicate 64 0" True]
  show ?thesis using sample_packet_ok by (auto simp: tunnel_far_def zero_far_def HASH_KEY_SIZE_def)
qed

end
