(* ===== verification/Metadata.thy ===== *)
theory Metadata
  imports Module_Attrs Common_Utils
begin

text \<open>
  Model of \<^verbatim>\<open>bess/core/metadata.cc\<close>: how the attributes of the modules of a pipeline get their places
  in the metadata area of a packet. The modules that carry an attribute from its writers to its
  readers are a scope component; components that share a module must not share bytes. Modules are
  numbered in the order of \<^verbatim>\<open>GetAllModules\<close>. Two orders the standard library leaves open are
  parameters: \<open>srt\<close>, the sort by degree, and \<open>pops\<close>, the order in which the priority
  queue yields components. Log messages are not modelled.
\<close>

section \<open>Data\<close>

text \<open>A module: its attributes, the modules upstream of every input gate, and its output gates.\<close>

record pmodule =
  all_attrs :: "attribute list"
  igates :: "nat list option list"
  ogates :: "nat option list"

type_synonym graph = "pmodule list"

record scope_component =
  sc_attr_id :: string
  sc_size :: int
  sc_offset :: int
  sc_scope_id :: int
  sc_assigned :: bool
  sc_invalid :: bool
  sc_modules :: "nat list"
  sc_degree :: nat

definition new_component :: scope_component where
  "new_component = \<lparr>sc_attr_id = [], sc_size = 0, sc_offset = 0, sc_scope_id = 0, sc_assigned = False,
     sc_invalid = False, sc_modules = [], sc_degree = 0\<rparr>"

record pipeline =
  scope_components :: "scope_component list"
  module_scopes :: "nat \<Rightarrow> int"
  scope_ids :: "nat \<Rightarrow> nat \<Rightarrow> int"
  attr_offsets :: "nat \<Rightarrow> nat \<Rightarrow> int"

definition kMetadataOffsetNoWrite :: int where "kMetadataOffsetNoWrite = - 1"
definition kMetadataOffsetNoRead :: int where "kMetadataOffsetNoRead = - 2"
definition kMetadataOffsetNoSpace :: int where "kMetadataOffsetNoSpace = - 3"
definition kMetadataTotalSize :: nat where "kMetadataTotalSize = SNBUF_METADATA"

lemmas offset_defs = kMetadataOffsetNoWrite_def kMetadataOffsetNoRead_def kMetadataOffsetNoSpace_def

text \<open>Conversion to \<^verbatim>\<open>int8_t\<close>.\<close>

definition int8 :: "int \<Rightarrow> int" where
  "int8 x = signed_take_bit 7 x"

definition ComputeNextOffset :: "int \<Rightarrow> int \<Rightarrow> int" where
  "ComputeNextOffset cur sz =
     (let curr_offset = int8 cur;
          size8 = int8 sz;
          rounded_size = int8 (uint (align_ceil_pow2 (of_int size8)));
          curr_offset = (if curr_offset mod rounded_size \<noteq> 0
                         then int8 (uint (align_ceil (of_int curr_offset) (of_int rounded_size))) else curr_offset);
          overflow = (of_int curr_offset + of_int size8 :: u32)
      in if overflow > of_nat kMetadataTotalSize then kMetadataOffsetNoSpace else curr_offset)"

definition DisjointFrom :: "scope_component \<Rightarrow> scope_component \<Rightarrow> bool" where
  "DisjointFrom a b \<longleftrightarrow> list_all (\<lambda>i. list_all (\<lambda>j. i \<noteq> j) (sc_modules b)) (sc_modules a)"

section \<open>Scope components\<close>

definition update_back :: "(scope_component \<Rightarrow> scope_component) \<Rightarrow> pipeline \<Rightarrow> pipeline" where
  "update_back f p = p\<lparr>scope_components := butlast (scope_components p) @ [f (last (scope_components p))]\<rparr>"

definition AddModuleToComponent :: "nat \<Rightarrow> attribute \<Rightarrow> pipeline \<Rightarrow> pipeline" where
  "AddModuleToComponent m attr p =
     update_back (\<lambda>c.
       if m \<in> set (sc_modules c) then c
       else let c = (if sc_modules c = [] then c\<lparr>sc_attr_id := attr_name attr, sc_size := int (attr_size attr)\<rparr> else c)
            in c\<lparr>sc_modules := sc_modules c @ [m]\<rparr>) p"

text \<open>The first attribute of a module with a name, by its position; attributes are named by module and position.\<close>

definition attr_index :: "graph \<Rightarrow> nat \<Rightarrow> string \<Rightarrow> nat option" where
  "attr_index g m name = find (\<lambda>k. attr_name (all_attrs (g ! m) ! k) = name) [0..<length (all_attrs (g ! m))]"

definition FindAttr :: "graph \<Rightarrow> nat \<Rightarrow> attribute \<Rightarrow> nat option" where
  "FindAttr g m attr = attr_index g m (attr_name attr)"

definition set_scope :: "nat \<Rightarrow> int \<Rightarrow> pipeline \<Rightarrow> pipeline" where
  "set_scope m v p = p\<lparr>module_scopes := (module_scopes p)(m := signed_take_bit 15 v)\<rparr>"

definition current :: "pipeline \<Rightarrow> int" where
  "current p = int (length (scope_components p))"

definition set_scope_attr :: "nat \<Rightarrow> nat \<Rightarrow> pipeline \<Rightarrow> pipeline" where
  "set_scope_attr m k p = p\<lparr>scope_ids := (scope_ids p)(m := (scope_ids p m)(k := current p))\<rparr>"

definition upstream :: "graph \<Rightarrow> nat \<Rightarrow> nat list" where
  "upstream g m = concat (map (\<lambda>gate. case gate of None \<Rightarrow> [] | Some ms \<Rightarrow> ms) (igates (g ! m)))"

definition downstream :: "graph \<Rightarrow> nat \<Rightarrow> nat list" where
  "downstream g m = concat (map (\<lambda>gate. case gate of None \<Rightarrow> [] | Some n \<Rightarrow> [n]) (ogates (g ! m)))"

text \<open>
  \<^verbatim>\<open>TraverseUpstream\<close>, \<^verbatim>\<open>TraverseDownstream\<close> and \<^verbatim>\<open>IdentifyScopeComponent\<close> call each other; here they
  are one function of what is to be visited, the lists being what is left of the loops over gates;
  \<open>Pass\<close> is \<^verbatim>\<open>TraverseUpstream\<close> from its cycle detection on.
  The result says whether \<^verbatim>\<open>TraverseDownstream\<close> found the module in scope.
\<close>

datatype visit = Upstream nat | Pass nat | Upstreams "nat list" | Downstream nat | Downstreams "nat list" | Identify nat nat

partial_function (option) traverse :: "graph \<Rightarrow> visit \<Rightarrow> attribute \<Rightarrow> pipeline \<Rightarrow> (pipeline \<times> bool) option" where
  "traverse g v attr p =
     (case v of
        Upstream m \<Rightarrow>
          (let p = AddModuleToComponent m attr p
           in case FindAttr g m attr of
             Some k \<Rightarrow>
               if attr_mode (all_attrs (g ! m) ! k) = kWrite
               then (if scope_ids p m k = - 1 then traverse g (Identify m k) (all_attrs (g ! m) ! k) p else Some (p, True))
               else traverse g (Pass m) attr p
           | None \<Rightarrow> traverse g (Pass m) attr p)
      | Pass m \<Rightarrow>
          (if module_scopes p m = current p then Some (p, True)
           else Option.bind (traverse g (Upstreams (upstream g m)) attr (set_scope m (current p) p)) (\<lambda>(p, r).
             Some (if igates (g ! m) = [] then update_back (\<lambda>c. c\<lparr>sc_invalid := True\<rparr>) p else p, True)))
      | Upstreams ms \<Rightarrow>
          (case ms of
             [] \<Rightarrow> Some (p, True)
           | m # ms \<Rightarrow> Option.bind (traverse g (Upstream m) attr p) (\<lambda>(p, r). traverse g (Upstreams ms) attr p))
      | Downstream m \<Rightarrow>
          (if module_scopes p m = current p then Some (p, False)
           else let p = set_scope m (current p) p
           in case FindAttr g m attr of
             Some k \<Rightarrow>
               if attr_mode (all_attrs (g ! m) ! k) = kRead \<or> attr_mode (all_attrs (g ! m) ! k) = kUpdate
               then Option.bind (traverse g (Downstreams (downstream g m)) attr
                        (set_scope_attr m k (AddModuleToComponent m (all_attrs (g ! m) ! k) p))) (\<lambda>(p, r).
                      Option.bind (traverse g (Upstream m) attr (set_scope m (- 1) p)) (\<lambda>(p, r). Some (p, True)))
               else Some (set_scope m (- 1) p, False)
           | None \<Rightarrow>
               Option.bind (traverse g (Downstreams (downstream g m)) attr p) (\<lambda>(p, in_scope).
                 if in_scope
                 then Option.bind (traverse g (Upstream m) attr (set_scope m (- 1) (AddModuleToComponent m attr p)))
                        (\<lambda>(p, r). Some (p, True))
                 else Some (p, False)))
      | Downstreams ms \<Rightarrow>
          (case ms of
             [] \<Rightarrow> Some (p, False)
           | m # ms \<Rightarrow> Option.bind (traverse g (Downstream m) attr p) (\<lambda>(p, a).
               Option.bind (traverse g (Downstreams ms) attr p) (\<lambda>(p, b). Some (p, a \<or> b))))
      | Identify m k \<Rightarrow>
          (let p = set_scope_attr m k (AddModuleToComponent m attr p)
           in traverse g (Downstreams (downstream g m)) attr (set_scope m (current p) p)))"

declare traverse.simps [code]

definition IdentifySingleScopeComponent :: "graph \<Rightarrow> nat \<Rightarrow> nat \<Rightarrow> pipeline \<Rightarrow> pipeline option" where
  "IdentifySingleScopeComponent g m k p = do {
     let p = p\<lparr>scope_components := scope_components p @ [new_component]\<rparr>;
     (p, r) \<leftarrow> traverse g (Identify m k) (all_attrs (g ! m) ! k) p;
     Some (update_back (\<lambda>c. c\<lparr>sc_scope_id := signed_take_bit 15 (current p)\<rparr>) p)
   }"

section \<open>Degrees and offsets\<close>

text \<open>Every component gets the number of the other components it shares a module with.\<close>

definition ComputeScopeDegrees :: "scope_component list \<Rightarrow> scope_component list" where
  "ComputeScopeDegrees cs =
     map (\<lambda>i. (cs ! i)\<lparr>sc_degree := sc_degree (cs ! i) +
        length (filter (\<lambda>j. i \<noteq> j \<and> \<not> DisjointFrom (cs ! min i j) (cs ! max i j)) [0..<length cs])\<rparr>) [0..<length cs]"

definition DegreeComp :: "scope_component \<Rightarrow> scope_component \<Rightarrow> bool" where
  "DegreeComp a b \<longleftrightarrow> sc_degree a > sc_degree b"

text \<open>The loop over the priority queue.\<close>

fun place :: "int \<Rightarrow> scope_component list \<Rightarrow> int \<Rightarrow> int" where
  "place sz [] off = off"
| "place sz (comp2 # h) off =
     (if sc_offset comp2 \<in> {kMetadataOffsetNoRead, kMetadataOffsetNoWrite, kMetadataOffsetNoSpace} then place sz h off
      else if off + sz > sc_offset comp2 then place sz h (ComputeNextOffset (sc_offset comp2 + sc_size comp2) sz)
      else off)"

definition neighbours :: "scope_component list \<Rightarrow> nat \<Rightarrow> scope_component list" where
  "neighbours cs i =
     map (\<lambda>j. cs ! j) (filter (\<lambda>j. i \<noteq> j \<and> \<not> DisjointFrom (cs ! i) (cs ! j) \<and> sc_assigned (cs ! j)) [0..<length cs])"

definition assign_one ::
    "(scope_component list \<Rightarrow> scope_component list) \<Rightarrow> nat \<Rightarrow> scope_component list \<Rightarrow> scope_component list" where
  "assign_one pops i cs =
     (let comp1 = cs ! i
      in if sc_invalid comp1 then cs[i := comp1\<lparr>sc_offset := kMetadataOffsetNoRead, sc_assigned := True\<rparr>]
         else if sc_assigned comp1 \<or> length (sc_modules comp1) = 1 then cs
         else cs[i := comp1\<lparr>sc_offset := place (sc_size comp1) (pops (neighbours cs i)) 0, sc_assigned := True\<rparr>])"

definition assign_all :: "(scope_component list \<Rightarrow> scope_component list) \<Rightarrow> scope_component list \<Rightarrow> scope_component list" where
  "assign_all pops cs = fold (assign_one pops) [0..<length cs] cs"

text \<open>
  \<^verbatim>\<open>FillOffsetArrays\<close>: the offsets of a component for all its modules. The arrays
  \<^verbatim>\<open>module_components_\<close> it fills beside them are only printed.
\<close>

definition set_attr_offset :: "nat \<Rightarrow> nat \<Rightarrow> int \<Rightarrow> (nat \<Rightarrow> nat \<Rightarrow> int) \<Rightarrow> (nat \<Rightarrow> nat \<Rightarrow> int)" where
  "set_attr_offset m idx off offs = (if idx < kMaxAttrsPerModule then offs(m := (offs m)(idx := off)) else offs)"

definition fill_module ::
    "graph \<Rightarrow> scope_component \<Rightarrow> int \<Rightarrow> nat \<Rightarrow> (nat \<Rightarrow> nat \<Rightarrow> int) \<Rightarrow> (nat \<Rightarrow> nat \<Rightarrow> int)" where
  "fill_module g c off m offs =
     (case attr_index g m (sc_attr_id c) of
        None \<Rightarrow> offs
      | Some k \<Rightarrow>
          set_attr_offset m k
            (if sc_invalid c
             then (if attr_mode (all_attrs (g ! m) ! k) = kRead then kMetadataOffsetNoRead else kMetadataOffsetNoWrite)
             else off) offs)"

definition fill_component :: "graph \<Rightarrow> scope_component \<Rightarrow> (nat \<Rightarrow> nat \<Rightarrow> int) \<Rightarrow> (nat \<Rightarrow> nat \<Rightarrow> int)" where
  "fill_component g c offs =
     fold (fill_module g c (if length (sc_modules c) = 1 then kMetadataOffsetNoWrite else sc_offset c)) (sc_modules c) offs"

definition FillOffsetArrays :: "graph \<Rightarrow> scope_component list \<Rightarrow> (nat \<Rightarrow> nat \<Rightarrow> int) \<Rightarrow> (nat \<Rightarrow> nat \<Rightarrow> int)" where
  "FillOffsetArrays g cs offs = fold (fill_component g) cs offs"

definition AssignOffsets ::
    "(scope_component list \<Rightarrow> scope_component list) \<Rightarrow> graph \<Rightarrow> scope_component list \<Rightarrow> (nat \<Rightarrow> nat \<Rightarrow> int) \<Rightarrow> (nat \<Rightarrow> nat \<Rightarrow> int)" where
  "AssignOffsets pops g cs offs = FillOffsetArrays g (assign_all pops cs) offs"

section \<open>The whole computation\<close>

definition PrepareMetadataComputation :: "pipeline \<Rightarrow> pipeline" where
  "PrepareMetadataComputation p = p\<lparr>module_scopes := (\<lambda>_. - 1), scope_ids := (\<lambda>_ _. - 1)\<rparr>"

definition CleanupMetadataComputation :: "pipeline \<Rightarrow> pipeline" where
  "CleanupMetadataComputation p = p\<lparr>scope_components := [], module_scopes := (\<lambda>_. 0)\<rparr>"

fun identify_attrs :: "graph \<Rightarrow> (nat \<times> nat) list \<Rightarrow> pipeline \<Rightarrow> pipeline option" where
  "identify_attrs g [] p = Some p"
| "identify_attrs g ((m, i) # rest) p =
     (let attr = all_attrs (g ! m) ! i
      in if attr_mode attr = kWrite
         then (let p = p\<lparr>attr_offsets := set_attr_offset m i kMetadataOffsetNoWrite (attr_offsets p)\<rparr>
               in if scope_ids p m i = - 1
                  then Option.bind (IdentifySingleScopeComponent g m i p) (identify_attrs g rest)
                  else identify_attrs g rest p)
         else identify_attrs g rest (p\<lparr>attr_offsets := set_attr_offset m i kMetadataOffsetNoRead (attr_offsets p)\<rparr>))"

text \<open>All attributes in the order of the two loops: by module, then by position.\<close>

definition positions :: "graph \<Rightarrow> (nat \<times> nat) list" where
  "positions g = concat (map (\<lambda>m. map (\<lambda>i. (m, i)) [0..<length (all_attrs (g ! m))]) [0..<length g])"

definition ComputeMetadataOffsets ::
    "(scope_component list \<Rightarrow> scope_component list) \<Rightarrow> (scope_component list \<Rightarrow> scope_component list) \<Rightarrow>
     graph \<Rightarrow> pipeline \<Rightarrow> pipeline option" where
  "ComputeMetadataOffsets srt pops g p = do {
     let p = PrepareMetadataComputation p;
     p \<leftarrow> identify_attrs g (positions g) p;
     let cs = srt (ComputeScopeDegrees (scope_components p));
     Some (CleanupMetadataComputation (p\<lparr>attr_offsets := AssignOffsets pops g cs (attr_offsets p)\<rparr>))
   }"

end
