(* ===== verification/Metadata_Traverse.thy ===== *)
theory Metadata_Traverse
  imports Metadata
begin

text \<open>
  The traversal that collects the scope components ends on every module graph, cycles included, as
  long as the number of components fits the 16 bits of \<^verbatim>\<open>scope_id_t\<close>; and what it leaves of a pipeline.
  The measure counts the modules that the cycle detection has not marked yet and the writers that
  belong to no component yet.
\<close>

section \<open>Graphs and what a traversal keeps\<close>

definition graph_ok :: "graph \<Rightarrow> bool" where
  "graph_ok g \<longleftrightarrow> (\<forall>m<length g. (\<forall>n\<in>set (upstream g m). n < length g) \<and> (\<forall>n\<in>set (downstream g m). n < length g))"

definition has_attr :: "graph \<Rightarrow> string \<Rightarrow> int \<Rightarrow> bool" where
  "has_attr g name sz \<longleftrightarrow> (\<exists>m<length g. \<exists>a\<in>set (all_attrs (g ! m)). attr_name a = name \<and> int (attr_size a) = sz)"

definition component_ok :: "graph \<Rightarrow> scope_component \<Rightarrow> bool" where
  "component_ok g c \<longleftrightarrow> sc_modules c \<noteq> [] \<and> \<not> sc_assigned c \<and> has_attr g (sc_attr_id c) (sc_size c)"

definition pipeline_ok :: "graph \<Rightarrow> pipeline \<Rightarrow> bool" where
  "pipeline_ok g p \<longleftrightarrow> scope_components p \<noteq> [] \<and> current p \<le> 32767 \<and> (\<forall>c\<in>set (scope_components p). component_ok g c)"

definition writes :: "graph \<Rightarrow> string \<Rightarrow> nat \<Rightarrow> bool" where
  "writes g name m \<longleftrightarrow> (case attr_index g m name of Some k \<Rightarrow> attr_mode (all_attrs (g ! m) ! k) = kWrite | None \<Rightarrow> False)"

definition unseen :: "graph \<Rightarrow> string \<Rightarrow> pipeline \<Rightarrow> nat set" where
  "unseen g name p = {m. m < length g \<and> \<not> writes g name m \<and> module_scopes p m \<noteq> current p}"

definition unidentified :: "graph \<Rightarrow> string \<Rightarrow> pipeline \<Rightarrow> nat set" where
  "unidentified g name p = {m. m < length g \<and> writes g name m \<and> scope_ids p m (the (attr_index g m name)) = - 1}"

definition work :: "graph \<Rightarrow> string \<Rightarrow> pipeline \<Rightarrow> nat" where
  "work g name p = card (unseen g name p) + card (unidentified g name p)"

definition kept :: "graph \<Rightarrow> string \<Rightarrow> pipeline \<Rightarrow> pipeline \<Rightarrow> bool" where
  "kept g name p p' \<longleftrightarrow> pipeline_ok g p' \<and> current p' = current p \<and> attr_offsets p' = attr_offsets p \<and>
     work g name p' \<le> work g name p"

lemma keptI_trans: "kept g name p q \<Longrightarrow> kept g name q r \<Longrightarrow> kept g name p r"
  by (auto simp: kept_def)

lemma kept_refl: "pipeline_ok g p \<Longrightarrow> kept g name p p"
  by (simp add: kept_def)

lemma finite_work [simp]: "finite (unseen g name p)" "finite (unidentified g name p)"
  by (simp_all add: unseen_def unidentified_def)

lemma attr_index_Some:
  assumes "attr_index g m name = Some k"
  shows "k < length (all_attrs (g ! m))" "attr_name (all_attrs (g ! m) ! k) = name"
  using assms by (auto simp: attr_index_def find_Some_iff)

section \<open>The single updates\<close>

lemma update_back_fields [simp]:
  "module_scopes (update_back f p) = module_scopes p" "scope_ids (update_back f p) = scope_ids p"
  "attr_offsets (update_back f p) = attr_offsets p"
  by (simp_all add: update_back_def)

lemma update_back_current [simp]: "scope_components p \<noteq> [] \<Longrightarrow> current (update_back f p) = current p"
  by (cases "scope_components p" rule: rev_cases) (simp_all add: update_back_def current_def)

lemma update_back_kept:
  assumes "pipeline_ok g p" "\<And>c. component_ok g c \<Longrightarrow> component_ok g (f c)"
  shows "kept g name p (update_back f p)"
proof -
  have ne: "scope_components p \<noteq> []" using assms(1) by (simp add: pipeline_ok_def)
  have "\<forall>c\<in>set (scope_components (update_back f p)). component_ok g c"
    using assms ne by (auto simp: update_back_def pipeline_ok_def dest: in_set_butlastD)
  then have "pipeline_ok g (update_back f p)"
    using assms(1) ne by (simp add: pipeline_ok_def update_back_def [of f p, THEN arg_cong, of "\<lambda>p. scope_components p = []"])
  then show ?thesis using ne by (simp add: kept_def work_def unseen_def unidentified_def)
qed

lemma AddModuleToComponent_kept:
  assumes "pipeline_ok g p"
  shows "kept g name p (AddModuleToComponent m attr p)"
  unfolding AddModuleToComponent_def by (rule update_back_kept [OF assms]) (auto simp: component_ok_def Let_def)

lemma set_invalid_kept:
  assumes "pipeline_ok g p"
  shows "kept g name p (update_back (\<lambda>c. c\<lparr>sc_invalid := True\<rparr>) p)"
  by (rule update_back_kept [OF assms]) (simp add: component_ok_def)

lemma set_scope_ok [simp]: "pipeline_ok g (set_scope m v p) = pipeline_ok g p" "current (set_scope m v p) = current p"
  "attr_offsets (set_scope m v p) = attr_offsets p" "scope_ids (set_scope m v p) = scope_ids p"
  by (simp_all add: set_scope_def pipeline_ok_def current_def)

lemma current_fits:
  assumes "pipeline_ok g p"
  shows "signed_take_bit 15 (current p) = current p" "current p \<noteq> - 1"
proof -
  have "0 \<le> current p" "current p \<le> 32767" using assms by (simp_all add: pipeline_ok_def current_def)
  then show "signed_take_bit 15 (current p) = current p" "current p \<noteq> - 1"
    by (auto intro!: signed_take_bit_int_eq_self)
qed

lemma mark_unseen:
  assumes "pipeline_ok g p"
  shows "unseen g name (set_scope m (current p) p) = unseen g name p - {m}"
  using current_fits [OF assms] by (auto simp: unseen_def set_scope_def current_def)

lemma mark_kept:
  assumes "pipeline_ok g p"
  shows "kept g name p (set_scope m (current p) p)"
  using assms mark_unseen [OF assms] by (auto simp: kept_def work_def unidentified_def intro!: card_mono)

lemma mark_less:
  assumes "pipeline_ok g p" "m < length g" "\<not> writes g name m" "module_scopes p m \<noteq> current p"
  shows "work g name (set_scope m (current p) p) < work g name p"
proof -
  have "m \<in> unseen g name p" using assms(2-4) by (simp add: unseen_def)
  then have "card (unseen g name p - {m}) < card (unseen g name p)" by (intro card_Diff1_less) simp_all
  then show ?thesis using mark_unseen [OF assms(1)] by (simp add: work_def unidentified_def)
qed

text \<open>Taking a mark away gives back at most one module, and none if the module writes the attribute.\<close>

lemma unmark_work: "work g name (set_scope m v p) \<le> Suc (work g name p)"
proof -
  have "unseen g name (set_scope m v p) \<subseteq> insert m (unseen g name p)" by (auto simp: unseen_def set_scope_def current_def)
  then have "card (unseen g name (set_scope m v p)) \<le> card (insert m (unseen g name p))" by (intro card_mono) simp_all
  also have "\<dots> \<le> Suc (card (unseen g name p))" by (simp add: card_insert_if)
  finally have "card (unseen g name (set_scope m v p)) \<le> Suc (card (unseen g name p))" .
  then show ?thesis by (simp add: work_def unidentified_def)
qed

lemma unmark_writer_kept:
  assumes "pipeline_ok g p" "writes g name m"
  shows "kept g name p (set_scope m v p)"
proof -
  have "unseen g name (set_scope m v p) = unseen g name p" using assms(2) by (auto simp: unseen_def set_scope_def current_def)
  then show ?thesis using assms(1) by (simp add: kept_def work_def unidentified_def)
qed

lemma set_scope_attr_fields [simp]: "module_scopes (set_scope_attr m k p) = module_scopes p"
  "attr_offsets (set_scope_attr m k p) = attr_offsets p" "current (set_scope_attr m k p) = current p"
  "pipeline_ok g (set_scope_attr m k p) = pipeline_ok g p"
  by (simp_all add: set_scope_attr_def current_def pipeline_ok_def)

lemma set_scope_attr_unidentified:
  assumes "pipeline_ok g p"
  shows "unidentified g name (set_scope_attr m k p) \<subseteq> unidentified g name p"
    "attr_index g m name = Some k \<Longrightarrow> m \<notin> unidentified g name (set_scope_attr m k p)"
  using current_fits(2) [OF assms] by (auto simp: unidentified_def set_scope_attr_def split: if_splits)

lemma set_scope_attr_kept:
  assumes "pipeline_ok g p"
  shows "kept g name p (set_scope_attr m k p)"
  using assms card_mono [OF finite_work(2) set_scope_attr_unidentified(1) [OF assms]]
  by (simp add: kept_def work_def unseen_def)

lemma set_scope_attr_less:
  assumes "pipeline_ok g p" "m < length g" "writes g name m" "attr_index g m name = Some k" "scope_ids p m k = - 1"
  shows "work g name (set_scope_attr m k p) < work g name p"
proof -
  have "m \<in> unidentified g name p" using assms(2-5) by (simp add: unidentified_def)
  then have "unidentified g name (set_scope_attr m k p) \<subset> unidentified g name p"
    using set_scope_attr_unidentified [OF assms(1)] assms(4) by blast
  then show ?thesis using psubset_card_mono [OF finite_work(2)] by (simp add: work_def unseen_def)
qed

section \<open>The traversal ends\<close>

definition in_range :: "graph \<Rightarrow> string \<Rightarrow> visit \<Rightarrow> bool" where
  "in_range g name v \<longleftrightarrow>
     (case v of Upstream m \<Rightarrow> m < length g | Pass m \<Rightarrow> m < length g \<and> \<not> writes g name m
      | Upstreams ms \<Rightarrow> \<forall>m\<in>set ms. m < length g | Downstream m \<Rightarrow> m < length g
      | Downstreams ms \<Rightarrow> \<forall>m\<in>set ms. m < length g | Identify m k \<Rightarrow> False)"

definition ends :: "graph \<Rightarrow> visit \<Rightarrow> attribute \<Rightarrow> pipeline \<Rightarrow> bool" where
  "ends g v attr p \<longleftrightarrow> (\<exists>p' r. traverse g v attr p = Some (p', r) \<and> kept g (attr_name attr) p p')"

text \<open>Every visit that leaves less than \<open>w\<close> to do ends.\<close>

definition all_end :: "graph \<Rightarrow> string \<Rightarrow> nat \<Rightarrow> bool" where
  "all_end g name w \<longleftrightarrow>
     (\<forall>v attr p. attr_name attr = name \<longrightarrow> work g name p < w \<longrightarrow> pipeline_ok g p \<longrightarrow> in_range g name v \<longrightarrow> ends g v attr p)"

lemma endsE:
  assumes "ends g v attr p"
  obtains p' r where "traverse g v attr p = Some (p', r)" "kept g (attr_name attr) p p'"
  using assms by (auto simp: ends_def)

lemma all_endE:
  assumes "all_end g (attr_name attr) w" "work g (attr_name attr) p < w" "pipeline_ok g p" "in_range g (attr_name attr) v"
  obtains p' r where "traverse g v attr p = Some (p', r)" "kept g (attr_name attr) p p'"
proof -
  have "ends g v attr p" using assms unfolding all_end_def by blast
  then show ?thesis using that by (rule endsE)
qed

lemma keptD:
  assumes "kept g name p p'"
  shows "pipeline_ok g p'" "work g name p' \<le> work g name p"
  using assms by (simp_all add: kept_def)

lemma in_range_neighbours:
  assumes "graph_ok g" "m < length g"
  shows "in_range g name (Upstreams (upstream g m))" "in_range g name (Downstreams (downstream g m))"
  using assms unfolding in_range_def graph_ok_def visit.case by blast+

lemma Identify_ends:
  assumes "graph_ok g" "all_end g (attr_name attr) w"
    "work g (attr_name attr) (set_scope_attr m i (AddModuleToComponent m attr p)) < w"
    "pipeline_ok g (AddModuleToComponent m attr p)" "m < length g"
  shows "\<exists>p' r. traverse g (Identify m i) attr p = Some (p', r) \<and>
    kept g (attr_name attr) (AddModuleToComponent m attr p) p'"
proof -
  let ?n = "attr_name attr" and ?q = "set_scope_attr m i (AddModuleToComponent m attr p)"
  have k1: "kept g ?n (AddModuleToComponent m attr p) ?q" using set_scope_attr_kept [OF assms(4)] .
  have k2: "kept g ?n ?q (set_scope m (current ?q) ?q)" using mark_kept [OF keptD(1) [OF k1]] .
  have less: "work g ?n (set_scope m (current ?q) ?q) < w" using keptD(2) [OF k2] assms(3) by (rule le_less_trans)
  obtain p' r where p': "traverse g (Downstreams (downstream g m)) attr (set_scope m (current ?q) ?q) = Some (p', r)"
    "kept g ?n (set_scope m (current ?q) ?q) p'"
    using all_endE [OF assms(2) less keptD(1) [OF k2] in_range_neighbours(2) [OF assms(1,5)]] by metis
  have "traverse g (Identify m i) attr p = Some (p', r)" using p'(1) by (simp add: traverse.simps [of g "Identify m i"] Let_def)
  then show ?thesis using k1 k2 p'(2) keptI_trans by metis
qed

lemma Pass_ends:
  assumes "graph_ok g" "all_end g (attr_name attr) w" "work g (attr_name attr) p \<le> w" "pipeline_ok g p"
    "m < length g" "\<not> writes g (attr_name attr) m"
  shows "ends g (Pass m) attr p"
proof (cases "module_scopes p m = current p")
  case True
  then have "traverse g (Pass m) attr p = Some (p, True)" by (simp add: traverse.simps [of g "Pass m"])
  then show ?thesis using kept_refl [OF assms(4)] by (auto simp: ends_def)
next
  case False
  let ?p = "set_scope m (current p) p"
  have w: "work g (attr_name attr) ?p < w" using mark_less [OF assms(4,5,6) False] assms(3) by (rule less_le_trans)
  have "in_range g (attr_name attr) (Upstreams (upstream g m))" using in_range_neighbours [OF assms(1,5)] by blast
  moreover have "pipeline_ok g ?p" using assms(4) by simp
  ultimately obtain p' r where p': "traverse g (Upstreams (upstream g m)) attr ?p = Some (p', r)" "kept g (attr_name attr) ?p p'"
    using all_endE [OF assms(2) w] by metis
  let ?q = "if igates (g ! m) = [] then update_back (\<lambda>c. c\<lparr>sc_invalid := True\<rparr>) p' else p'"
  have "kept g (attr_name attr) p' ?q" using set_invalid_kept kept_refl keptD(1) [OF p'(2)] by simp
  then have "kept g (attr_name attr) p ?q" using keptI_trans mark_kept [OF assms(4)] p'(2) by metis
  moreover have "traverse g (Pass m) attr p = Some (?q, True)"
    using False p'(1) by (simp add: traverse.simps [of g "Pass m"])
  ultimately show ?thesis unfolding ends_def by metis
qed

lemma Upstream_ends:
  assumes "graph_ok g" "all_end g (attr_name attr) w" "work g (attr_name attr) p \<le> w" "pipeline_ok g p" "m < length g"
  shows "ends g (Upstream m) attr p"
proof -
  let ?n = "attr_name attr" and ?p = "AddModuleToComponent m attr p"
  have k: "kept g ?n p ?p" using AddModuleToComponent_kept [OF assms(4)] .
  have ok: "pipeline_ok g ?p" "work g ?n ?p \<le> w" using keptD [OF k] assms(3) by auto
  show ?thesis
  proof (cases "writes g ?n m")
    case False
    have "ends g (Pass m) attr ?p" using Pass_ends [OF assms(1,2) ok(2,1) assms(5) False] .
    then obtain p' r where p': "traverse g (Pass m) attr ?p = Some (p', r)" "kept g ?n ?p p'" by (rule endsE)
    have "traverse g (Upstream m) attr p = Some (p', r)"
      using False p'(1) by (auto simp: traverse.simps [of g "Upstream m"] Let_def FindAttr_def writes_def split: option.splits)
    then show ?thesis using keptI_trans [OF k p'(2)] unfolding ends_def by blast
  next
    case True
    then obtain i where i: "attr_index g m ?n = Some i" "attr_mode (all_attrs (g ! m) ! i) = kWrite"
      by (auto simp: writes_def split: option.splits)
    let ?a = "all_attrs (g ! m) ! i"
    have name: "attr_name ?a = ?n" using attr_index_Some(2) [OF i(1)] .
    show ?thesis
    proof (cases "scope_ids ?p m i = - 1")
      case False
      then have "traverse g (Upstream m) attr p = Some (?p, True)"
        using i by (simp add: traverse.simps [of g "Upstream m"] Let_def FindAttr_def)
      then show ?thesis using k unfolding ends_def by blast
    next
      case new: True
      let ?q = "AddModuleToComponent m ?a ?p"
      have k1: "kept g ?n ?p ?q" using AddModuleToComponent_kept [OF ok(1)] .
      have s: "scope_ids ?q m i = - 1" using new by (simp add: AddModuleToComponent_def)
      have "work g ?n (set_scope_attr m i ?q) < w"
        using set_scope_attr_less [OF keptD(1) [OF k1] assms(5) True i(1) s] keptD(2) [OF k1] ok(2) by simp
      then obtain p' r where p': "traverse g (Identify m i) ?a ?p = Some (p', r)" "kept g ?n ?q p'"
        using Identify_ends [OF assms(1) _ _ keptD(1) [OF k1] assms(5), of w i] assms(2) name by metis
      have "traverse g (Upstream m) attr p = traverse g (Identify m i) ?a ?p"
        using i new by (simp add: traverse.simps [of g "Upstream m"] Let_def FindAttr_def)
      then show ?thesis using k k1 p' keptI_trans unfolding ends_def by metis
    qed
  qed
qed

lemma Upstreams_ends:
  assumes "graph_ok g" "all_end g (attr_name attr) w" "work g (attr_name attr) p \<le> w" "pipeline_ok g p" "\<forall>m\<in>set ms. m < length g"
  shows "ends g (Upstreams ms) attr p"
  using assms(3-5)
proof (induction ms arbitrary: p)
  case Nil
  then show ?case using kept_refl by (auto simp: ends_def traverse.simps [of g "Upstreams []"])
next
  case (Cons m ms)
  have "ends g (Upstream m) attr p" using Upstream_ends [OF assms(1,2) Cons.prems(1,2)] Cons.prems(3) by simp
  then obtain p1 r1 where p1: "traverse g (Upstream m) attr p = Some (p1, r1)" "kept g (attr_name attr) p p1" by (rule endsE)
  have "ends g (Upstreams ms) attr p1" using Cons.IH [of p1] keptD [OF p1(2)] Cons.prems by simp
  then obtain p2 r2 where p2: "traverse g (Upstreams ms) attr p1 = Some (p2, r2)" "kept g (attr_name attr) p1 p2" by (rule endsE)
  have "traverse g (Upstreams (m # ms)) attr p = Some (p2, r2)" using p1(1) p2(1) by (simp add: traverse.simps [of g "Upstreams (m # ms)"])
  then show ?case using keptI_trans [OF p1(2) p2(2)] unfolding ends_def by blast
qed

text \<open>From a module that is in scope the traversal goes up again, with the mark of the module taken away.\<close>

lemma Upstream_again:
  assumes "graph_ok g" "all_end g (attr_name attr) w" "work g (attr_name attr) q < w" "pipeline_ok g q" "m < length g"
  shows "\<exists>p' r. traverse g (Upstream m) attr (set_scope m (- 1) q) = Some (p', r) \<and> pipeline_ok g p' \<and>
    current p' = current q \<and> attr_offsets p' = attr_offsets q \<and> work g (attr_name attr) p' \<le> Suc (work g (attr_name attr) q)"
proof -
  have w: "work g (attr_name attr) (set_scope m (- 1) q) \<le> Suc (work g (attr_name attr) q)" by (rule unmark_work)
  then have "work g (attr_name attr) (set_scope m (- 1) q) \<le> w" using assms(3) by linarith
  moreover have "pipeline_ok g (set_scope m (- 1) q)" using assms(4) by simp
  ultimately have "ends g (Upstream m) attr (set_scope m (- 1) q)" using Upstream_ends [OF assms(1,2) _ _ assms(5)] by blast
  then obtain p' r where p': "traverse g (Upstream m) attr (set_scope m (- 1) q) = Some (p', r)"
    "kept g (attr_name attr) (set_scope m (- 1) q) p'" by (rule endsE)
  then show ?thesis using w unfolding kept_def set_scope_ok by (meson le_trans)
qed

text \<open>The modules downstream first, then up again; between them at most what \<open>f\<close> does to the component.\<close>

lemma Downstreams_Upstream:
  assumes "graph_ok g" "all_end g (attr_name attr) (work g (attr_name attr) p)" "pipeline_ok g p" "m < length g"
    "kept g (attr_name attr) p q" "work g (attr_name attr) q < work g (attr_name attr) p"
    "\<And>q. pipeline_ok g q \<Longrightarrow> kept g (attr_name attr) q (f q)"
  obtains q1 r1 p' r where "traverse g (Downstreams (downstream g m)) attr q = Some (q1, r1)" "kept g (attr_name attr) p q1"
    "traverse g (Upstream m) attr (set_scope m (- 1) (f q1)) = Some (p', r)" "kept g (attr_name attr) p p'"
proof -
  let ?n = "attr_name attr"
  obtain q1 r1 where q1: "traverse g (Downstreams (downstream g m)) attr q = Some (q1, r1)" "kept g ?n q q1"
    using all_endE [OF assms(2,6) keptD(1) [OF assms(5)] in_range_neighbours(2) [OF assms(1,4)]] by metis
  have f: "kept g ?n q (f q1)" using keptI_trans [OF q1(2)] assms(7) keptD(1) [OF q1(2)] by blast
  then have "work g ?n (f q1) < work g ?n p" using keptD(2) [OF f] assms(6) by linarith
  from Upstream_again [OF assms(1,2) this keptD(1) [OF f] assms(4)]
  obtain p' r where p': "traverse g (Upstream m) attr (set_scope m (- 1) (f q1)) = Some (p', r)" "pipeline_ok g p'"
    "current p' = current (f q1)" "attr_offsets p' = attr_offsets (f q1)" "work g ?n p' \<le> Suc (work g ?n (f q1))" by blast
  then have "kept g ?n p p'" using f assms(5) \<open>work g ?n (f q1) < work g ?n p\<close> by (auto simp: kept_def)
  then show ?thesis using that q1 p'(1) keptI_trans [OF assms(5) q1(2)] by blast
qed

lemma Downstream_ends:
  assumes "graph_ok g" "all_end g (attr_name attr) (work g (attr_name attr) p)" "pipeline_ok g p" "m < length g"
  shows "ends g (Downstream m) attr p"
proof -
  let ?n = "attr_name attr" and ?q = "set_scope m (current p) p"
  have k: "kept g ?n p ?q" using mark_kept [OF assms(3)] .
  consider "module_scopes p m = current p" | "module_scopes p m \<noteq> current p" "writes g ?n m"
    | "module_scopes p m \<noteq> current p" "\<not> writes g ?n m" by blast
  then show ?thesis
  proof cases
    case 1
    then have "traverse g (Downstream m) attr p = Some (p, False)" by (simp add: traverse.simps [of g "Downstream m"])
    then show ?thesis using kept_refl [OF assms(3)] unfolding ends_def by blast
  next
    case 2
    then have "traverse g (Downstream m) attr p = Some (set_scope m (- 1) ?q, False)"
      by (auto simp: traverse.simps [of g "Downstream m"] Let_def FindAttr_def writes_def split: option.splits)
    moreover have "kept g ?n ?q (set_scope m (- 1) ?q)" using unmark_writer_kept [OF keptD(1) [OF k] 2(2)] .
    ultimately show ?thesis using keptI_trans [OF k] unfolding ends_def by blast
  next
    case 3
    then have less: "work g ?n ?q < work g ?n p" using mark_less [OF assms(3,4)] by blast
    show ?thesis
    proof (cases "attr_index g m ?n")
      case None
      obtain q1 r1 p' r where r: "traverse g (Downstreams (downstream g m)) attr ?q = Some (q1, r1)" "kept g ?n p q1"
        "traverse g (Upstream m) attr (set_scope m (- 1) (AddModuleToComponent m attr q1)) = Some (p', r)" "kept g ?n p p'"
        using Downstreams_Upstream [OF assms k less, of "AddModuleToComponent m attr"] AddModuleToComponent_kept by metis
      have "traverse g (Downstream m) attr p = Some (if r1 then (p', True) else (q1, False))"
        using 3(1) None r(1,3) by (simp add: traverse.simps [of g "Downstream m"] Let_def FindAttr_def)
      then show ?thesis using r(2,4) unfolding ends_def by (cases r1) auto
    next
      case (Some i)
      let ?q' = "set_scope_attr m i (AddModuleToComponent m (all_attrs (g ! m) ! i) ?q)"
      have k': "kept g ?n ?q ?q'" using keptI_trans AddModuleToComponent_kept set_scope_attr_kept keptD(1) k by metis
      have less': "work g ?n ?q' < work g ?n p" using keptD(2) [OF k'] less by (rule le_less_trans)
      obtain q1 r1 p' r where r: "traverse g (Downstreams (downstream g m)) attr ?q' = Some (q1, r1)"
        "traverse g (Upstream m) attr (set_scope m (- 1) q1) = Some (p', r)" "kept g ?n p p'"
        using Downstreams_Upstream [OF assms keptI_trans [OF k k'] less', of "\<lambda>q. q"] kept_refl by metis
      have "attr_mode (all_attrs (g ! m) ! i) \<noteq> kWrite" using 3(2) Some by (simp add: writes_def)
      then have "attr_mode (all_attrs (g ! m) ! i) = kRead \<or> attr_mode (all_attrs (g ! m) ! i) = kUpdate"
        by (cases "attr_mode (all_attrs (g ! m) ! i)") simp_all
      then have "traverse g (Downstream m) attr p = Some (p', True)"
        using 3(1) Some r(1,2) by (simp add: traverse.simps [of g "Downstream m"] Let_def FindAttr_def)
      then show ?thesis using r(3) unfolding ends_def by blast
    qed
  qed
qed

lemma Downstreams_ends:
  assumes "graph_ok g" "all_end g (attr_name attr) w" "work g (attr_name attr) p \<le> w" "pipeline_ok g p" "\<forall>m\<in>set ms. m < length g"
  shows "ends g (Downstreams ms) attr p"
  using assms(3-5)
proof (induction ms arbitrary: p)
  case Nil
  then show ?case using kept_refl by (auto simp: ends_def traverse.simps [of g "Downstreams []"])
next
  case (Cons m ms)
  have "all_end g (attr_name attr) (work g (attr_name attr) p)"
    using assms(2) Cons.prems(1) unfolding all_end_def by (meson less_le_trans)
  from Downstream_ends [OF assms(1) this Cons.prems(2)] have "ends g (Downstream m) attr p" using Cons.prems(3) by simp
  then obtain p1 r1 where p1: "traverse g (Downstream m) attr p = Some (p1, r1)" "kept g (attr_name attr) p p1" by (rule endsE)
  have "ends g (Downstreams ms) attr p1" using Cons.IH [of p1] keptD [OF p1(2)] Cons.prems by simp
  then obtain p2 r2 where p2: "traverse g (Downstreams ms) attr p1 = Some (p2, r2)" "kept g (attr_name attr) p1 p2" by (rule endsE)
  have "traverse g (Downstreams (m # ms)) attr p = Some (p2, r1 \<or> r2)"
    using p1(1) p2(1) by (simp add: traverse.simps [of g "Downstreams (m # ms)"])
  then show ?case using keptI_trans [OF p1(2) p2(2)] unfolding ends_def by blast
qed

lemma traverse_ends:
  assumes "graph_ok g"
  shows "all_end g name w"
proof (induction w)
  case 0
  then show ?case by (simp add: all_end_def)
next
  case (Suc w)
  have "ends g v attr p" if "attr_name attr = name" "work g name p < Suc w" "pipeline_ok g p" "in_range g name v" for v attr p
  proof -
    have e: "all_end g (attr_name attr) w" "work g (attr_name attr) p \<le> w" using Suc that(1,2) by auto
    then have e': "all_end g (attr_name attr) (work g (attr_name attr) p)" unfolding all_end_def by (meson less_le_trans)
    show ?thesis
    proof (cases v)
      case (Upstream m)
      then show ?thesis using Upstream_ends [OF assms e that(3)] that(4) by (simp add: in_range_def)
    next
      case (Pass m)
      then show ?thesis using Pass_ends [OF assms e that(3)] that(1,4) by (simp add: in_range_def)
    next
      case (Upstreams ms)
      then show ?thesis using Upstreams_ends [OF assms e that(3)] that(4) by (simp add: in_range_def)
    next
      case (Downstream m)
      then show ?thesis using Downstream_ends [OF assms e' that(3)] that(4) by (simp add: in_range_def)
    next
      case (Downstreams ms)
      then show ?thesis using Downstreams_ends [OF assms e that(3)] that(4) by (simp add: in_range_def)
    qed (use that(4) in \<open>simp add: in_range_def\<close>)
  qed
  then show ?case by (simp add: all_end_def)
qed

section \<open>All attributes\<close>

text \<open>Components found so far are well formed; there may be none yet.\<close>

definition components_ok :: "graph \<Rightarrow> pipeline \<Rightarrow> bool" where
  "components_ok g p \<longleftrightarrow> (\<forall>c\<in>set (scope_components p). component_ok g c)"

lemma IdentifySingleScopeComponent_ends:
  assumes "graph_ok g" "components_ok g p" "current p < 32767" "m < length g" "k < length (all_attrs (g ! m))"
  shows "\<exists>p'. IdentifySingleScopeComponent g m k p = Some p' \<and> components_ok g p' \<and> current p' = current p + 1 \<and>
    attr_offsets p' = attr_offsets p"
proof -
  let ?a = "all_attrs (g ! m) ! k" and ?p = "p\<lparr>scope_components := scope_components p @ [new_component]\<rparr>"
  let ?q = "AddModuleToComponent m ?a ?p"
  have "has_attr g (attr_name ?a) (int (attr_size ?a))" unfolding has_attr_def using assms(4,5) nth_mem by blast
  then have q: "pipeline_ok g ?q" "current ?q = current p + 1" "attr_offsets ?q = attr_offsets p"
    using assms(2,3) by (auto simp: AddModuleToComponent_def update_back_def pipeline_ok_def components_ok_def component_ok_def
        current_def new_component_def Let_def)
  have "all_end g (attr_name ?a) (Suc (work g (attr_name ?a) (set_scope_attr m k ?q)))" using traverse_ends [OF assms(1)] .
  then obtain p' r where p': "traverse g (Identify m k) ?a ?p = Some (p', r)" "kept g (attr_name ?a) ?q p'"
    using Identify_ends [OF assms(1) _ lessI q(1) assms(4)] by metis
  let ?r = "update_back (\<lambda>c. c\<lparr>sc_scope_id := signed_take_bit 15 (current p')\<rparr>) p'"
  have "kept g (attr_name ?a) p' ?r" by (rule update_back_kept [OF keptD(1) [OF p'(2)]]) (simp add: component_ok_def)
  then have "kept g (attr_name ?a) ?q ?r" using keptI_trans p'(2) by blast
  moreover have "IdentifySingleScopeComponent g m k p = Some ?r" using p'(1) by (simp add: IdentifySingleScopeComponent_def Let_def)
  ultimately show ?thesis using q(2,3) by (simp add: kept_def pipeline_ok_def components_ok_def)
qed

lemma attr_offsets_ok [simp]: "components_ok g (p\<lparr>attr_offsets := offs\<rparr>) = components_ok g p" "current (p\<lparr>attr_offsets := offs\<rparr>) = current p"
  by (simp_all add: components_ok_def current_def)

lemma set_attr_offset_get: "set_attr_offset m k off offs m' k' =
    (if m' = m \<and> k' = k \<and> k < kMaxAttrsPerModule then off else offs m' k')"
  by (simp add: set_attr_offset_def)

text \<open>The attributes of \<open>l\<close> are without a place, the others as before.\<close>

definition places_removed :: "(nat \<times> nat) set \<Rightarrow> pipeline \<Rightarrow> pipeline \<Rightarrow> bool" where
  "places_removed l p q \<longleftrightarrow> (\<forall>m k. attr_offsets q m k < 0 \<or>
     ((m, k) \<in> l \<longrightarrow> kMaxAttrsPerModule \<le> k) \<and> attr_offsets q m k = attr_offsets p m k)"

lemma places_removed_set:
  assumes "off < 0" "attr_offsets q = set_attr_offset m k off (attr_offsets p)"
  shows "places_removed {(m, k)} p q"
  using assms by (auto simp: places_removed_def set_attr_offset_get)

lemma places_removed_trans:
  assumes "places_removed l p q" "places_removed l' q r"
  shows "places_removed (l \<union> l') p r"
  using assms unfolding places_removed_def by (metis Un_iff)

lemma identify_one:
  assumes "graph_ok g" "components_ok g p" "current p < 32767" "m < length g" "k < length (all_attrs (g ! m))"
  shows "\<exists>q. identify_attrs g ((m, k) # rest) p = identify_attrs g rest q \<and> components_ok g q \<and> current q \<le> current p + 1 \<and>
    places_removed {(m, k)} p q"
proof (cases "attr_mode (all_attrs (g ! m) ! k) = kWrite \<and> scope_ids p m k = - 1")
  case True
  let ?p = "p\<lparr>attr_offsets := set_attr_offset m k kMetadataOffsetNoWrite (attr_offsets p)\<rparr>"
  obtain q where q: "IdentifySingleScopeComponent g m k ?p = Some q" "components_ok g q" "current q = current p + 1"
    "attr_offsets q = attr_offsets ?p"
    using IdentifySingleScopeComponent_ends [OF assms(1) _ _ assms(4,5), of ?p] assms(2,3) by auto
  then have "identify_attrs g ((m, k) # rest) p = identify_attrs g rest q" using True by (simp add: Let_def)
  moreover have "places_removed {(m, k)} p q"
    using q(4) by (intro places_removed_set [of kMetadataOffsetNoWrite]) (simp_all add: offset_defs)
  ultimately show ?thesis using q(2,3) by (intro exI [of _ q]) simp
next
  case False
  define off where "off = (if attr_mode (all_attrs (g ! m) ! k) = kWrite then kMetadataOffsetNoWrite else kMetadataOffsetNoRead)"
  define q where "q = p\<lparr>attr_offsets := set_attr_offset m k off (attr_offsets p)\<rparr>"
  have "identify_attrs g ((m, k) # rest) p = identify_attrs g rest q"
    using False by (auto simp: q_def off_def Let_def)
  moreover have "components_ok g q" "current q = current p" using assms(2) by (simp_all add: q_def)
  moreover have "places_removed {(m, k)} p q" by (intro places_removed_set [of off]) (simp_all add: q_def off_def offset_defs)
  ultimately show ?thesis by (intro exI [of _ q]) simp
qed

lemma identify_attrs_ends:
  assumes "graph_ok g" "components_ok g p" "\<forall>(m, k)\<in>set l. m < length g \<and> k < length (all_attrs (g ! m))"
    "current p + int (length l) \<le> 32767"
  shows "\<exists>q. identify_attrs g l p = Some q \<and> components_ok g q \<and> places_removed (set l) p q"
  using assms(2-4)
proof (induction l arbitrary: p)
  case Nil
  then show ?case by (simp add: places_removed_def)
next
  case (Cons mk l)
  obtain m k where mk: "mk = (m, k)" by fastforce
  have "current p < 32767" "m < length g" "k < length (all_attrs (g ! m))" using Cons.prems(2,3) mk by auto
  then obtain q where q: "identify_attrs g ((m, k) # l) p = identify_attrs g l q" "components_ok g q" "current q \<le> current p + 1"
    "places_removed {(m, k)} p q"
    using identify_one [OF assms(1) Cons.prems(1), of m k l] by blast
  have "current q + int (length l) \<le> 32767" "\<forall>(m, k)\<in>set l. m < length g \<and> k < length (all_attrs (g ! m))"
    using q(3) Cons.prems(2,3) by auto
  then obtain r where "identify_attrs g l q = Some r" "components_ok g r" "places_removed (set l) q r"
    using Cons.IH [OF q(2)] by blast
  then show ?case using q(1) places_removed_trans [OF q(4)] mk by fastforce
qed

lemma set_positions: "set (positions g) = {(m, k). m < length g \<and> k < length (all_attrs (g ! m))}"
  by (auto simp: positions_def)

text \<open>The components of all attributes, and every attribute of the graph without a place.\<close>

lemma identify_positions:
  assumes "graph_ok g" "scope_components p = []" "length (positions g) \<le> 32767"
  shows "\<exists>q. identify_attrs g (positions g) (PrepareMetadataComputation p) = Some q \<and> components_ok g q \<and>
    (\<forall>m<length g. \<forall>k<length (all_attrs (g ! m)). k < kMaxAttrsPerModule \<longrightarrow> attr_offsets q m k < 0)"
proof -
  let ?p = "PrepareMetadataComputation p"
  have p: "components_ok g ?p" "current ?p + int (length (positions g)) \<le> 32767"
    using assms(2,3) by (simp_all add: PrepareMetadataComputation_def components_ok_def current_def)
  have "\<forall>(m, k)\<in>set (positions g). m < length g \<and> k < length (all_attrs (g ! m))" by (auto simp: set_positions)
  from identify_attrs_ends [OF assms(1) p(1) this p(2)] show ?thesis by (force simp: set_positions places_removed_def)
qed

text \<open>
  C16. \<^verbatim>\<open>ComputeMetadataOffsets\<close> returns on every module graph, cycles included, and leaves no component behind,
  as long as the graph has at most 32767 attributes: the cycle detection of the traversals compares a 16-bit
  mark with the number of components.
\<close>

theorem ComputeMetadataOffsets_terminates:
  assumes "graph_ok g" "scope_components p = []" "length (positions g) \<le> 32767"
  shows "\<exists>p'. ComputeMetadataOffsets srt pops g p = Some p' \<and> scope_components p' = []"
  using identify_positions [OF assms] by (auto simp: ComputeMetadataOffsets_def CleanupMetadataComputation_def Let_def)

text \<open>Two modules in a cycle; the first writes what the second reads.\<close>

definition cycle_graph :: graph where
  "cycle_graph =
     [\<lparr>all_attrs = [\<lparr>attr_name = ''a'', attr_size = 4, attr_mode = kWrite\<rparr>], igates = [Some [1]], ogates = [Some 1]\<rparr>,
      \<lparr>all_attrs = [\<lparr>attr_name = ''a'', attr_size = 4, attr_mode = kRead\<rparr>], igates = [Some [0]], ogates = [Some 0]\<rparr>]"

definition empty_pipeline :: pipeline where
  "empty_pipeline = \<lparr>scope_components = [], module_scopes = (\<lambda>_. 0), scope_ids = (\<lambda>_ _. 0), attr_offsets = (\<lambda>_ _. 0)\<rparr>"

theorem ComputeMetadataOffsets_terminates_witness:
  "\<exists>p'. ComputeMetadataOffsets (\<lambda>cs. cs) (\<lambda>cs. cs) cycle_graph empty_pipeline = Some p' \<and> scope_components p' = []"
proof (rule ComputeMetadataOffsets_terminates)
  show "graph_ok cycle_graph"
    by (simp add: graph_ok_def cycle_graph_def upstream_def downstream_def less_Suc_eq numeral_2_eq_2)
  show "length (positions cycle_graph) \<le> 32767" by (simp add: positions_def cycle_graph_def upt_rec)
qed (simp add: empty_pipeline_def)

end
