(* ===== verification/Metadata_Properties.thy ===== *)
theory Metadata_Properties
  imports Metadata_Traverse
begin

text \<open>
  Places of attributes: when the components that were placed before a component and share a
  module with it also share modules with each other, no two attributes of a module overlap; when
  they do not, the loop of \<^verbatim>\<open>AssignOffsets\<close> can go back to bytes that are taken.
\<close>

section \<open>The next offset\<close>

lemma int8_small: "0 \<le> x \<Longrightarrow> x \<le> 127 \<Longrightarrow> int8 x = x"
  by (simp add: int8_def signed_take_bit_int_eq_self_iff)

lemma int8_big:
  assumes "128 \<le> x" "x \<le> 255"
  shows "int8 x = x - 256"
proof -
  have "int8 x = int8 (x - 256)" by (simp add: int8_def signed_take_bit_eq_iff_take_bit_eq take_bit_eq_mod mod_diff_right_eq)
  also have "\<dots> = x - 256" using assms by (simp add: int8_def signed_take_bit_int_eq_self_iff)
  finally show ?thesis .
qed

lemma align_ceil_unat:
  assumes "unat v + unat a < 2 ^ 64" "0 < unat a"
  shows "unat (align_ceil v a) = (unat v + unat a - 1) div unat a * unat a"
proof -
  have s: "unat (v + a - 1) = unat v + unat a - 1"
  proof -
    have "unat (v + a) = unat v + unat a" using assms(1) by (simp add: unat_word_ariths)
    moreover have "1 \<le> v + a" using calculation assms(2) by (simp add: word_le_nat_alt)
    ultimately show ?thesis by (simp add: unat_sub)
  qed
  have "(v + a - 1) mod a \<le> v + a - 1" by (simp add: word_le_nat_alt unat_mod_distrib)
  then have "unat (v + a - 1 - (v + a - 1) mod a) = unat (v + a - 1) - unat (v + a - 1) mod unat a"
    by (simp add: unat_sub unat_mod_distrib)
  then show ?thesis using s by (simp add: align_ceil_def align_floor_def minus_mod_eq_div_mult)
qed

lemma rounded_size:
  assumes "1 \<le> sz" "sz \<le> 32"
  shows "\<exists>a\<in>{1, 2, 4, 8, 16, 32}. int8 (uint (align_ceil_pow2 (of_int (int8 sz)))) = a \<and> sz \<le> a"
proof -
  have "sz \<in> set (map int [1..<33])" using assms by (auto intro!: image_eqI [of _ _ "nat sz"])
  moreover have "list_all (\<lambda>sz. list_ex (\<lambda>a. int8 (uint (align_ceil_pow2 (of_int (int8 sz)))) = a \<and> sz \<le> a) [1, 2, 4, 8, 16, 32])
      (map int [1..<33])" by code_simp
  ultimately show ?thesis by (fastforce simp: list_all_iff list_ex_iff)
qed

lemma div_mult_between:
  fixes n a :: nat
  assumes "0 < a"
  shows "n \<le> (n + a - 1) div a * a" "(n + a - 1) div a * a \<le> n + a - 1"
proof -
  have "(n + a - 1) div a * a + (n + a - 1) mod a = n + a - 1" by simp
  moreover have "(n + a - 1) mod a \<le> a - 1" using assms by (simp add: less_Suc_eq_le [symmetric])
  ultimately show "n \<le> (n + a - 1) div a * a" "(n + a - 1) div a * a \<le> n + a - 1" using assms by linarith+
qed

lemma small_align:
  assumes "a \<in> {1, 2, 4, 8, 16, 32}" "unat v + 32 < 2 ^ 64"
  shows "unat v \<le> unat (align_ceil v (of_int a))" "int (unat (align_ceil v (of_int a))) \<le> int (unat v) + a - 1"
proof -
  have a: "int (unat (of_int a :: u64)) = a" "0 < unat (of_int a :: u64)" "unat (of_int a :: u64) \<le> 32" using assms(1) by auto
  have "unat (align_ceil v (of_int a)) = (unat v + unat (of_int a :: u64) - 1) div unat (of_int a :: u64) * unat (of_int a :: u64)"
    using align_ceil_unat [of v "of_int a"] a assms(2) by simp
  then have "unat v \<le> unat (align_ceil v (of_int a))" "unat (align_ceil v (of_int a)) \<le> unat v + unat (of_int a :: u64) - 1"
    using div_mult_between [OF a(2), of "unat v"] by simp_all
  then show "unat v \<le> unat (align_ceil v (of_int a))" "int (unat (align_ceil v (of_int a))) \<le> int (unat v) + a - 1"
    using a(1,2) by linarith+
qed

lemma aligned_up:
  assumes "a \<in> {1, 2, 4, 8, 16, 32}" "0 \<le> c" "c \<le> 127"
  shows "\<exists>d. int8 (uint (align_ceil (of_int c) (of_int a))) = int8 d \<and> c \<le> d \<and> d \<le> c + a - 1"
proof -
  have u: "int (unat (of_int c :: u64)) = c" using assms(2,3) by (simp add: unsigned_of_int take_bit_int_eq_self_iff)
  have "unat (of_int c :: u64) \<le> 127" using u assms(3) by linarith
  then have "unat (of_int c :: u64) + 32 < 2 ^ 64" by simp
  note s = small_align [OF assms(1) this]
  have "c \<le> int (unat (align_ceil (of_int c) (of_int a)))" "int (unat (align_ceil (of_int c) (of_int a))) \<le> c + a - 1"
    using s u by linarith+
  then show ?thesis unfolding uint_nat by blast
qed

lemma aligned_negative:
  assumes "a \<in> {1, 2, 4, 8, 16, 32}" "- 128 \<le> c" "c \<le> - 97"
  shows "- 128 \<le> int8 (uint (align_ceil (of_int c) (of_int a)))" "int8 (uint (align_ceil (of_int c) (of_int a))) \<le> - 66"
proof -
  define x where "x = uint (align_ceil (of_int c) (of_int a)) - 2 ^ 64"
  have "c mod 2 ^ 64 = (c + 2 ^ 64) mod 2 ^ 64" by simp
  also have "\<dots> = c + 2 ^ 64" using assms(2,3) by (intro mod_pos_pos_trivial) simp_all
  finally have u: "int (unat (of_int c :: u64)) = c + 2 ^ 64"
    unfolding uint_nat [symmetric] unsigned_of_int by (simp add: take_bit_eq_mod)
  have "int (unat (of_int c :: u64) + 32) < int (2 ^ 64)" using u assms(3) by simp
  then have "unat (of_int c :: u64) + 32 < 2 ^ 64" by (simp only: of_nat_less_iff)
  note s = small_align [OF assms(1) this]
  have x: "c \<le> x" "x \<le> c + a - 1" unfolding x_def uint_nat using s u by linarith+
  have "a \<le> 32" using assms(1) by auto
  then have range: "- 128 \<le> x" "x \<le> - 66" using x assms(2,3) by linarith+
  have "int8 (uint (align_ceil (of_int c) (of_int a))) = int8 (x + 2 ^ 64)" by (simp add: x_def)
  also have "\<dots> = int8 x"
    using mod_mult_self2 [of x 256 72057594037927936] by (simp add: int8_def signed_take_bit_eq_iff_take_bit_eq take_bit_eq_mod)
  also have "\<dots> = x" using range by (simp add: int8_def signed_take_bit_int_eq_self_iff)
  finally show "- 128 \<le> int8 (uint (align_ceil (of_int c) (of_int a)))" "int8 (uint (align_ceil (of_int c) (of_int a))) \<le> - 66"
    using range by simp_all
qed

lemma no_space:
  assumes "1 \<le> sz" "sz \<le> 32" "- 128 \<le> c" "c \<le> 127"
  shows "(of_int c + of_int sz :: u32) > of_nat kMetadataTotalSize \<longleftrightarrow> c + sz > 128 \<or> c + sz < 0"
proof -
  have w: "(of_int c + of_int sz :: u32) = of_int (c + sz)" by simp
  have k: "uint (of_nat kMetadataTotalSize :: u32) = 128" by (simp add: kMetadataTotalSize_def snbuf_defs)
  show ?thesis
  proof (cases "c + sz < 0")
    case True
    have "(c + sz) mod 2 ^ 32 = (c + sz + 2 ^ 32) mod 2 ^ 32" by simp
    also have "\<dots> = c + sz + 2 ^ 32" using assms True by (intro mod_pos_pos_trivial) simp_all
    finally have "uint (of_int (c + sz) :: u32) = c + sz + 2 ^ 32" unfolding unsigned_of_int by (simp add: take_bit_eq_mod)
    then show ?thesis unfolding w word_less_def using k True assms by simp
  next
    case False
    then have "uint (of_int (c + sz) :: u32) = c + sz"
      unfolding unsigned_of_int using assms by (simp add: take_bit_int_eq_self_iff)
    then show ?thesis unfolding w word_less_def using k False by simp
  qed
qed

text \<open>The next aligned offset that leaves room for an attribute, or none; none only near the end of the area.\<close>

lemma ComputeNextOffset_spec:
  assumes "0 \<le> cur" "cur \<le> 159" "1 \<le> sz" "sz \<le> 32"
  shows "ComputeNextOffset cur sz = kMetadataOffsetNoSpace \<and> 97 < cur + sz \<or>
    cur \<le> ComputeNextOffset cur sz \<and> ComputeNextOffset cur sz + sz \<le> 128"
proof -
  obtain a where a: "a \<in> {1, 2, 4, 8, 16, 32}" "int8 (uint (align_ceil_pow2 (of_int (int8 sz)))) = a" "sz \<le> a"
    using rounded_size [OF assms(3,4)] by blast
  have a32: "a \<le> 32" using a(1) by auto
  have s: "int8 sz = sz" using assms(3,4) by (intro int8_small) simp_all
  define c' where "c' = (if int8 cur mod a \<noteq> 0 then int8 (uint (align_ceil (of_int (int8 cur)) (of_int a))) else int8 cur)"
  have r: "ComputeNextOffset cur sz = (if (of_int c' + of_int sz :: u32) > of_nat kMetadataTotalSize then kMetadataOffsetNoSpace else c')"
    by (simp add: ComputeNextOffset_def Let_def a(2) [unfolded s] s c'_def)
  show ?thesis
  proof (cases "cur \<le> 127")
    case True
    then have c: "int8 cur = cur" using assms(1) by (rule int8_small [rotated])
    obtain d where d: "c' = int8 d" "cur \<le> d" "d \<le> cur + a - 1"
    proof (cases "cur mod a = 0")
      case True
      then show ?thesis using that [of cur] c a(3) assms(3) by (simp add: c'_def)
    next
      case False
      then show ?thesis using that aligned_up [OF a(1) assms(1) \<open>cur \<le> 127\<close>] c by (auto simp: c'_def)
    qed
    show ?thesis
    proof (cases "d \<le> 127")
      case True
      then have "c' = d" using d(1,2) assms(1) int8_small by simp
      then show ?thesis using r d a32 no_space [OF assms(3,4), of d] True assms(1,3) by auto
    next
      case False
      then have "c' = d - 256" using d(1,3) a32 \<open>cur \<le> 127\<close> int8_big by simp
      then show ?thesis using r d a32 no_space [OF assms(3,4), of c'] False \<open>cur \<le> 127\<close> assms(3,4) by auto
    qed
  next
    case False
    then have c: "int8 cur = cur - 256" using assms(2) int8_big by simp
    have "- 128 \<le> c' \<and> c' \<le> - 66"
      using aligned_negative [OF a(1), of "cur - 256"] False assms(2) c by (auto simp: c'_def)
    then show ?thesis using r no_space [OF assms(3,4), of c'] assms(3,4) False by auto
  qed
qed

section \<open>Placing one component\<close>

definition sized :: "scope_component \<Rightarrow> bool" where
  "sized c \<longleftrightarrow> 1 \<le> sc_size c \<and> sc_size c \<le> 32"

definition in_area :: "scope_component \<Rightarrow> bool" where
  "in_area c \<longleftrightarrow> 0 \<le> sc_offset c \<and> sc_offset c + sc_size c \<le> 128"

definition placed_ok :: "scope_component \<Rightarrow> bool" where
  "placed_ok c \<longleftrightarrow> sized c \<and>
     (sc_offset c \<in> {kMetadataOffsetNoRead, kMetadataOffsetNoWrite, kMetadataOffsetNoSpace} \<or> in_area c)"

abbreviation ending :: "scope_component \<Rightarrow> int" where
  "ending c \<equiv> sc_offset c + sc_size c"

definition clear_of :: "scope_component \<Rightarrow> scope_component \<Rightarrow> bool" where
  "clear_of c d \<longleftrightarrow> ending c \<le> sc_offset d \<or> ending d \<le> sc_offset c"

definition in_order :: "scope_component list \<Rightarrow> bool" where
  "in_order h \<longleftrightarrow> sorted_wrt (\<lambda>c d. sc_offset c \<le> sc_offset d \<and> (in_area c \<longrightarrow> in_area d \<longrightarrow> ending c \<le> ending d)) h"

text \<open>The endings passed so far are at most \<open>e\<close>.\<close>

lemma place_spec:
  assumes "in_order h" "\<forall>c\<in>set h. placed_ok c" "1 \<le> sz" "sz \<le> 32" "\<forall>c\<in>set h. in_area c \<longrightarrow> e \<le> ending c"
    "off = kMetadataOffsetNoSpace \<or> 0 \<le> off \<and> off + sz \<le> 128 \<and> e \<le> off"
  shows "place sz h off = kMetadataOffsetNoSpace \<or>
    0 \<le> place sz h off \<and> place sz h off + sz \<le> 128 \<and> e \<le> place sz h off \<and>
    (\<forall>c\<in>set h. in_area c \<longrightarrow> place sz h off + sz \<le> sc_offset c \<or> ending c \<le> place sz h off)"
  using assms
proof (induction h arbitrary: off e)
  case (Cons c h)
  have ord: "in_order h" "\<forall>d\<in>set h. sc_offset c \<le> sc_offset d" "\<forall>d\<in>set h. in_area c \<longrightarrow> in_area d \<longrightarrow> ending c \<le> ending d"
    using Cons.prems(1) by (auto simp: in_order_def)
  have ok: "\<forall>d\<in>set h. placed_ok d" using Cons.prems(2) by simp
  show ?case
  proof (cases "in_area c")
    case False
    then have skip: "sc_offset c \<in> {kMetadataOffsetNoRead, kMetadataOffsetNoWrite, kMetadataOffsetNoSpace}"
      using Cons.prems(2) by (auto simp: placed_ok_def)
    have "\<forall>d\<in>set h. in_area d \<longrightarrow> e \<le> ending d" using Cons.prems(5) by simp
    from Cons.IH [OF ord(1) ok assms(3,4) this Cons.prems(6)] show ?thesis using skip False by auto
  next
    case True
    then have c: "sc_offset c \<notin> {kMetadataOffsetNoRead, kMetadataOffsetNoWrite, kMetadataOffsetNoSpace}" "0 \<le> sc_offset c"
      "ending c \<le> 128" "sc_size c \<le> 32" "1 \<le> sc_size c" "e \<le> ending c"
      using Cons.prems(2,5) by (auto simp: in_area_def offset_defs placed_ok_def sized_def)
    show ?thesis
    proof (cases "off + sz > sc_offset c")
      case False
      have "off + sz \<le> sc_offset d" if "d \<in> set h" for d using False ord(2) that by fastforce
      then show ?thesis using False c(1) Cons.prems(6) by auto
    next
      case more: True
      define off' where "off' = ComputeNextOffset (ending c) sz"
      have inv: "off' = kMetadataOffsetNoSpace \<or> 0 \<le> off' \<and> off' + sz \<le> 128 \<and> ending c \<le> off'"
        unfolding off'_def using ComputeNextOffset_spec [of "ending c" sz] c assms(3,4) by linarith
      have "\<forall>d\<in>set h. in_area d \<longrightarrow> ending c \<le> ending d" using ord(3) True by blast
      from Cons.IH [OF ord(1) ok assms(3,4) this inv] show ?thesis
        using c(1,6) more by (auto simp: off'_def)
    qed
  qed
qed auto

section \<open>Placing all components\<close>

definition heap_order :: "(scope_component list \<Rightarrow> scope_component list) \<Rightarrow> bool" where
  "heap_order pops \<longleftrightarrow> (\<forall>cs. mset (pops cs) = mset cs \<and> sorted_wrt (\<lambda>c d. sc_offset c \<le> sc_offset d) (pops cs))"

abbreviation conflict :: "scope_component list \<Rightarrow> nat \<Rightarrow> nat \<Rightarrow> bool" where
  "conflict cs i j \<equiv> \<not> DisjointFrom (cs ! i) (cs ! j)"

definition cliques :: "scope_component list \<Rightarrow> bool" where
  "cliques cs \<longleftrightarrow> (\<forall>i<length cs. \<forall>j<i. \<forall>k<i. j \<noteq> k \<longrightarrow> conflict cs i j \<longrightarrow> conflict cs i k \<longrightarrow> conflict cs j k)"

definition static :: "scope_component \<Rightarrow> nat list \<times> int \<times> bool \<times> string" where
  "static c = (sc_modules c, sc_size c, sc_invalid c, sc_attr_id c)"

lemma DisjointFrom_sym: "DisjointFrom c d \<longleftrightarrow> DisjointFrom d c"
  by (auto simp: DisjointFrom_def list_all_iff)

lemma DisjointFrom_static: "static c = static c' \<Longrightarrow> static d = static d' \<Longrightarrow> DisjointFrom c d = DisjointFrom c' d'"
  by (simp add: static_def DisjointFrom_def)

lemma clear_of_sym: "clear_of c d \<longleftrightarrow> clear_of d c"
  by (auto simp: clear_of_def)

definition done_upto :: "nat \<Rightarrow> scope_component list \<Rightarrow> bool" where
  "done_upto i cs \<longleftrightarrow>
     (\<forall>j<length cs. sized (cs ! j)) \<and> (\<forall>j<length cs. i \<le> j \<longrightarrow> \<not> sc_assigned (cs ! j)) \<and>
     (\<forall>j<length cs. sc_assigned (cs ! j) \<longrightarrow> placed_ok (cs ! j)) \<and>
     (\<forall>j<length cs. \<forall>k<length cs. j \<noteq> k \<longrightarrow> conflict cs j k \<longrightarrow> sc_assigned (cs ! j) \<longrightarrow> sc_assigned (cs ! k) \<longrightarrow>
        in_area (cs ! j) \<longrightarrow> in_area (cs ! k) \<longrightarrow> clear_of (cs ! j) (cs ! k))"

lemma neighbours_in_order:
  assumes "done_upto i cs" "cliques cs" "i < length cs" "heap_order pops"
  shows "in_order (pops (neighbours cs i))" "\<forall>c\<in>set (pops (neighbours cs i)). placed_ok c"
proof -
  let ?h = "pops (neighbours cs i)"
  have h: "set ?h = set (neighbours cs i)" "sorted_wrt (\<lambda>c d. sc_offset c \<le> sc_offset d) ?h"
    using assms(4) unfolding heap_order_def by (metis set_mset_mset, blast)
  have mem: "\<exists>j<i. c = cs ! j \<and> conflict cs i j \<and> sc_assigned c \<and> j < length cs" if "c \<in> set ?h" for c
  proof -
    have "c \<in> set (neighbours cs i)" using that h(1) by simp
    then obtain j where j: "j < length cs" "c = cs ! j" "conflict cs i j" "sc_assigned c" by (auto simp: neighbours_def)
    have "\<forall>j<length cs. i \<le> j \<longrightarrow> \<not> sc_assigned (cs ! j)" using assms(1) by (simp add: done_upto_def)
    then have "j < i" using j not_le by blast
    then show ?thesis using j by blast
  qed
  show "\<forall>c\<in>set ?h. placed_ok c" using mem assms(1) unfolding done_upto_def by blast
  have "ending c \<le> ending d" if cd: "c \<in> set ?h" "d \<in> set ?h" "sc_offset c \<le> sc_offset d" "in_area c" "in_area d" for c d
  proof -
    obtain j k where j: "j < i" "c = cs ! j" "conflict cs i j" "sc_assigned c" "j < length cs"
      and k: "k < i" "d = cs ! k" "conflict cs i k" "sc_assigned d" "k < length cs"
      using mem cd(1,2) by metis
    show ?thesis
    proof (cases "j = k")
      case False
      then have "conflict cs j k" using assms(2,3) j(1,3) k(1,3) by (simp add: cliques_def)
      then have "clear_of c d" using assms(1) False j k cd(4,5) unfolding done_upto_def by blast
      moreover have "1 \<le> sc_size c" "1 \<le> sc_size d" using assms(1) j(2,5) k(2,5) by (auto simp: done_upto_def sized_def)
      ultimately show ?thesis using cd(3) by (auto simp: clear_of_def)
    qed (simp add: j(2) k(2))
  qed
  then show "in_order ?h" unfolding in_order_def by (intro sorted_wrt_mono_rel [OF _ h(2)]) auto
qed

lemma assign_one_frame:
  assumes "i < length cs"
  shows "length (assign_one pops i cs) = length cs" "\<forall>j<length cs. static (assign_one pops i cs ! j) = static (cs ! j)"
    "\<forall>j<length cs. j \<noteq> i \<longrightarrow> assign_one pops i cs ! j = cs ! j"
  using assms by (auto simp: assign_one_def Let_def static_def nth_list_update)

lemma assign_one_component:
  assumes "done_upto i cs" "cliques cs" "i < length cs" "heap_order pops"
    "c = assign_one pops i cs ! i" "sc_assigned c"
  shows "placed_ok c" "\<forall>j<length cs. j \<noteq> i \<longrightarrow> conflict cs i j \<longrightarrow> sc_assigned (cs ! j) \<longrightarrow> in_area c \<longrightarrow> in_area (cs ! j) \<longrightarrow> clear_of c (cs ! j)"
proof -
  have sz: "sized (cs ! i)" "\<not> sc_assigned (cs ! i)" using assms(1,3) by (auto simp: done_upto_def)
  note ord = neighbours_in_order [OF assms(1-4)]
  have set: "set (pops (neighbours cs i)) = set (neighbours cs i)" using assms(4) unfolding heap_order_def by (metis set_mset_mset)
  let ?off = "place (sc_size (cs ! i)) (pops (neighbours cs i)) 0"
  have p: "?off = kMetadataOffsetNoSpace \<or> 0 \<le> ?off \<and> ?off + sc_size (cs ! i) \<le> 128 \<and>
      (\<forall>c\<in>set (neighbours cs i). in_area c \<longrightarrow> ?off + sc_size (cs ! i) \<le> sc_offset c \<or> ending c \<le> ?off)"
  proof -
    have "\<forall>c\<in>set (pops (neighbours cs i)). in_area c \<longrightarrow> 0 \<le> ending c"
      using ord(2) by (auto simp: placed_ok_def sized_def in_area_def)
    from place_spec [OF ord _ _ this, of "sc_size (cs ! i)" 0] show ?thesis
      using sz(1) unfolding set sized_def by auto
  qed
  show "placed_ok c"
  proof (cases "sc_invalid (cs ! i)")
    case True
    then show ?thesis using assms(3,5) sz by (auto simp: assign_one_def Let_def placed_ok_def sized_def)
  next
    case False
    then show ?thesis using assms(3,5,6) sz p by (auto simp: assign_one_def Let_def placed_ok_def sized_def in_area_def split: if_splits)
  qed
  show "\<forall>j<length cs. j \<noteq> i \<longrightarrow> conflict cs i j \<longrightarrow> sc_assigned (cs ! j) \<longrightarrow> in_area c \<longrightarrow> in_area (cs ! j) \<longrightarrow> clear_of c (cs ! j)"
  proof (intro allI impI)
    fix j assume j: "j < length cs" "j \<noteq> i" "conflict cs i j" "sc_assigned (cs ! j)" "in_area c" "in_area (cs ! j)"
    have n: "cs ! j \<in> set (neighbours cs i)" using j(1-4) by (auto simp: neighbours_def)
    have c: "sc_offset c = ?off" "sc_size c = sc_size (cs ! i)"
      using assms(3,5,6) sz(2) j(5) by (auto simp: assign_one_def Let_def in_area_def offset_defs split: if_splits)
    then have "0 \<le> ?off" using j(5) by (simp add: in_area_def)
    then show "clear_of c (cs ! j)" using p n j(6) c by (auto simp: clear_of_def offset_defs)
  qed
qed

lemma done_step:
  assumes "done_upto i cs" "cliques cs" "i < length cs" "heap_order pops"
  shows "done_upto (Suc i) (assign_one pops i cs)"
proof -
  let ?cs = "assign_one pops i cs"
  note fr = assign_one_frame [OF assms(3), of pops]
  note comp = assign_one_component [OF assms refl]
  have conf: "conflict ?cs j k \<longleftrightarrow> conflict cs j k" if "j < length cs" "k < length cs" for j k
    using DisjointFrom_static fr(2) that by blast
  have sz: "sized (?cs ! j)" if "j < length cs" for j
    using assms(1) fr(2) that by (auto simp: done_upto_def sized_def static_def)
  show ?thesis
    unfolding done_upto_def fr(1)
  proof (intro conjI allI impI)
    fix j assume j: "j < length cs"
    show "sized (?cs ! j)" using sz [OF j] .
    show "\<not> sc_assigned (?cs ! j)" if "Suc i \<le> j" using that assms(1) fr(3) j by (auto simp: done_upto_def)
    show "placed_ok (?cs ! j)" if "sc_assigned (?cs ! j)"
      using that comp(1) assms(1) fr(3) j by (cases "j = i") (auto simp: done_upto_def)
    fix k assume k: "k < length cs" "j \<noteq> k" "conflict ?cs j k" "sc_assigned (?cs ! j)" "sc_assigned (?cs ! k)"
      "in_area (?cs ! j)" "in_area (?cs ! k)"
    have c: "conflict cs j k" using k(3) conf [OF j k(1)] by simp
    consider "j = i" | "k = i" | "j \<noteq> i" "k \<noteq> i" by blast
    then show "clear_of (?cs ! j) (?cs ! k)"
    proof cases
      case 1
      then show ?thesis using comp(2) k c fr(3) by metis
    next
      case 2
      then have "clear_of (?cs ! i) (?cs ! j)" using comp(2) k c fr(3) j DisjointFrom_sym by metis
      then show ?thesis using 2 clear_of_sym by blast
    next
      case 3
      then show ?thesis using assms(1) fr(3) j k c unfolding done_upto_def by metis
    qed
  qed
qed

lemma assign_upto:
  assumes "done_upto 0 cs" "cliques cs" "heap_order pops" "n \<le> length cs"
  shows "length (fold (assign_one pops) [0..<n] cs) = length cs \<and> done_upto n (fold (assign_one pops) [0..<n] cs) \<and>
    (\<forall>j<length cs. static (fold (assign_one pops) [0..<n] cs ! j) = static (cs ! j)) \<and>
    (\<forall>j<n. sc_assigned (fold (assign_one pops) [0..<n] cs ! j) \<or> length (sc_modules (cs ! j)) = 1)"
  using assms(4)
proof (induction n)
  case 0
  then show ?case using assms(1) by simp
next
  case (Suc n)
  let ?cs = "fold (assign_one pops) [0..<n] cs"
  have IH: "length ?cs = length cs" "done_upto n ?cs" "\<forall>j<length cs. static (?cs ! j) = static (cs ! j)"
    "\<forall>j<n. sc_assigned (?cs ! j) \<or> length (sc_modules (cs ! j)) = 1" using Suc by auto
  have n: "n < length ?cs" using Suc.prems IH(1) by simp
  have "DisjointFrom (?cs ! i) (?cs ! j) = DisjointFrom (cs ! i) (cs ! j)" if "i < length cs" "j < length cs" for i j
    using DisjointFrom_static IH(3) that by blast
  then have cl: "cliques ?cs" using assms(2) unfolding cliques_def IH(1) by (metis less_trans)
  note fr = assign_one_frame [OF n, of pops]
  have "static (?cs ! n) = static (cs ! n)" using IH(3) n IH(1) by simp
  then have "sc_assigned (assign_one pops n ?cs ! n) \<or> length (sc_modules (cs ! n)) = 1"
    using n by (auto simp: assign_one_def Let_def static_def)
  then show ?case using done_step [OF IH(2) cl n assms(3)] IH fr n by (auto simp: less_Suc_eq)
qed

section \<open>Offsets of the attributes\<close>

text \<open>At most 16 attributes a module; attributes of one name have one size, at least 1 and at most 32 bytes; as \<^verbatim>\<open>AddMetadataAttr\<close> checks.\<close>

definition attributes_ok :: "graph \<Rightarrow> bool" where
  "attributes_ok g \<longleftrightarrow> (\<forall>m<length g. length (all_attrs (g ! m)) \<le> kMaxAttrsPerModule) \<and> (\<forall>m<length g. \<forall>a\<in>set (all_attrs (g ! m)). 1 \<le> attr_size a \<and> attr_size a \<le> 32 \<and>
     (\<forall>n<length g. \<forall>b\<in>set (all_attrs (g ! n)). attr_name a = attr_name b \<longrightarrow> attr_size a = attr_size b))"

definition has_place :: "scope_component \<Rightarrow> bool" where
  "has_place c \<longleftrightarrow> \<not> sc_invalid c \<and> length (sc_modules c) \<noteq> 1 \<and> 0 \<le> sc_offset c"

text \<open>An offset after \<^verbatim>\<open>FillOffsetArrays\<close> is the one before, negative, or that of a component with the module.\<close>

definition filled :: "graph \<Rightarrow> scope_component \<Rightarrow> nat \<Rightarrow> nat \<Rightarrow> int \<Rightarrow> bool" where
  "filled g c m k off \<longleftrightarrow> m \<in> set (sc_modules c) \<and> attr_index g m (sc_attr_id c) = Some k \<and> has_place c \<and> off = sc_offset c"

lemma fold_invariant:
  assumes "P s" "\<And>x s. x \<in> set xs \<Longrightarrow> P s \<Longrightarrow> P (f x s)"
  shows "P (fold f xs s)"
  using assms by (induction xs arbitrary: s) auto

lemma fill_module_value:
  assumes "n \<in> set (sc_modules c)" "off = (if length (sc_modules c) = 1 then kMetadataOffsetNoWrite else sc_offset c)"
  shows "fill_module g c off n offs m k = offs m k \<or> fill_module g c off n offs m k < 0 \<or>
    filled g c m k (fill_module g c off n offs m k)"
  using assms
  by (auto simp: fill_module_def set_attr_offset_def filled_def has_place_def offset_defs not_less split: option.splits)

lemma fill_component_value:
  "fill_component g c offs m k = offs m k \<or> fill_component g c offs m k < 0 \<or> filled g c m k (fill_component g c offs m k)"
  unfolding fill_component_def
proof (rule fold_invariant [where P = "\<lambda>s. s m k = offs m k \<or> s m k < 0 \<or> filled g c m k (s m k)"])
  fix n s
  let ?s = "fill_module g c (if length (sc_modules c) = 1 then kMetadataOffsetNoWrite else sc_offset c) n s"
  assume n: "n \<in> set (sc_modules c)" and s: "s m k = offs m k \<or> s m k < 0 \<or> filled g c m k (s m k)"
  have "?s m k = s m k \<or> ?s m k < 0 \<or> filled g c m k (?s m k)" using fill_module_value [OF n refl] .
  then show "?s m k = offs m k \<or> ?s m k < 0 \<or> filled g c m k (?s m k)" using s by (elim disjE) simp_all
qed simp

lemma FillOffsetArrays_value:
  "FillOffsetArrays g cs offs m k = offs m k \<or> FillOffsetArrays g cs offs m k < 0 \<or>
    (\<exists>c\<in>set cs. filled g c m k (FillOffsetArrays g cs offs m k))"
  unfolding FillOffsetArrays_def
proof (rule fold_invariant [where P = "\<lambda>s. s m k = offs m k \<or> s m k < 0 \<or> (\<exists>c\<in>set cs. filled g c m k (s m k))"])
  fix c s
  let ?s = "fill_component g c s"
  assume c: "c \<in> set cs" and s: "s m k = offs m k \<or> s m k < 0 \<or> (\<exists>c\<in>set cs. filled g c m k (s m k))"
  have "?s m k = s m k \<or> ?s m k < 0 \<or> filled g c m k (?s m k)" using fill_component_value .
  then show "?s m k = offs m k \<or> ?s m k < 0 \<or> (\<exists>c\<in>set cs. filled g c m k (?s m k))"
    using s c by (elim disjE) (simp_all, blast+)
qed simp

lemma ComputeScopeDegrees_ok: "c \<in> set (ComputeScopeDegrees cs) \<Longrightarrow> \<forall>c\<in>set cs. component_ok g c \<Longrightarrow> component_ok g c"
  by (auto simp: ComputeScopeDegrees_def component_ok_def)

lemma start_done:
  assumes "attributes_ok g" "\<forall>c\<in>set cs. component_ok g c"
  shows "done_upto 0 cs"
proof -
  have "sized c" "\<not> sc_assigned c" if "c \<in> set cs" for c
  proof -
    have c: "component_ok g c" using assms(2) that by blast
    then show "\<not> sc_assigned c" by (simp add: component_ok_def)
    obtain m a where a: "m < length g" "a \<in> set (all_attrs (g ! m))" "int (attr_size a) = sc_size c"
      using c unfolding component_ok_def has_attr_def by blast
    then have "1 \<le> attr_size a \<and> attr_size a \<le> 32" using assms(1) unfolding attributes_ok_def by blast
    then show "sized c" using a(3) unfolding sized_def by linarith
  qed
  then show ?thesis by (simp add: done_upto_def)
qed

lemma assign_all_apart:
  assumes "heap_order pops" "cliques cs" "done_upto 0 cs" "i < length cs" "has_place (assign_all pops cs ! i)"
  shows "in_area (assign_all pops cs ! i)"
    "j < length cs \<Longrightarrow> j \<noteq> i \<Longrightarrow> conflict (assign_all pops cs) i j \<Longrightarrow> has_place (assign_all pops cs ! j) \<Longrightarrow>
       clear_of (assign_all pops cs ! i) (assign_all pops cs ! j)"
proof -
  let ?ds = "assign_all pops cs"
  have ds: "length ?ds = length cs" "done_upto (length cs) ?ds" "\<forall>j<length cs. static (?ds ! j) = static (cs ! j)"
    "\<forall>j<length cs. sc_assigned (?ds ! j) \<or> length (sc_modules (cs ! j)) = 1"
    using assign_upto [OF assms(3,2,1) le_refl] by (simp_all add: assign_all_def)
  have place: "sc_assigned (?ds ! j) \<and> in_area (?ds ! j)" if "j < length cs" "has_place (?ds ! j)" for j
  proof -
    have "sc_modules (?ds ! j) = sc_modules (cs ! j)" using ds(3) that(1) by (simp add: static_def)
    then have a: "sc_assigned (?ds ! j)" using ds(4) that by (metis has_place_def)
    then have "placed_ok (?ds ! j)" using ds(1,2) that(1) by (simp add: done_upto_def)
    then show ?thesis using a that(2) by (auto simp: placed_ok_def has_place_def offset_defs)
  qed
  show "in_area (?ds ! i)" using place [OF assms(4,5)] by simp
  show "clear_of (?ds ! i) (?ds ! j)" if "j < length cs" "j \<noteq> i" "conflict ?ds i j" "has_place (?ds ! j)"
    using ds(1,2) place [OF assms(4,5)] place [OF that(1,4)] that assms(4) unfolding done_upto_def by metis
qed

text \<open>
  C15. Every attribute that gets a place in the metadata area belongs to a scope component with that offset and the
  attribute's size, inside the 128 bytes of the area, and no other placed component with a module in common has a
  byte in common with it. A module has at most 16 attributes, and those of one name have one size of at most 32 bytes. The sort and the priority
  queue may break ties in any way. The components placed before a component that share a module with it must
  also share modules with each other: without that the property fails.
\<close>

theorem ComputeMetadataOffsets_apart:
  assumes "heap_order pops" "\<And>cs. mset (srt cs) = mset cs" "graph_ok g" "attributes_ok g" "length (positions g) \<le> 32767"
    "scope_components p = []" "identify_attrs g (positions g) (PrepareMetadataComputation p) = Some q"
    "cliques (srt (ComputeScopeDegrees (scope_components q)))"
    "ComputeMetadataOffsets srt pops g p = Some p'" "m < length g" "k < length (all_attrs (g ! m))" "0 \<le> attr_offsets p' m k"
  shows "let ds = assign_all pops (srt (ComputeScopeDegrees (scope_components q)))
    in \<exists>i<length ds. m \<in> set (sc_modules (ds ! i)) \<and> sc_attr_id (ds ! i) = attr_name (all_attrs (g ! m) ! k) \<and>
      sc_offset (ds ! i) = attr_offsets p' m k \<and> sc_size (ds ! i) = int (attr_size (all_attrs (g ! m) ! k)) \<and>
      attr_offsets p' m k + int (attr_size (all_attrs (g ! m) ! k)) \<le> 128 \<and>
      (\<forall>j<length ds. j \<noteq> i \<longrightarrow> \<not> DisjointFrom (ds ! i) (ds ! j) \<longrightarrow> has_place (ds ! j) \<longrightarrow> clear_of (ds ! i) (ds ! j))"
proof -
  let ?cs = "srt (ComputeScopeDegrees (scope_components q))"
  let ?ds = "assign_all pops ?cs"
  have "k < kMaxAttrsPerModule" using assms(4,10,11) by (meson attributes_ok_def less_le_trans)
  then have q: "components_ok g q" "attr_offsets q m k < 0" using identify_positions [OF assms(3,6,5)] assms(7,10,11) by auto
  have "set ?cs = set (ComputeScopeDegrees (scope_components q))" using assms(2) by (metis set_mset_mset)
  then have ok: "\<forall>c\<in>set ?cs. component_ok g c" using ComputeScopeDegrees_ok q(1) by (auto simp: components_ok_def)
  note start = start_done [OF assms(4) ok]
  have ds: "length ?ds = length ?cs" "\<forall>j<length ?cs. static (?ds ! j) = static (?cs ! j)"
    using assign_upto [OF start assms(8,1) le_refl] by (simp_all add: assign_all_def)
  have "attr_offsets p' = FillOffsetArrays g ?ds (attr_offsets q)"
    using assms(7,9) by (auto simp: ComputeMetadataOffsets_def AssignOffsets_def CleanupMetadataComputation_def Let_def)
  then obtain i where i: "i < length ?cs" "filled g (?ds ! i) m k (attr_offsets p' m k)"
    using FillOffsetArrays_value [of g ?ds "attr_offsets q" m k] q(2) assms(12) ds(1) by (metis in_set_conv_nth not_less)
  have f: "m \<in> set (sc_modules (?ds ! i))" "attr_index g m (sc_attr_id (?ds ! i)) = Some k" "has_place (?ds ! i)"
    "sc_offset (?ds ! i) = attr_offsets p' m k" using i(2) by (simp_all add: filled_def)
  have name: "attr_name (all_attrs (g ! m) ! k) = sc_attr_id (?ds ! i)" using attr_index_Some(2) [OF f(2)] .
  have "has_attr g (sc_attr_id (?ds ! i)) (sc_size (?ds ! i))"
    using ok ds(2) i(1) nth_mem [OF i(1)] by (simp add: component_ok_def static_def)
  then have size: "sc_size (?ds ! i) = int (attr_size (all_attrs (g ! m) ! k))"
    using assms(4,10) nth_mem [OF assms(11)] name unfolding has_attr_def attributes_ok_def by metis
  note apart = assign_all_apart [OF assms(1,8) start i(1) f(3)]
  have "attr_offsets p' m k + int (attr_size (all_attrs (g ! m) ! k)) \<le> 128" using apart(1) f(4) size by (simp add: in_area_def)
  then show ?thesis unfolding Let_def using i(1) f(1,4) name size apart(2) ds(1) by metis
qed

section \<open>Two pipelines\<close>

definition by_degree :: "scope_component list \<Rightarrow> scope_component list" where
  "by_degree = sort_key (\<lambda>c. - int (sc_degree c))"

definition by_offset :: "scope_component list \<Rightarrow> scope_component list" where
  "by_offset = sort_key sc_offset"

lemma by_offset_heap_order: "heap_order by_offset"
  unfolding heap_order_def by_offset_def sorted_map [of sc_offset, symmetric] by simp

lemma by_degree_sorts: "mset (by_degree cs) = mset cs" "sorted_wrt (\<lambda>c d. \<not> DegreeComp d c) (by_degree cs)"
proof -
  have "sorted_wrt (\<lambda>c d. - int (sc_degree c) \<le> - int (sc_degree d)) (by_degree cs)"
    unfolding by_degree_def sorted_map [of "\<lambda>c. - int (sc_degree c)", symmetric] by (rule sorted_sort_key)
  then show "sorted_wrt (\<lambda>c d. \<not> DegreeComp d c) (by_degree cs)"
    by (rule sorted_wrt_mono_rel [rotated]) (simp add: DegreeComp_def)
qed (simp add: by_degree_def)

text \<open>The \<open>i\<close>-th of \<open>n\<close> modules in a row.\<close>

definition module_in_row :: "nat \<Rightarrow> nat \<Rightarrow> (string \<times> nat \<times> access_mode) list \<Rightarrow> pmodule" where
  "module_in_row n i attrs = \<lparr>all_attrs = map (\<lambda>(name, sz, mode). \<lparr>attr_name = name, attr_size = sz, attr_mode = mode\<rparr>) attrs,
     igates = (if i = 0 then [] else [Some [i - 1]]), ogates = (if Suc i = n then [] else [Some (Suc i)])\<rparr>"

definition two_attributes :: graph where
  "two_attributes = [module_in_row 2 0 [(''a'', 4, kWrite), (''b'', 2, kWrite)], module_in_row 2 1 [(''a'', 4, kRead), (''b'', 2, kRead)]]"

lemma two_attributes_evaluated:
  "map_option (\<lambda>q. length (scope_components q)) (identify_attrs two_attributes (positions two_attributes) (PrepareMetadataComputation empty_pipeline)) = Some 2"
  "map_option (\<lambda>p. attr_offsets p 0 1) (ComputeMetadataOffsets by_degree by_offset two_attributes empty_pipeline) = Some 4"
  "length (positions two_attributes) = 4" "length two_attributes = 2" "length (all_attrs (two_attributes ! 0)) = 2"
  "scope_components empty_pipeline = []"
  by code_simp+

lemma two_attributes_ok: "graph_ok two_attributes" "attributes_ok two_attributes"
  by (simp_all add: graph_ok_def attributes_ok_def two_attributes_def module_in_row_def upstream_def downstream_def
      less_Suc_eq numeral_2_eq_2 kMaxAttrsPerModule_def)

lemma cliques_of_two: "length cs \<le> 2 \<Longrightarrow> cliques cs"
  by (auto simp: cliques_def)

theorem ComputeMetadataOffsets_apart_witness:
  "\<exists>q p'. identify_attrs two_attributes (positions two_attributes) (PrepareMetadataComputation empty_pipeline) = Some q \<and>
    ComputeMetadataOffsets by_degree by_offset two_attributes empty_pipeline = Some p' \<and> attr_offsets p' 0 1 = 4 \<and>
    (let ds = assign_all by_offset (by_degree (ComputeScopeDegrees (scope_components q)))
     in \<exists>i<length ds. 0 \<in> set (sc_modules (ds ! i)) \<and> sc_attr_id (ds ! i) = attr_name (all_attrs (two_attributes ! 0) ! 1) \<and>
      sc_offset (ds ! i) = attr_offsets p' 0 1 \<and> sc_size (ds ! i) = int (attr_size (all_attrs (two_attributes ! 0) ! 1)) \<and>
      attr_offsets p' 0 1 + int (attr_size (all_attrs (two_attributes ! 0) ! 1)) \<le> 128 \<and>
      (\<forall>j<length ds. j \<noteq> i \<longrightarrow> \<not> DisjointFrom (ds ! i) (ds ! j) \<longrightarrow> has_place (ds ! j) \<longrightarrow> clear_of (ds ! i) (ds ! j)))"
proof -
  obtain q where q: "identify_attrs two_attributes (positions two_attributes) (PrepareMetadataComputation empty_pipeline) = Some q"
    "length (scope_components q) = 2" using two_attributes_evaluated(1) by auto
  obtain p' where p': "ComputeMetadataOffsets by_degree by_offset two_attributes empty_pipeline = Some p'" "attr_offsets p' 0 1 = 4"
    using two_attributes_evaluated(2) by auto
  have "length (by_degree (ComputeScopeDegrees (scope_components q))) = 2"
    using q(2) by (simp add: by_degree_def ComputeScopeDegrees_def)
  then have cl: "cliques (by_degree (ComputeScopeDegrees (scope_components q)))" by (simp add: cliques_of_two)
  have b: "length (positions two_attributes) \<le> 32767" "0 < length two_attributes" "1 < length (all_attrs (two_attributes ! 0))"
    "0 \<le> attr_offsets p' 0 1" using two_attributes_evaluated(3-5) p'(2) by simp_all
  note apart = ComputeMetadataOffsets_apart [OF by_offset_heap_order by_degree_sorts(1) two_attributes_ok b(1) two_attributes_evaluated(6) q(1) cl
      p'(1) b(2-4)]
  then show ?thesis using q(1) p' by blast
qed

definition overlap_graph :: graph where
  "overlap_graph = [
     module_in_row 8 0 [(''c'', 16, kWrite), (''s'', 1, kWrite), (''t'', 1, kWrite)],
     module_in_row 8 1 [(''d'', 1, kWrite)],
     module_in_row 8 2 [(''c'', 16, kRead)],
     module_in_row 8 3 [(''d'', 1, kRead), (''b'', 4, kWrite)],
     module_in_row 8 4 [(''u'', 1, kWrite)],
     module_in_row 8 5 [(''b'', 4, kRead), (''e'', 4, kWrite)],
     module_in_row 8 6 [(''v'', 1, kWrite), (''w'', 1, kWrite), (''x'', 1, kWrite)],
     module_in_row 8 7 [(''e'', 4, kRead)]]"

lemma overlap_graph_offsets:
  "case ComputeMetadataOffsets by_degree by_offset overlap_graph empty_pipeline of None \<Rightarrow> False
   | Some p \<Rightarrow> attr_offsets p 0 0 = 0 \<and> attr_offsets p 1 0 = 8 \<and> attr_offsets p 2 0 = 0"
  by code_simp

text \<open>
  The offsets of one pipeline of eight modules in a row. Module 0 writes the 16 bytes of \<open>c\<close> at offset 0, module 2
  reads them there, and module 1 between them writes \<open>d\<close> at offset 8, inside \<open>c\<close>. The component of \<open>d\<close> is compared
  with that of \<open>c\<close> (bytes 0 to 15) and then with that of \<open>b\<close> (bytes 4 to 7, no module in common with \<open>c\<close>), and the
  second comparison moves the offset back from 16 to 8. The orders used are those of the sort and of the queue.
\<close>

lemma ComputeMetadataOffsets_overlap:
  "\<exists>srt pops p. heap_order pops \<and> (\<forall>cs. mset (srt cs) = mset cs \<and> sorted_wrt (\<lambda>c d. \<not> DegreeComp d c) (srt cs)) \<and>
    ComputeMetadataOffsets srt pops overlap_graph empty_pipeline = Some p \<and>
    all_attrs (overlap_graph ! 0) ! 0 = \<lparr>attr_name = ''c'', attr_size = 16, attr_mode = kWrite\<rparr> \<and> attr_offsets p 0 0 = 0 \<and>
    all_attrs (overlap_graph ! 1) ! 0 = \<lparr>attr_name = ''d'', attr_size = 1, attr_mode = kWrite\<rparr> \<and> attr_offsets p 1 0 = 8 \<and>
    all_attrs (overlap_graph ! 2) ! 0 = \<lparr>attr_name = ''c'', attr_size = 16, attr_mode = kRead\<rparr> \<and> attr_offsets p 2 0 = 0"
  using overlap_graph_offsets by_offset_heap_order by_degree_sorts
  by (intro exI [of _ by_degree] exI [of _ by_offset])
    (auto simp: overlap_graph_def module_in_row_def split: option.splits)

end
