(* ===== verification/Spec2Isabelle.thy ===== *)
theory Spec2Isabelle
  imports Cuckoo_Properties Lock_Less_Queue Checksum_Properties Fteid Pdr_Lookup Far_Tunnel Metadata_Properties
begin

text \<open>
  A verification library for the user plane function of this repository: the PFCP agent in Go
  (\<^verbatim>\<open>src/pfcpiface\<close>) and the packet datapath in C++ (\<^verbatim>\<open>src/bess/core\<close>).

  \<^bold>\<open>The program.\<close> The agent receives sessions from the control plane as PFCP messages. It reads
  rules from information elements (packet detection, forwarding action and QoS enforcement rules),
  leases UE addresses and tunnel endpoint identifiers, keeps the rules of every session, and hands
  batches of rules to a driver. The driver turns each rule into commands for the modules of the
  datapath. The datapath is a graph of modules that pass batches of packets: headers are parsed and
  checked, \<^verbatim>\<open>pdrLookup\<close> (a \<^verbatim>\<open>WildcardMatch\<close>) classifies a packet and writes the identifiers of its
  session and rules into its metadata, \<^verbatim>\<open>farLookup\<close> (an \<^verbatim>\<open>ExactMatch\<close>) writes the action and the
  tunnel, and \<^verbatim>\<open>GtpuEncap\<close> or \<^verbatim>\<open>GtpuDecap\<close> puts the packet in a tunnel or takes it out.

  \<^bold>\<open>Conventions.\<close> Integers keep their width as words. A class or struct is a record, an operation
  a function from state to state. An operation that has no result in the source, because it leaves
  an object, fails a \<^verbatim>\<open>CHECK\<close>, panics or does not end, returns \<open>None\<close>; errors that are
  returned are values of \<open>pfcp_error\<close> (Go) or \<open>errno\<close> (answers to commands). Code outside the
  repository is a parameter: the hash tables of DPDK are the record \<open>hash_api\<close> with the laws
  \<open>hash_laws\<close> (satisfied by \<open>list_hash\<close>), the decoders of go-pfcp the record \<open>ie_api\<close>,
  \<^verbatim>\<open>rte_hash_crc\<close> and \<^verbatim>\<open>rte_pktmbuf_append\<close> are arguments, and the fate of remote calls
  with the order of goroutines is the record \<open>batch_env\<close>.

  \<^bold>\<open>Shared theories.\<close> \<^verbatim>\<open>Upf_Prelude\<close> has the integer types, the fact collections and generic
  lemmas. \<^verbatim>\<open>Go_Prelude\<close> has the errors of the agent and the locale of an identifier allocator,
  \<^verbatim>\<open>Go_Net\<close> what is used of Go's \<^verbatim>\<open>strconv\<close>, \<^verbatim>\<open>strings\<close> and \<^verbatim>\<open>net\<close> (white space is ASCII white
  space) and the helpers of \<^verbatim>\<open>utils.go\<close>. \<^verbatim>\<open>Common_Utils\<close> models \<^verbatim>\<open>utils/common.h\<close>. \<^verbatim>\<open>Packet\<close> and
  \<^verbatim>\<open>Module_Attrs\<close> model the buffer of a packet as 2560 bytes with its counters, metadata
  attributes and arguments of commands. \<^verbatim>\<open>Table_Interface\<close>, \<^verbatim>\<open>Queue_Interface\<close> and
  \<^verbatim>\<open>Rule_Module\<close> are the contracts, as locales, of a lookup table, of a packet queue and of a module
  the driver fills; each is interpreted on the models below.

  \<^bold>\<open>Containers.\<close> \<^verbatim>\<open>Cuckoo_Map\<close> models \<^verbatim>\<open>utils/cuckoo_map.h\<close> in its native mode. \<^verbatim>\<open>Cuckoo_Correct\<close>,
  \<^verbatim>\<open>Cuckoo_Insert\<close> and \<^verbatim>\<open>Cuckoo_Remove\<close> prove its invariant, and \<^verbatim>\<open>Cuckoo_Properties\<close> that every run
  of operations refines a partial map. The insertion loop gets fuel \<open>Suc num_entries\<close> for the
  growth of the table, which is shown to be enough. \<^verbatim>\<open>Llring\<close>, \<^verbatim>\<open>Llring_Correct\<close> and
  \<^verbatim>\<open>Lock_Less_Queue\<close> do the same for \<^verbatim>\<open>kmod/llring.h\<close> and \<^verbatim>\<open>utils/lock_less_queue.h\<close>, as one
  thread runs them, with at most 2^31 slots; every answer of the queue is that of a bounded
  first-in first-out list. The allocator is a parameter, since a ring of 2^28 slots or more is not
  allocated with its size.

  \<^bold>\<open>Checksums.\<close> \<^verbatim>\<open>Checksum\<close> models \<^verbatim>\<open>utils/checksum.h\<close> for x86-64 with and without AVX2;
  \<^verbatim>\<open>Checksum_Correct\<close> and \<^verbatim>\<open>Checksum_Properties\<close> show agreement with the sum of RFC 1071 for buffers
  below 2^34 bytes, acceptance of computed checksums, and the incremental update.

  \<^bold>\<open>Agent.\<close> \<^verbatim>\<open>Fteid\<close> models \<^verbatim>\<open>fteid.go\<close> and \<^verbatim>\<open>Ip_Pool\<close> \<^verbatim>\<open>ip_pool.go\<close>: identifiers and
  addresses are handed out once until released. \<^verbatim>\<open>Port_Range\<close> (\<^verbatim>\<open>parse_pdr.go\<close>) shows that the
  translation of port ranges to masks ends and covers the range exactly. \<^verbatim>\<open>Sdf_Filter\<close> models
  \<^verbatim>\<open>parse_sdf.go\<close>, with a round trip. \<^verbatim>\<open>Pfcp_Rules\<close>, \<^verbatim>\<open>Pfcp_Parse\<close> and \<^verbatim>\<open>Pfcp_Session\<close> model the
  rules, their parsers and the operations on sessions. \<^verbatim>\<open>Bess_Driver\<close> models \<^verbatim>\<open>bess.go\<close>: commands
  of every rule, a goroutine per rule, and the join of a batch; \<^verbatim>\<open>Bess_Batch\<close> and
  \<^verbatim>\<open>Driver_Properties\<close> show what a batch does to the tables of the datapath, for every order of the
  goroutines.

  \<^bold>\<open>Modules.\<close> \<^verbatim>\<open>Header_Modules\<close> and \<^verbatim>\<open>Header_Properties\<close>: the modules that rewrite headers (the
  VLAN, MPLS, MAC, IP and checksum modules). \<^verbatim>\<open>Tunnel_Modules\<close> and \<^verbatim>\<open>Tunnel_Properties\<close>: GTP-U and
  VXLAN, with the round trip through a tunnel and the packets on which the walk along extension
  headers does not return. \<^verbatim>\<open>Dpdk_Hash\<close>: the parameter. \<^verbatim>\<open>Wildcard_Match\<close>, \<^verbatim>\<open>Wildcard_Correct\<close>,
  \<^verbatim>\<open>Wildcard_Properties\<close>, \<^verbatim>\<open>Wildcard_Lookup\<close> and \<^verbatim>\<open>Wildcard_Classify\<close>: \<^verbatim>\<open>wildcard_match.cc\<close>, whose
  slots implement a table of rules and whose lookup picks a matching rule of highest priority. The
  lookup is verified for keys of at most 56 bytes (\<open>wm_ready\<close>); the source does not check this.
  \<^verbatim>\<open>Exact_Match\<close>, \<^verbatim>\<open>Exact_Correct\<close> and \<^verbatim>\<open>Exact_Properties\<close>: \<^verbatim>\<open>exact_match.cc\<close> and
  \<^verbatim>\<open>exact_match_table.h\<close>, a map from the bytes of the fields, for every configuration that its
  initialisation accepts with at least one field.

  \<^bold>\<open>Composition.\<close> \<^verbatim>\<open>Pdr_Lookup\<close> and \<^verbatim>\<open>Far_Lookup\<close> show that the tables the model of the driver
  keeps are what the models of the two lookup modules implement. \<^verbatim>\<open>Far_Tunnel\<close> follows a forwarding
  action rule from the driver's table through \<^verbatim>\<open>farLookup\<close> and \<^verbatim>\<open>GtpuEncap\<close> to the outer headers of
  the frame. That both modules see an attribute at the same place is a hypothesis there.

  \<^bold>\<open>Metadata offsets.\<close> \<^verbatim>\<open>Metadata\<close> models how \<^verbatim>\<open>metadata.cc\<close> computes those places from the graph of
  modules. \<^verbatim>\<open>Metadata_Traverse\<close> shows that the traversals end on every graph with at most 32767
  attributes, the range of the marks they leave. \<^verbatim>\<open>Metadata_Properties\<close> shows when attributes that
  live at the same time are kept apart, and a pipeline for which they are not.

  \<^bold>\<open>Not modelled.\<close> The interleaving of several producers and consumers of a ring, and of workers
  with commands that run beside them. A remote call that is answered after its batch was given up.
  The handlers of PFCP messages (\<^verbatim>\<open>messages*.go\<close>), nodes, connections and notifications, which are
  I/O around the modelled operations. Of the datapath: the control service and daemon
  (\<^verbatim>\<open>bessctl.cc\<close>, \<^verbatim>\<open>bessd.cc\<close>), ports and drivers, the commands that build the module graph,
  workers, schedulers and traffic classes, memory and packet pools, chained buffers, gate
  hooks, and the modules that are not named above. Their reasons are with the components of the
  manifest.
\<close>

end
